(* ===== verification/Prelude.thy ===== *)
theory Prelude
  imports Main "HOL-Library.Word"
begin

text \<open>
  Shared vocabulary of the development: the types that name Go values (byte strings,
  entities, durations and instants in nanoseconds), the outcome of running a piece of Go
  code that may panic, 64-bit signed arithmetic, and generic lemmas and collections used
  by the component theories.
\<close>

section \<open>Names for Go types\<close>

text \<open>
  A Go string and a \<open>[]byte\<close> are both byte sequences, so both are HOL strings (a HOL
  \<open>char\<close> is one byte). \<open>time.Duration\<close> and \<open>time.Time\<close> count nanoseconds; both are
  integers here, and where Go's 64-bit range matters it is written out.
\<close>

type_synonym bytes = string
type_synonym entity = string
type_synonym duration = int
type_synonym instant = int
type_synonym u64 = "64 word"

text \<open>
  The result of running code that may panic: a returned value, or a panic that unwinds
  to the nearest deferred \<open>recover\<close>.
\<close>

datatype 'a outcome = Returned 'a | Panicked

text \<open>Log levels used by the harness's logger.\<close>

datatype level = Debug | Info | Warn | Error

section \<open>Lemma collections\<close>

named_theorems config_simps \<open>option setters and configuration builders\<close>
named_theorems frame_simps \<open>fields an operation leaves alone\<close>

section \<open>64-bit signed integers\<close>

definition int64_min :: int where
  "int64_min = - (2 ^ 63)"

definition int64_max :: int where
  "int64_max = 2 ^ 63 - 1"

definition in_int64 :: "int \<Rightarrow> bool" where
  "in_int64 i \<longleftrightarrow> int64_min \<le> i \<and> i \<le> int64_max"

text \<open>Two's complement wrap-around of a mathematical integer to 64 bits.\<close>

definition wrap64 :: "int \<Rightarrow> int" where
  "wrap64 i = (i + 2 ^ 63) mod 2 ^ 64 - 2 ^ 63"

lemma wrap64_in_range: "in_int64 (wrap64 i)"
  by (simp add: in_int64_def wrap64_def int64_min_def int64_max_def)

lemma wrap64_id: "in_int64 i \<Longrightarrow> wrap64 i = i"
  by (simp add: in_int64_def wrap64_def int64_min_def int64_max_def)

lemma wrap64_neg_min [simp]: "wrap64 (- int64_min) = int64_min"
  by (simp add: wrap64_def int64_min_def)

lemma wrap64_neg:
  assumes "in_int64 i" and "i \<noteq> int64_min"
  shows "wrap64 (- i) = - i"
  using assms by (intro wrap64_id) (auto simp: in_int64_def int64_min_def int64_max_def)

section \<open>Generic facts\<close>

lemma map_upd_dom_finite [intro]: "finite (dom m) \<Longrightarrow> finite (dom (m(k \<mapsto> v)))"
  by simp

text \<open>A chain of checks that stops at the first error.\<close>

lemma first_error_None [simp]:
  "(case x of None \<Rightarrow> y | Some e \<Rightarrow> Some e) = None \<longleftrightarrow> x = None \<and> y = None"
  by (cases x) simp_all

lemma word_succ_ne: "(w :: u64) + 1 \<noteq> w"
  by simp

lemma butlast_last_Cons:
  assumes "xs \<noteq> []"
  shows "xs = butlast xs @ [last xs]"
  using assms by simp

text \<open>Sums over a list of which one element is replaced or removed.\<close>

lemma sum_list_split:
  fixes f :: "'x \<Rightarrow> 'm :: comm_monoid_add"
  assumes "i < length xs"
  shows "sum_list (map f xs) = sum_list (map f (take i xs)) + (f (xs ! i) + sum_list (map f (drop (Suc i) xs)))"
  by (subst id_take_nth_drop [OF assms]) simp

lemma sum_list_replace:
  fixes f :: "'x \<Rightarrow> 'm :: comm_monoid_add"
  assumes "i < length xs"
  shows "sum_list (map f (xs[i := y])) + f (xs ! i) = sum_list (map f xs) + f y"
  unfolding sum_list_split [OF assms, of f] using assms by (simp add: upd_conv_take_nth_drop ac_simps)

lemma sum_list_remove:
  fixes f :: "'x \<Rightarrow> 'm :: comm_monoid_add"
  assumes "i < length xs"
  shows "sum_list (map f (take i xs @ drop (Suc i) xs)) + f (xs ! i) = sum_list (map f xs)"
  unfolding sum_list_split [OF assms, of f] by (simp add: ac_simps)

end
