(* ===== verification/Lifecycle.thy ===== *)
theory Lifecycle
  imports Prelude
begin

text \<open>
  The lifecycle state machine of \<open>internal/lifecycle/state.go\<close>: the states, their order,
  the atomic holder (\<open>Machine\<close>) with its operations, and the transitions the package
  documents as legal.
\<close>

section \<open>States\<close>

datatype State =
    StateCreated | StateStarting | StateRunning | StateDraining | StateStopped | StateFailed

fun state_code :: "State \<Rightarrow> int" where
  "state_code StateCreated = 0"
| "state_code StateStarting = 1"
| "state_code StateRunning = 2"
| "state_code StateDraining = 3"
| "state_code StateStopped = 4"
| "state_code StateFailed = 5"

lemma state_code_inject [simp]: "state_code s = state_code t \<longleftrightarrow> s = t"
  by (cases s; cases t) simp_all

text \<open>The constants are an \<open>iota\<close> enumeration; states are ordered by it.\<close>

instantiation State :: linorder
begin

definition less_eq_State :: "State \<Rightarrow> State \<Rightarrow> bool" where
  "s \<le> t \<longleftrightarrow> state_code s \<le> state_code t"

definition less_State :: "State \<Rightarrow> State \<Rightarrow> bool" where
  "s < t \<longleftrightarrow> state_code s < state_code t"

instance
  by standard (auto simp: less_eq_State_def less_State_def)

end

fun State_String :: "State \<Rightarrow> string" where
  "State_String StateCreated = ''Created''"
| "State_String StateStarting = ''Starting''"
| "State_String StateRunning = ''Running''"
| "State_String StateDraining = ''Draining''"
| "State_String StateStopped = ''Stopped''"
| "State_String StateFailed = ''Failed''"

lemma State_String_inject: "State_String s = State_String t \<longleftrightarrow> s = t"
  by (cases s; cases t) simp_all

section \<open>The atomic holder\<close>

record Machine =
  state :: State

definition New :: Machine where
  "New = \<lparr>state = StateCreated\<rparr>"

definition Get :: "Machine \<Rightarrow> State" where
  "Get m = state m"

text \<open>\<open>Set\<close> swaps and returns the previous state.\<close>

definition Set :: "State \<Rightarrow> Machine \<Rightarrow> State \<times> Machine" where
  "Set s m = (state m, m\<lparr>state := s\<rparr>)"

definition CompareAndSwap :: "State \<Rightarrow> State \<Rightarrow> Machine \<Rightarrow> bool \<times> Machine" where
  "CompareAndSwap prev next m =
     (if state m = prev then (True, m\<lparr>state := next\<rparr>) else (False, m))"

lemmas machine_defs = New_def Get_def Set_def CompareAndSwap_def

lemma CompareAndSwap_once:
  assumes "CompareAndSwap p n m = (True, m')" and "p \<noteq> n"
  shows "fst (CompareAndSwap p n m') = False"
  using assms by (auto simp: CompareAndSwap_def split: if_splits)

section \<open>The documented transitions\<close>

text \<open>
  Created to Starting to Running to Draining to Stopped, and the terminal Failed reached
  only from Starting.
\<close>

fun legal :: "State \<Rightarrow> State \<Rightarrow> bool" where
  "legal StateCreated t = (t = StateStarting)"
| "legal StateStarting t = (t = StateRunning \<or> t = StateFailed)"
| "legal StateRunning t = (t = StateDraining)"
| "legal StateDraining t = (t = StateStopped)"
| "legal StateStopped t = False"
| "legal StateFailed t = False"

lemma legal_increases: "legal s t \<Longrightarrow> s < t"
  by (cases s) (auto simp: less_State_def)

lemma legal_no_return: "legal\<^sup>*\<^sup>* s t \<Longrightarrow> s \<le> t"
  by (induction rule: rtranclp_induct) (auto dest: legal_increases)

text \<open>The sequences of states a run that respects the documented rule goes through.\<close>

fun legal_path :: "State \<Rightarrow> State list \<Rightarrow> bool" where
  "legal_path s [] = True"
| "legal_path s (t # ts) = (legal s t \<and> legal_path t ts)"

lemma legal_path_append:
  "legal_path s (xs @ [t]) \<longleftrightarrow> legal_path s xs \<and> legal (last (s # xs)) t"
  by (induction xs arbitrary: s) auto

end
