(* ===== verification/Go_Std.thy ===== *)
theory Go_Std
  imports Prelude
begin

text \<open>
  What the program uses of Go's standard library: decimal rendering of integers,
  \<open>time.Duration.String\<close>, \<open>time.Time.Sub\<close> (which saturates), \<open>strings.Join\<close> and
  \<open>strconv.Quote\<close>. Nothing here models a file of the repository; the component
  theories use these functions where the code calls the library.
\<close>

section \<open>Decimal digits\<close>

definition digit :: "nat \<Rightarrow> char" where
  "digit d = char_of (48 + d)"

definition digit_value :: "char \<Rightarrow> nat" where
  "digit_value c = of_char c - 48"

lemma digit_value_digit [simp]: "d < 10 \<Longrightarrow> digit_value (digit d) = d"
  by (simp add: digit_def digit_value_def)

fun dec_digits :: "nat \<Rightarrow> string \<Rightarrow> string" where
  "dec_digits n acc =
     (if n = 0 then acc else dec_digits (n div 10) (digit (n mod 10) # acc))"

declare dec_digits.simps [simp del]

definition dec :: "nat \<Rightarrow> string" where
  "dec n = (if n = 0 then ''0'' else dec_digits n [])"

fun dec_parse :: "nat \<Rightarrow> string \<Rightarrow> nat" where
  "dec_parse a [] = a"
| "dec_parse a (c # cs) = dec_parse (a * 10 + digit_value c) cs"

lemma dec_parse_dec_digits: "dec_parse 0 (dec_digits n acc) = dec_parse n acc"
proof (induction n acc rule: dec_digits.induct)
  case (1 n acc)
  show ?case
  proof (cases "n = 0")
    case True
    then show ?thesis by (simp add: dec_digits.simps)
  next
    case False
    then have "dec_parse 0 (dec_digits n acc)
        = dec_parse (n div 10) (digit (n mod 10) # acc)"
      using "1.IH" by (subst dec_digits.simps) simp
    then show ?thesis by simp
  qed
qed

lemma dec_parse_dec [simp]: "dec_parse 0 (dec n) = n"
  by (simp add: dec_def dec_parse_dec_digits digit_value_def)

lemma dec_digits_length:
  "n < 10 ^ k \<Longrightarrow> length (dec_digits n acc) \<le> k + length acc"
proof (induction k arbitrary: n acc)
  case 0
  then show ?case by (simp add: dec_digits.simps)
next
  case (Suc k)
  from Suc.prems have "n div 10 < 10 ^ k"
    by (simp add: div_less_iff_less_mult mult.commute)
  from Suc.IH [OF this] show ?case
    by (subst dec_digits.simps) (simp, metis add_Suc_right length_Cons)
qed

lemma dec_injective: "dec m = dec n \<Longrightarrow> m = n"
  by (metis dec_parse_dec)

section \<open>Strings\<close>

text \<open>\<open>strings.Join\<close>.\<close>

fun strings_join :: "string \<Rightarrow> string list \<Rightarrow> string" where
  "strings_join sep [] = []"
| "strings_join sep [x] = x"
| "strings_join sep (x # y # ys) = x @ sep @ strings_join sep (y # ys)"

lemma strings_join_Nil_iff:
  "\<forall>x \<in> set xs. x \<noteq> [] \<Longrightarrow> strings_join sep xs = [] \<longleftrightarrow> xs = []"
  by (induction sep xs rule: strings_join.induct) auto

text \<open>
  \<open>strconv.Quote\<close> on ASCII input. Bytes above 127 are copied, which is what Go does for
  printable UTF-8; its escapes for invalid or unprintable code points are left out.
\<close>

definition hex_digit :: "nat \<Rightarrow> char" where
  "hex_digit n = (if n < 10 then char_of (48 + n) else char_of (87 + n))"

definition quote_char :: "char \<Rightarrow> string" where
  "quote_char c =
     (let n = (of_char c :: nat) in
      if n = 34 \<or> n = 92 then [char_of (92 :: nat), c]
      else if n = 7 then [char_of (92 :: nat), CHR ''a'']
      else if n = 8 then [char_of (92 :: nat), CHR ''b'']
      else if n = 12 then [char_of (92 :: nat), CHR ''f'']
      else if n = 10 then [char_of (92 :: nat), CHR ''n'']
      else if n = 13 then [char_of (92 :: nat), CHR ''r'']
      else if n = 9 then [char_of (92 :: nat), CHR ''t'']
      else if n = 11 then [char_of (92 :: nat), CHR ''v'']
      else if n < 32 \<or> n = 127
        then [char_of (92 :: nat), CHR ''x'', hex_digit (n div 16), hex_digit (n mod 16)]
      else [c])"

definition go_quote :: "string \<Rightarrow> string" where
  "go_quote s = char_of (34 :: nat) # concat (map quote_char s) @ [char_of (34 :: nat)]"

section \<open>Durations and instants\<close>

definition microsecond :: duration where "microsecond = 1000"
definition millisecond :: duration where "millisecond = 1000000"
definition second :: duration where "second = 1000000000"

text \<open>
  \<open>fmtFrac\<close>: render the fraction of \<open>v / 10 ^ prec\<close> without trailing zeros in
  front of \<open>acc\<close>, and return the integer part.
\<close>

fun fmt_frac :: "nat \<Rightarrow> bool \<Rightarrow> nat \<Rightarrow> string \<Rightarrow> string \<times> nat" where
  "fmt_frac 0 pr v acc = ((if pr then CHR ''.'' # acc else acc), v)"
| "fmt_frac (Suc prec) pr v acc =
     (let d = v mod 10; pr' = pr \<or> d \<noteq> 0
      in fmt_frac prec pr' (v div 10) (if pr' then digit d # acc else acc))"

definition duration_String :: "duration \<Rightarrow> string" where
  "duration_String d =
     (let u = nat \<bar>d\<bar>;
          body =
            (if u = 0 then ''0s''
             else if u < nat second then
               (let (prec, unit) =
                      (if u < nat microsecond then (0, ''ns'')
                       else if u < nat millisecond then (3, [char_of (194 :: nat), char_of (181 :: nat), CHR ''s''])
                       else (6, ''ms''));
                    (frac, v) = fmt_frac prec False u unit
                in dec v @ frac)
             else
               (let (frac, secs) = fmt_frac 9 False u ''s'';
                    s = dec (secs mod 60) @ frac;
                    mins = secs div 60
                in if mins = 0 then s
                   else let m = dec (mins mod 60) @ ''m'' @ s; hours = mins div 60
                        in if hours = 0 then m else dec hours @ ''h'' @ m))
      in if d < 0 then CHR ''-'' # body else body)"

text \<open>\<open>t.Sub(u)\<close> saturates at the smallest and largest \<open>time.Duration\<close>.\<close>

definition time_Sub :: "instant \<Rightarrow> instant \<Rightarrow> duration" where
  "time_Sub t u = max int64_min (min int64_max (t - u))"

lemma time_Sub_exact: "in_int64 (t - u) \<Longrightarrow> time_Sub t u = t - u"
  by (simp add: time_Sub_def in_int64_def)

lemma time_Sub_range: "in_int64 (time_Sub t u)"
  by (auto simp: time_Sub_def in_int64_def int64_min_def int64_max_def)

lemma time_Sub_nonneg: "u \<le> t \<Longrightarrow> 0 \<le> time_Sub t u"
  by (simp add: time_Sub_def int64_min_def int64_max_def)

section \<open>Message headers\<close>

text \<open>
  \<open>nats.Header\<close> is declared by the NATS client as a map from names to lists of values.
  Its \<open>Get\<close> and \<open>Set\<close> methods are the client's code, so they are parameters
  (\<open>hget\<close>, \<open>hset\<close>) wherever the program calls them; this locale states what their
  documentation promises.
\<close>

type_synonym headers = "string \<rightharpoonup> string list"

locale header_api =
  fixes hget :: "headers \<Rightarrow> string \<Rightarrow> string"
    and hset :: "headers \<Rightarrow> string \<Rightarrow> string \<Rightarrow> headers"
  assumes hget_empty: "hget Map.empty k = []"
    and hset_stores: "hset h k v = h(k \<mapsto> [v])"
    and hget_first: "h k = Some (v # vs) \<Longrightarrow> hget h k = v"
    and hget_absent: "h k = None \<Longrightarrow> hget h k = []"
begin

lemma hget_hset_same [simp]: "hget (hset h k v) k = v"
  by (rule hget_first [where vs = "[]"]) (simp add: hset_stores)

lemma dom_hset [simp]: "dom (hset h k v) = insert k (dom h)"
  by (simp add: hset_stores)

lemma hset_apply: "hset h k v k' = (if k' = k then Some [v] else h k')"
  by (simp add: hset_stores)

end

definition map_header_get :: "headers \<Rightarrow> string \<Rightarrow> string" where
  "map_header_get h k = (case h k of Some (v # _) \<Rightarrow> v | _ \<Rightarrow> [])"

definition map_header_set :: "headers \<Rightarrow> string \<Rightarrow> string \<Rightarrow> headers" where
  "map_header_set h k v = h(k \<mapsto> [v])"

interpretation map_headers: header_api map_header_get map_header_set
  by unfold_locales (auto simp: map_header_get_def map_header_set_def)

end
