(* ===== verification/Imp_Errors.thy ===== *)
theory Imp_Errors
  imports Go_Std
begin

text \<open>
  The error values of the program: the typed errors of \<open>errors.go\<close> and
  \<open>state.go\<close>, the sentinels of the libraries the code compares against, and the wrapping
  the code does with \<open>fmt.Errorf\<close> and \<open>errors.Join\<close>. \<open>errors_Is\<close> is the standard
  library's \<open>errors.Is\<close> for sentinel targets, following the \<open>Unwrap\<close> methods.
\<close>

section \<open>Error values\<close>

datatype sentinel =
    Nats_ErrNoResponders
  | Context_Canceled
  | Context_DeadlineExceeded
  | Js_ErrStreamNotFound
  | Js_ErrConsumerNotFound
  | Js_ErrKeyNotFound
  | Persist_ErrNotFound

datatype gerr =
    Sentinel sentinel
  | Opaque string
  | Wrapped string gerr
  | Joined "gerr list"
  | ErrSpecInvalid string string
  | ErrDuplicateStateShape string
  | ErrConfigInvalid string string
  | ErrStreamNotFound string
  | ErrConsumerIncompatible string string
  | ErrSubscriptionFailed string gerr
  | ErrNoResponders string
  | ErrRequestTimeout string duration
  | ErrUnknownStateShape string
  | ErrCapExceeded string int

section \<open>Unwrapping\<close>

text \<open>
  The \<open>Unwrap\<close> methods: \<open>ErrSubscriptionFailed\<close> gives its cause,
  \<open>ErrRequestTimeout\<close> gives \<open>context.DeadlineExceeded\<close>; the other typed errors have
  none. \<open>errors.Join\<close> unwraps to a list.
\<close>

fun Unwrap :: "gerr \<Rightarrow> gerr list" where
  "Unwrap (ErrSubscriptionFailed _ cause) = [cause]"
| "Unwrap (ErrRequestTimeout _ _) = [Sentinel Context_DeadlineExceeded]"
| "Unwrap (Wrapped _ e) = [e]"
| "Unwrap (Joined es) = es"
| "Unwrap _ = []"

fun errors_Is :: "gerr \<Rightarrow> sentinel \<Rightarrow> bool" where
  "errors_Is (Sentinel s) t = (s = t)"
| "errors_Is (Wrapped _ e) t = errors_Is e t"
| "errors_Is (Joined es) t = list_ex (\<lambda>e. errors_Is e t) es"
| "errors_Is (ErrSubscriptionFailed _ cause) t = errors_Is cause t"
| "errors_Is (ErrRequestTimeout _ _) t = (t = Context_DeadlineExceeded)"
| "errors_Is _ t = False"

text \<open>\<open>errors.Is\<close> walks the \<open>Unwrap\<close> tree: its defining equation.\<close>

lemma errors_Is_unwrap:
  "errors_Is e t \<longleftrightarrow> e = Sentinel t \<or> (\<exists>e' \<in> set (Unwrap e). errors_Is e' t)"
  by (cases e) (auto simp: list_ex_iff)

text \<open>\<open>errors.Is\<close> applied to an error that may be nil.\<close>

definition errors_Is_opt :: "gerr option \<Rightarrow> sentinel \<Rightarrow> bool" where
  "errors_Is_opt e t = (case e of None \<Rightarrow> False | Some e' \<Rightarrow> errors_Is e' t)"

lemma errors_Is_opt_simps [simp]:
  "errors_Is_opt None t = False"
  "errors_Is_opt (Some e) t = errors_Is e t"
  by (simp_all add: errors_Is_opt_def)

section \<open>Messages\<close>

text \<open>
  The \<open>Error()\<close> methods. The texts of the libraries' own errors are a parameter
  \<open>lib\<close>; \<open>%q\<close> is \<open>strconv.Quote\<close>.
\<close>

fun Error_text :: "(sentinel \<Rightarrow> string) \<Rightarrow> gerr \<Rightarrow> string" where
  "Error_text lib (Sentinel s) = lib s"
| "Error_text lib (Opaque m) = m"
| "Error_text lib (Wrapped m e) = m @ '': '' @ Error_text lib e"
| "Error_text lib (Joined es) = strings_join ''\<newline>'' (map (Error_text lib) es)"
| "Error_text lib (ErrSpecInvalid f r) = ''imps: spec invalid: field '' @ go_quote f @ '': '' @ r"
| "Error_text lib (ErrDuplicateStateShape s) = ''imps: duplicate state shape '' @ go_quote s"
| "Error_text lib (ErrConfigInvalid f r) = ''imps: config invalid: field '' @ go_quote f @ '': '' @ r"
| "Error_text lib (ErrStreamNotFound s) = ''imps: stream '' @ go_quote s @ '' not found''"
| "Error_text lib (ErrConsumerIncompatible c d) =
     ''imps: consumer '' @ go_quote c @ '' incompatible: '' @ d"
| "Error_text lib (ErrSubscriptionFailed s c) =
     ''imps: subscription to '' @ go_quote s @ '' failed: '' @ Error_text lib c"
| "Error_text lib (ErrNoResponders s) = ''imps: no responders for subject '' @ go_quote s"
| "Error_text lib (ErrRequestTimeout s t) =
     ''imps: request timeout: subject '' @ go_quote s @ '' exceeded '' @ duration_String t"
| "Error_text lib (ErrUnknownStateShape s) = ''imps: unknown state shape '' @ go_quote s"
| "Error_text lib (ErrCapExceeded s n) =
     ''imps: state shape '' @ go_quote s @ '' cap exceeded ('' @
       (if n < 0 then CHR ''-'' # dec (nat (- n)) else dec (nat n)) @ '')''"

end
