(* ===== verification/Registry.thy ===== *)
theory Registry
  imports Imp_Errors
begin

text \<open>
  Per-entity local state (\<open>registry.go\<close>, \<open>state.go\<close>, \<open>StateShape\<close> of \<open>spec.go\<close>).
  Slots are shared by reference: every \<open>StateRef\<close> to one (shape, entity) pair points at
  the same slot, so slots live in an explicit heap and a reference is an index into it.
  This theory runs each operation alone; \<open>Registry_Concurrent\<close> interleaves the steps of
  \<open>ref\<close> and shows that a call running alone is the \<open>ref\<close> of this theory.
\<close>

section \<open>State\<close>

text \<open>
  A factory is user code: it returns a value or panics (a nil factory panics when called).
\<close>

record 'v StateShape =
  st_Name :: string
  st_Factory :: "(unit \<Rightarrow> 'v outcome) option"
  st_Cap :: int

record 'v shape =
  sh_name :: string
  sh_cap :: int
  sh_factory :: "(unit \<Rightarrow> 'v outcome) option"
  sh_count :: int
  sh_slots :: "entity \<rightharpoonup> nat"

record 'v registry =
  shapes :: "string \<rightharpoonup> 'v shape"
  heap :: "'v list"

definition call_factory :: "(unit \<Rightarrow> 'v outcome) option \<Rightarrow> 'v outcome" where
  "call_factory f = (case f of None \<Rightarrow> Panicked | Some g \<Rightarrow> g ())"

definition new_shape :: "'v StateShape \<Rightarrow> 'v shape" where
  "new_shape s =
     \<lparr>sh_name = st_Name s, sh_cap = st_Cap s, sh_factory = st_Factory s,
      sh_count = 0, sh_slots = Map.empty\<rparr>"

definition add_shape :: "'v StateShape \<Rightarrow> (string \<rightharpoonup> 'v shape) \<Rightarrow> (string \<rightharpoonup> 'v shape)" where
  "add_shape s m = m(st_Name s \<mapsto> new_shape s)"

definition newRegistry :: "'v StateShape list \<Rightarrow> 'v registry" where
  "newRegistry ss = \<lparr>shapes = fold add_shape ss Map.empty, heap = []\<rparr>"

section \<open>Operations\<close>

text \<open>
  \<open>ref\<close>: look the slot up, otherwise reserve one unit of the cap, call the factory and
  store the fresh slot. The reservation comes before the factory call, so a panicking
  factory leaves the counter raised.
\<close>

definition ref :: "string \<Rightarrow> entity \<Rightarrow> 'v registry \<Rightarrow> (gerr + nat) outcome \<times> 'v registry" where
  "ref name entity r =
     (case shapes r name of
        None \<Rightarrow> (Returned (Inl (ErrUnknownStateShape name)), r)
      | Some sh \<Rightarrow>
          (case sh_slots sh entity of
             Some existing \<Rightarrow> (Returned (Inr existing), r)
           | None \<Rightarrow>
               if sh_count sh \<ge> sh_cap sh
               then (Returned (Inl (ErrCapExceeded (sh_name sh) (sh_cap sh))), r)
               else
                 (let sh1 = sh\<lparr>sh_count := sh_count sh + 1\<rparr>
                  in case call_factory (sh_factory sh) of
                       Panicked \<Rightarrow> (Panicked, r\<lparr>shapes := (shapes r)(name \<mapsto> sh1)\<rparr>)
                     | Returned v \<Rightarrow>
                         (let fresh = length (heap r);
                              sh2 = sh1\<lparr>sh_slots := (sh_slots sh1)(entity \<mapsto> fresh)\<rparr>
                          in (Returned (Inr fresh),
                              r\<lparr>shapes := (shapes r)(name \<mapsto> sh2), heap := heap r @ [v]\<rparr>)))))"

definition StateRef_Get :: "nat \<Rightarrow> 'v registry \<Rightarrow> 'v" where
  "StateRef_Get a r = heap r ! a"

definition StateRef_Set :: "nat \<Rightarrow> 'v \<Rightarrow> 'v registry \<Rightarrow> 'v registry" where
  "StateRef_Set a v r = r\<lparr>heap := (heap r)[a := v]\<rparr>"

text \<open>The updating function is user code; when it panics the slot keeps its value.\<close>

definition StateRef_Update ::
  "nat \<Rightarrow> ('v \<Rightarrow> 'v outcome) \<Rightarrow> 'v registry \<Rightarrow> unit outcome \<times> 'v registry" where
  "StateRef_Update a fn r =
     (case fn (heap r ! a) of
        Returned v \<Rightarrow> (Returned (), r\<lparr>heap := (heap r)[a := v]\<rparr>)
      | Panicked \<Rightarrow> (Panicked, r))"

lemmas stateref_defs = StateRef_Get_def StateRef_Set_def StateRef_Update_def

section \<open>Invariant\<close>

text \<open>
  For one shape: no more slots than the counter says, the counter within the cap, and
  every slot in the heap. Across shapes: distinct (shape, entity) pairs have distinct
  slots.
\<close>

definition shape_ok :: "nat \<Rightarrow> 'v shape \<Rightarrow> bool" where
  "shape_ok n sh \<longleftrightarrow>
     finite (dom (sh_slots sh)) \<and>
     int (card (dom (sh_slots sh))) \<le> sh_count sh \<and>
     sh_count sh \<le> max 0 (sh_cap sh) \<and>
     (\<forall>e a. sh_slots sh e = Some a \<longrightarrow> a < n)"

definition slot_of :: "'v registry \<Rightarrow> string \<Rightarrow> entity \<Rightarrow> nat option" where
  "slot_of r name e = (case shapes r name of None \<Rightarrow> None | Some sh \<Rightarrow> sh_slots sh e)"

definition registry_ok :: "'v registry \<Rightarrow> bool" where
  "registry_ok r \<longleftrightarrow>
     (\<forall>name sh. shapes r name = Some sh \<longrightarrow> shape_ok (length (heap r)) sh) \<and>
     (\<forall>n1 e1 n2 e2 a. slot_of r n1 e1 = Some a \<and> slot_of r n2 e2 = Some a \<longrightarrow> n1 = n2 \<and> e1 = e2)"

lemma registry_okD:
  assumes "registry_ok r"
  shows "shapes r name = Some sh \<Longrightarrow> shape_ok (length (heap r)) sh"
    and "slot_of r n1 e1 = Some a \<Longrightarrow> slot_of r n2 e2 = Some a \<Longrightarrow> n1 = n2 \<and> e1 = e2"
  using assms unfolding registry_ok_def by blast+

lemma slot_of_bound:
  assumes "registry_ok r" and "slot_of r name e = Some a"
  shows "a < length (heap r)"
  using assms registry_okD(1) [OF assms(1)]
  by (fastforce simp: slot_of_def shape_ok_def split: option.splits)

lemma shape_ok_mono: "shape_ok n sh \<Longrightarrow> n \<le> m \<Longrightarrow> shape_ok m sh"
  by (auto simp: shape_ok_def dest: order_less_le_trans)

lemma newRegistry_shapes_fold:
  "fold add_shape ss m0 name = Some sh \<Longrightarrow>
   m0 name = Some sh \<or> (\<exists>s \<in> set ss. sh = new_shape s)"
proof (induction ss arbitrary: m0)
  case (Cons s ss)
  from Cons.prems have "fold add_shape ss (add_shape s m0) name = Some sh" by simp
  from Cons.IH [OF this] show ?case by (auto simp: add_shape_def split: if_splits)
qed simp

lemma newRegistry_ok: "registry_ok (newRegistry ss)"
proof -
  have fresh: "sh_slots sh = Map.empty \<and> sh_count sh = 0"
    if "shapes (newRegistry ss) name = Some sh" for name sh
  proof -
    have "fold add_shape ss Map.empty name = Some sh"
      using that by (simp add: newRegistry_def)
    from newRegistry_shapes_fold [OF this] show ?thesis by (auto simp: new_shape_def)
  qed
  then have none: "slot_of (newRegistry ss) n e = None" for n e
    by (auto simp: slot_of_def split: option.split)
  show ?thesis
    using fresh by (auto simp: registry_ok_def none shape_ok_def)
qed

text \<open>The shapes a validated list of declarations gives.\<close>

lemma newRegistry_lookup:
  assumes "distinct (map st_Name ss)" and "s \<in> set ss"
  shows "shapes (newRegistry ss) (st_Name s) = Some (new_shape s)"
proof -
  have other: "fold add_shape xs m n = m n"
    if "n \<notin> st_Name ` set xs" for xs n and m :: "string \<rightharpoonup> 'a shape"
    using that by (induction xs arbitrary: m) (auto simp: add_shape_def)
  have "fold add_shape ss m (st_Name s) = Some (new_shape s)" for m
    using assms
  proof (induction ss arbitrary: m)
    case (Cons x xs)
    show ?case
    proof (cases "s = x")
      case True
      with Cons.prems have "fold add_shape xs (add_shape s m) (st_Name s) = add_shape s m (st_Name s)"
        by (intro other) simp
      also have "\<dots> = Some (new_shape s)"
        by (simp add: add_shape_def)
      finally show ?thesis using True by simp
    next
      case False
      with Cons show ?thesis by simp
    qed
  qed simp
  then show ?thesis by (simp add: newRegistry_def)
qed

section \<open>Cases of \<open>ref\<close>\<close>

lemma ref_unknown: "shapes r name = None \<Longrightarrow> ref name e r = (Returned (Inl (ErrUnknownStateShape name)), r)"
  by (simp add: ref_def)

lemma ref_existing: "slot_of r name e = Some a \<Longrightarrow> ref name e r = (Returned (Inr a), r)"
  by (auto simp: ref_def slot_of_def split: option.splits)

lemma ref_full:
  assumes "shapes r name = Some sh" and "sh_slots sh e = None" and "sh_cap sh \<le> sh_count sh"
  shows "ref name e r = (Returned (Inl (ErrCapExceeded (sh_name sh) (sh_cap sh))), r)"
  using assms by (simp add: ref_def)

lemma ref_fresh:
  assumes "shapes r name = Some sh" and "sh_slots sh e = None" and "sh_count sh < sh_cap sh"
    and "call_factory (sh_factory sh) = Returned v"
  shows "ref name e r =
    (Returned (Inr (length (heap r))),
     r\<lparr>shapes := (shapes r)(name \<mapsto>
          sh\<lparr>sh_count := sh_count sh + 1, sh_slots := (sh_slots sh)(e \<mapsto> length (heap r))\<rparr>),
       heap := heap r @ [v]\<rparr>)"
  using assms by (simp add: ref_def Let_def)

lemma ref_factory_panic:
  assumes "shapes r name = Some sh" and "sh_slots sh e = None" and "sh_count sh < sh_cap sh"
    and "call_factory (sh_factory sh) = Panicked"
  shows "ref name e r =
    (Panicked, r\<lparr>shapes := (shapes r)(name \<mapsto> sh\<lparr>sh_count := sh_count sh + 1\<rparr>)\<rparr>)"
  using assms by (simp add: ref_def Let_def)

text \<open>Case analysis over the branches of \<open>ref\<close>.\<close>

lemma ref_cases:
  obtains (unknown) "shapes r name = None"
  | (existing) sh a where "shapes r name = Some sh" "sh_slots sh e = Some a"
  | (full) sh where "shapes r name = Some sh" "sh_slots sh e = None" "sh_cap sh \<le> sh_count sh"
  | (fresh) sh v where "shapes r name = Some sh" "sh_slots sh e = None"
      "sh_count sh < sh_cap sh" "call_factory (sh_factory sh) = Returned v"
  | (panic) sh where "shapes r name = Some sh" "sh_slots sh e = None"
      "sh_count sh < sh_cap sh" "call_factory (sh_factory sh) = Panicked"
  by (metis not_le option.exhaust outcome.exhaust)

lemma ref_existing_shape:
  "shapes r name = Some sh \<Longrightarrow> sh_slots sh e = Some a \<Longrightarrow> ref name e r = (Returned (Inr a), r)"
  by (simp add: ref_def)

lemmas ref_branches = ref_unknown ref_existing_shape ref_full ref_fresh ref_factory_panic

lemma ref_slot:
  assumes "ref name e r = (Returned (Inr a), r')"
  shows "slot_of r' name e = Some a"
  using assms by (cases rule: ref_cases [where r = r and name = name and e = e]) (auto simp: ref_branches slot_of_def)

lemma ref_keeps_slots:
  assumes "slot_of r n e' = Some a"
  shows "slot_of (snd (ref name e r)) n e' = Some a"
  using assms
  by (cases rule: ref_cases [where r = r and name = name and e = e])
    (auto simp: ref_branches slot_of_def split: option.splits)

lemma ref_keeps_heap:
  assumes "a < length (heap r)"
  shows "heap (snd (ref name e r)) ! a = heap r ! a \<and> length (heap r) \<le> length (heap (snd (ref name e r)))"
  using assms
  by (cases rule: ref_cases [where r = r and name = name and e = e]) (auto simp: ref_branches nth_append)

lemma ref_ok:
  assumes "registry_ok r"
  shows "registry_ok (snd (ref name e r))"
proof (cases rule: ref_cases [where r = r and name = name and e = e])
  case (fresh sh v)
  let ?n = "length (heap r)"
  let ?sh = "sh\<lparr>sh_count := sh_count sh + 1, sh_slots := (sh_slots sh)(e \<mapsto> ?n)\<rparr>"
  let ?r = "snd (ref name e r)"
  have r': "shapes ?r = (shapes r)(name \<mapsto> ?sh)" "heap ?r = heap r @ [v]"
    by (simp_all add: ref_fresh [OF fresh])
  have sh: "shape_ok ?n sh" using registry_okD(1) [OF assms fresh(1)] .
  have "card (dom (sh_slots ?sh)) = Suc (card (dom (sh_slots sh)))"
    using sh fresh(2) by (simp add: shape_ok_def domIff)
  then have "shape_ok (Suc ?n) ?sh"
    using sh fresh(3) by (auto simp: shape_ok_def less_Suc_eq)
  moreover have "shape_ok (Suc ?n) sh'" if "shapes r nm = Some sh'" for nm sh'
    using registry_okD(1) [OF assms that] by (rule shape_ok_mono) simp
  moreover have slots: "slot_of ?r n1 e1 = (if n1 = name \<and> e1 = e then Some ?n else slot_of r n1 e1)"
    for n1 e1
    using fresh(1) by (simp add: slot_of_def r')
  ultimately show ?thesis
    using slot_of_bound [OF assms] registry_okD(2) [OF assms]
    unfolding registry_ok_def by (auto simp: r' slots split: if_splits) blast+
next
  case (panic sh)
  let ?r = "snd (ref name e r)"
  have r': "shapes ?r = (shapes r)(name \<mapsto> sh\<lparr>sh_count := sh_count sh + 1\<rparr>)" "heap ?r = heap r"
    by (simp_all add: ref_factory_panic [OF panic])
  have "slot_of ?r n1 e1 = slot_of r n1 e1" for n1 e1
    using panic(1) by (simp add: slot_of_def r')
  then show ?thesis
    using assms registry_okD(1) [OF assms panic(1)] panic(3)
    by (auto simp: registry_ok_def r' shape_ok_def)
qed (use assms in \<open>simp_all add: ref_branches\<close>)

lemma Set_ok: "registry_ok r \<Longrightarrow> registry_ok (StateRef_Set a v r)"
  by (simp add: registry_ok_def StateRef_Set_def slot_of_def)

lemma Update_ok: "registry_ok r \<Longrightarrow> registry_ok (snd (StateRef_Update a fn r))"
  by (simp add: registry_ok_def StateRef_Update_def slot_of_def split: outcome.split)

section \<open>The contract of a state store\<close>

text \<open>
  What the awareness and thinking contexts rely on: looking a slot up twice gives the same
  slot, a slot keeps what was last stored in it, and stores to other slots do not disturb
  it. The locale states the laws over an arbitrary store; the registry is its instance.
\<close>

locale slot_store =
  fixes acquire :: "'k \<Rightarrow> 's \<Rightarrow> 'p option \<times> 's"
    and read :: "'p \<Rightarrow> 's \<Rightarrow> 'v"
    and store :: "'p \<Rightarrow> 'v \<Rightarrow> 's \<Rightarrow> 's"
    and lookup :: "'s \<Rightarrow> 'k \<Rightarrow> 'p option"
    and inv :: "'s \<Rightarrow> bool"
  assumes acquire_inv: "inv s \<Longrightarrow> inv (snd (acquire k s))"
    and store_inv: "inv s \<Longrightarrow> inv (store p v s)"
    and acquire_lookup: "fst (acquire k s) = Some p \<Longrightarrow> lookup (snd (acquire k s)) k = Some p"
    and acquire_present: "lookup s k = Some p \<Longrightarrow> acquire k s = (Some p, s)"
    and acquire_keeps: "lookup s k' = Some p \<Longrightarrow> lookup (snd (acquire k s)) k' = Some p"
    and acquire_read: "inv s \<Longrightarrow> lookup s k' = Some p \<Longrightarrow> read p (snd (acquire k s)) = read p s"
    and store_lookup: "lookup (store p v s) k = lookup s k"
    and store_read: "inv s \<Longrightarrow> lookup s k = Some p \<Longrightarrow> lookup s k' = Some q \<Longrightarrow>
          read q (store p v s) = (if k = k' then v else read q s)"
begin

lemma acquire_twice:
  assumes "acquire k s = (Some p, s')"
  shows "acquire k s' = (Some p, s')"
  using assms acquire_lookup [of k s p] by (intro acquire_present) simp

lemma store_then_acquire:
  assumes "inv s" and "lookup s k = Some p"
  shows "fst (acquire k (store p v s)) = Some p"
    and "read p (snd (acquire k (store p v s))) = v"
proof -
  have l: "lookup (store p v s) k = Some p"
    using assms(2) by (simp add: store_lookup)
  then show "fst (acquire k (store p v s)) = Some p"
    by (simp add: acquire_present)
  have "read p (store p v s) = v"
    using store_read [OF assms assms(2), of v] by simp
  then show "read p (snd (acquire k (store p v s))) = v"
    using l by (simp add: acquire_present)
qed

lemma store_isolated:
  assumes "inv s" and "lookup s k = Some p" and "lookup s k' = Some q" and "k \<noteq> k'"
  shows "read q (store p v s) = read q s"
  using store_read [OF assms(1-3)] assms(4) by simp

end

definition acquire_slot :: "string \<times> entity \<Rightarrow> 'v registry \<Rightarrow> nat option \<times> 'v registry" where
  "acquire_slot k r =
     (case ref (fst k) (snd k) r of
        (Returned (Inr a), r') \<Rightarrow> (Some a, r')
      | (_, r') \<Rightarrow> (None, r'))"

lemma acquire_slot_snd [simp]: "snd (acquire_slot k r) = snd (ref (fst k) (snd k) r)"
  by (simp add: acquire_slot_def split: prod.split outcome.split sum.split)

lemma acquire_slot_fst: "fst (acquire_slot k r) = Some a \<longleftrightarrow> fst (ref (fst k) (snd k) r) = Returned (Inr a)"
  by (auto simp: acquire_slot_def split: prod.split outcome.split sum.split)

interpretation reg: slot_store acquire_slot StateRef_Get StateRef_Set
  "\<lambda>r (name, e). slot_of r name e" registry_ok
proof (unfold_locales, goal_cases)
  case (1 s k)
  then show ?case by (simp add: ref_ok)
next
  case (2 s p v)
  then show ?case by (rule Set_ok)
next
  case (3 k s p)
  then show ?case
    by (cases k) (auto simp: acquire_slot_fst intro!: ref_slot prod_eqI)
next
  case (4 s k p)
  then show ?case by (cases k) (simp add: acquire_slot_def ref_existing)
next
  case (5 s k' p k)
  then show ?case by (cases k') (simp add: ref_keeps_slots)
next
  case (6 s k' p k)
  then show ?case
    by (cases k') (simp add: StateRef_Get_def ref_keeps_heap slot_of_bound)
next
  case (7 p v s k)
  then show ?case by (cases k) (simp add: StateRef_Set_def slot_of_def)
next
  case (8 s k p k' q)
  then show ?case
    using slot_of_bound [OF 8(1)] registry_okD(2) [OF 8(1)]
    by (cases k; cases k') (auto simp: StateRef_Get_def StateRef_Set_def nth_list_update)
qed

section \<open>Properties\<close>

text \<open>
  Every branch of acquiring a slot, on a well-formed registry: an undeclared shape is the
  typed unknown-shape error and changes nothing; an entity that has a slot gets that slot and
  changes nothing; a full shape is the typed cap error and changes nothing; otherwise, unless
  the factory panics, the entity gets a fresh slot holding the factory's value, and every
  other entity and shape keeps its own.
\<close>

theorem ref_outcome:
  "(let (r, g') = ref name e g
    in case shapes g name of
         None \<Rightarrow> r = Returned (Inl (ErrUnknownStateShape name)) \<and> g' = g
       | Some sh \<Rightarrow>
           (case sh_slots sh e of
              Some a \<Rightarrow> r = Returned (Inr a) \<and> g' = g
            | None \<Rightarrow>
                if sh_cap sh \<le> sh_count sh
                then r = Returned (Inl (ErrCapExceeded (sh_name sh) (sh_cap sh))) \<and> g' = g
                else (case call_factory (sh_factory sh) of
                        Panicked \<Rightarrow> r = Panicked \<and> heap g' = heap g \<and> slot_of g' = slot_of g
                      | Returned v \<Rightarrow>
                          r = Returned (Inr (length (heap g))) \<and> heap g' = heap g @ [v] \<and>
                          (\<forall>name' e'. slot_of g' name' e' =
                             (if name' = name \<and> e' = e then Some (length (heap g)) else slot_of g name' e')))))"
  by (auto simp: ref_def slot_of_def Let_def fun_eq_iff split: option.split outcome.split)

text \<open>
  Slots are isolated: storing through one reference is read back through any reference to
  the same (shape, entity) pair, and changes what no other pair reads.
\<close>

theorem slots_isolated:
  assumes "registry_ok g" and "slot_of g name e = Some a" and "slot_of g name' e' = Some b"
  shows "StateRef_Get b (StateRef_Set a v g) =
    (if (name', e') = (name, e) then v else StateRef_Get b g)"
  using reg.store_read [OF assms(1), of "(name, e)" a "(name', e')" b v] assms(2,3) by auto

definition demo_shape :: "nat StateShape" where
  "demo_shape = \<lparr>st_Name = ''counter'', st_Factory = Some (\<lambda>_. Returned 0), st_Cap = 2\<rparr>"

definition demo_registry :: "nat registry" where
  "demo_registry = snd (ref ''counter'' ''b'' (snd (ref ''counter'' ''a'' (newRegistry [demo_shape]))))"

lemma slots_isolated_witness:
  "StateRef_Get 0 (StateRef_Set 0 7 demo_registry) = 7 \<and>
   StateRef_Get 1 (StateRef_Set 0 7 demo_registry) = 0"
proof -
  have ok: "registry_ok demo_registry" unfolding demo_registry_def by (intro ref_ok newRegistry_ok)
  have slots: "slot_of demo_registry ''counter'' ''a'' = Some 0" "slot_of demo_registry ''counter'' ''b'' = Some 1"
    and one: "StateRef_Get 1 demo_registry = 0"
    by (simp_all add: demo_registry_def demo_shape_def newRegistry_def add_shape_def new_shape_def ref_def
        slot_of_def call_factory_def StateRef_Get_def)
  show ?thesis
    using slots_isolated [OF ok slots(1) slots(1), of 7] slots_isolated [OF ok slots(1) slots(2), of 7] one
    by simp
qed

text \<open>
  A factory that panics leaks a unit of the cap: with a cap of one, after the factory has
  panicked once, the shape has no slot and yet refuses every entity.
\<close>

definition panicking_shape :: "nat StateShape" where
  "panicking_shape = \<lparr>st_Name = ''counter'', st_Factory = Some (\<lambda>_. Panicked), st_Cap = 1\<rparr>"

theorem factory_panic_leaks:
  "let g = snd (ref ''counter'' ''a'' (newRegistry [panicking_shape]))
   in slot_of g ''counter'' = Map.empty \<and>
      fst (ref ''counter'' e g) = Returned (Inl (ErrCapExceeded ''counter'' 1))"
  by (simp add: panicking_shape_def newRegistry_def add_shape_def new_shape_def ref_def
      slot_of_def call_factory_def fun_eq_iff)

end
