(* ===== verification/Substrate.thy ===== *)
theory Substrate
  imports Imp_Errors
begin

text \<open>
  The interface to the libraries the program calls but does not contain: the NATS client
  and its JetStream API. Everything here is a parameter of the model. The state of the
  libraries and of the network is a type variable \<open>'n\<close> that only these functions read
  and change; no definition of the development looks inside it.
\<close>

section \<open>Values exchanged with the libraries\<close>

text \<open>One ready case of the \<open>select\<close> in \<open>requestMany\<close>.\<close>

datatype select_event =
    RecvMsg "headers option" bytes
  | RecvClosed
  | DeadlineFired
  | CtxDone gerr

text \<open>
  \<open>jetstream.ConsumerConfig\<close>, the fields the program sets or reads. The policies are
  Go enumerations over \<open>int\<close> whose zero value is the library's default.
\<close>

record JsConsumerConfig =
  js_Durable :: string
  js_Name :: string
  js_FilterSubject :: string
  js_AckPolicy :: int
  js_AckWait :: duration
  js_MaxDeliver :: int
  js_DeliverPolicy :: int
  js_ReplayPolicy :: int
  js_OptStartSeq :: u64
  js_OptStartTime :: "instant option"
  js_MaxAckPending :: int
  js_Description :: string

record ConsumerInfo =
  info_Name :: string
  info_Config :: JsConsumerConfig

text \<open>A JetStream consumer handle: the stream and consumer name it is bound to, and the
  info it has cached (nil when unavailable).\<close>

record Consumer =
  con_stream :: string
  con_name :: string
  CachedInfo :: "ConsumerInfo option"

section \<open>Constants and renderings of the JetStream package\<close>

record jetstream_consts =
  AckExplicitPolicy :: int
  DeliverAllPolicy :: int
  DeliverByStartSequencePolicy :: int
  DeliverByStartTimePolicy :: int
  AckPolicy_String :: "int \<Rightarrow> string"
  DeliverPolicy_String :: "int \<Rightarrow> string"
  ReplayPolicy_String :: "int \<Rightarrow> string"

section \<open>The client calls\<close>

text \<open>
  \<open>RequestWithContext\<close> gets the timeout of the derived context; \<open>CtxErr\<close> is the error of
  the caller's own context when the call is over. \<open>SelectEvents\<close> gives the cases a
  \<open>requestMany\<close> call finds ready, in the order its \<open>select\<close> takes them.
\<close>

record 'n conn =
  HeaderGet :: "headers \<Rightarrow> string \<Rightarrow> string"
  RequestWithContext :: "duration \<Rightarrow> string \<Rightarrow> bytes \<Rightarrow> 'n \<Rightarrow> (gerr + bytes) \<times> 'n"
  CtxErr :: "'n \<Rightarrow> gerr option"
  NewRespInbox :: "'n \<Rightarrow> string \<times> 'n"
  ChanSubscribe :: "string \<Rightarrow> int \<Rightarrow> 'n \<Rightarrow> (gerr + nat) \<times> 'n"
  PublishMsg :: "string \<Rightarrow> string \<Rightarrow> bytes \<Rightarrow> 'n \<Rightarrow> gerr option \<times> 'n"
  SelectEvents :: "duration \<Rightarrow> 'n \<Rightarrow> select_event list \<times> 'n"
  Publish :: "string \<Rightarrow> bytes \<Rightarrow> 'n \<Rightarrow> gerr option \<times> 'n"
  Subscribe :: "string \<Rightarrow> 'n \<Rightarrow> (gerr + nat) \<times> 'n"
  Unsubscribe :: "nat \<Rightarrow> 'n \<Rightarrow> gerr option \<times> 'n"
  MsgAck :: "nat \<Rightarrow> 'n \<Rightarrow> gerr option \<times> 'n"
  MsgNak :: "nat \<Rightarrow> 'n \<Rightarrow> gerr option \<times> 'n"
  JetstreamNew :: "'n \<Rightarrow> gerr option \<times> 'n"
  JsStream :: "string \<Rightarrow> 'n \<Rightarrow> gerr option \<times> 'n"
  CreateConsumer :: "string \<Rightarrow> JsConsumerConfig \<Rightarrow> 'n \<Rightarrow> (gerr + Consumer) \<times> 'n"
  LookupConsumer :: "string \<Rightarrow> string \<Rightarrow> 'n \<Rightarrow> (gerr + Consumer) \<times> 'n"
  DeleteConsumer :: "string \<Rightarrow> string \<Rightarrow> 'n \<Rightarrow> gerr option \<times> 'n"
  Consume :: "Consumer \<Rightarrow> 'n \<Rightarrow> (gerr + nat) \<times> 'n"
  ConsumeStop :: "nat \<Rightarrow> 'n \<Rightarrow> 'n"

end
