(* ===== verification/Metrics.thy ===== *)
theory Metrics
  imports Substrate
begin

text \<open>
  The harness's counters (\<open>metrics_internal.go\<close>, \<open>Metrics\<close> of \<open>spec.go\<close>) and the
  state every operation of the harness works on: the counters, the state of the libraries,
  and the list of effects performed so far. The effect list is the model's record of the
  calls that leave the process (and of log lines); nothing reads it back.
\<close>

section \<open>Counters\<close>

text \<open>
  Every counter is a 64-bit atomic; \<open>InflightThinking\<close> is a signed gauge held in the same
  width (\<open>sint\<close> reads it), the others are unsigned.
\<close>

record metrics =
  InflightThinking :: u64
  DecodeFailures :: u64
  ExtractionFailures :: u64
  AwarenessPanics :: u64
  ThinkingPanics :: u64
  ThinkingErrors :: u64
  NotesDelivered :: u64
  ThinksDispatched :: u64
  IgnoredVerdicts :: u64
  NakTotal :: u64
  RequestCalls :: u64
  RequestManyCalls :: u64
  RequestNoResponders :: u64
  RequestTimeouts :: u64

definition newMetrics :: metrics where
  "newMetrics =
     \<lparr>InflightThinking = 0, DecodeFailures = 0, ExtractionFailures = 0, AwarenessPanics = 0,
      ThinkingPanics = 0, ThinkingErrors = 0, NotesDelivered = 0, ThinksDispatched = 0,
      IgnoredVerdicts = 0, NakTotal = 0, RequestCalls = 0, RequestManyCalls = 0,
      RequestNoResponders = 0, RequestTimeouts = 0\<rparr>"

text \<open>The exported snapshot: the gauge as a signed integer, the counters as naturals.\<close>

record Metrics =
  snap_InflightThinking :: int
  snap_DecodeFailures :: nat
  snap_ExtractionFailures :: nat
  snap_AwarenessPanics :: nat
  snap_ThinkingPanics :: nat
  snap_ThinkingErrors :: nat
  snap_NotesDelivered :: nat
  snap_ThinksDispatched :: nat
  snap_IgnoredVerdicts :: nat
  snap_NakTotal :: nat
  snap_RequestCalls :: nat
  snap_RequestManyCalls :: nat
  snap_RequestNoResponders :: nat
  snap_RequestTimeouts :: nat

definition snapshot :: "metrics \<Rightarrow> Metrics" where
  "snapshot m =
     \<lparr>snap_InflightThinking = sint (InflightThinking m),
      snap_DecodeFailures = unat (DecodeFailures m),
      snap_ExtractionFailures = unat (ExtractionFailures m),
      snap_AwarenessPanics = unat (AwarenessPanics m),
      snap_ThinkingPanics = unat (ThinkingPanics m),
      snap_ThinkingErrors = unat (ThinkingErrors m),
      snap_NotesDelivered = unat (NotesDelivered m),
      snap_ThinksDispatched = unat (ThinksDispatched m),
      snap_IgnoredVerdicts = unat (IgnoredVerdicts m),
      snap_NakTotal = unat (NakTotal m),
      snap_RequestCalls = unat (RequestCalls m),
      snap_RequestManyCalls = unat (RequestManyCalls m),
      snap_RequestNoResponders = unat (RequestNoResponders m),
      snap_RequestTimeouts = unat (RequestTimeouts m)\<rparr>"

text \<open>The zero \<open>Metrics{}\<close> returned before a run, which is what fresh counters read as.\<close>

definition zero_Metrics :: Metrics where
  "zero_Metrics =
     \<lparr>snap_InflightThinking = 0, snap_DecodeFailures = 0, snap_ExtractionFailures = 0,
      snap_AwarenessPanics = 0, snap_ThinkingPanics = 0, snap_ThinkingErrors = 0,
      snap_NotesDelivered = 0, snap_ThinksDispatched = 0, snap_IgnoredVerdicts = 0,
      snap_NakTotal = 0, snap_RequestCalls = 0, snap_RequestManyCalls = 0,
      snap_RequestNoResponders = 0, snap_RequestTimeouts = 0\<rparr>"

lemma snapshot_newMetrics [simp]: "snapshot newMetrics = zero_Metrics"
  by (simp add: snapshot_def newMetrics_def zero_Metrics_def)

section \<open>Effects and the state they act on\<close>

text \<open>A Go \<open>any\<close>: \<open>None\<close> is nil, \<open>Some v\<close> a value of one of the dynamic types \<open>'a\<close>.\<close>

type_synonym 'a any = "'a option"

datatype 'a effect =
    ELog level string
  | ERequest string bytes duration
  | EPublish string bytes
  | ERawConn
  | ESubscribe string nat
  | EPublishRequest string string bytes
  | EUnsubscribe nat
  | EAwareness entity
  | EAck nat
  | ENak nat
  | ENote entity "'a any"
  | ELaunch "'a any" entity
  | EConsume string string nat
  | EConsumeStop nat
  | ECreateConsumer string string string
  | EDeleteConsumer string string

record ('a, 'n) io =
  mtr :: metrics
  effects :: "'a effect list"
  net :: 'n

definition emit :: "'a effect \<Rightarrow> ('a, 'n, 'z) io_scheme \<Rightarrow> ('a, 'n, 'z) io_scheme" where
  "emit e s = s\<lparr>effects := effects s @ [e]\<rparr>"

definition log :: "level \<Rightarrow> string \<Rightarrow> ('a, 'n, 'z) io_scheme \<Rightarrow> ('a, 'n, 'z) io_scheme" where
  "log l m = emit (ELog l m)"

text \<open>
  \<open>bump f_update\<close> is \<open>f.Add(1)\<close> on the counter \<open>f\<close>: the record's update function says
  which counter.
\<close>

definition bump ::
  "((u64 \<Rightarrow> u64) \<Rightarrow> metrics \<Rightarrow> metrics) \<Rightarrow> ('a, 'n, 'z) io_scheme \<Rightarrow> ('a, 'n, 'z) io_scheme" where
  "bump upd s = s\<lparr>mtr := upd (\<lambda>x. x + 1) (mtr s)\<rparr>"

lemma emit_simps [simp]:
  "mtr (emit e s) = mtr s"
  "net (emit e s) = net s"
  "effects (emit e s) = effects s @ [e]"
  "io.more (emit e s) = io.more s"
  by (simp_all add: emit_def)

lemma log_simps [simp]:
  "mtr (log l m s) = mtr s"
  "net (log l m s) = net s"
  "effects (log l m s) = effects s @ [ELog l m]"
  "io.more (log l m s) = io.more s"
  by (simp_all add: log_def)

lemma bump_simps [simp]:
  "mtr (bump u s) = u (\<lambda>x. x + 1) (mtr s)"
  "net (bump u s) = net s"
  "effects (bump u s) = effects s"
  "io.more (bump u s) = io.more s"
  by (simp_all add: bump_def)

section \<open>Reading the effect list\<close>

text \<open>The calls an effect list holds, without the log lines.\<close>

fun is_log :: "'a effect \<Rightarrow> bool" where
  "is_log (ELog _ _) = True"
| "is_log _ = False"

definition calls :: "'a effect list \<Rightarrow> 'a effect list" where
  "calls es = filter (\<lambda>e. \<not> is_log e) es"

lemma calls_simps [simp]:
  "calls [] = []"
  "calls (ELog l m # es) = calls es"
  "calls (es @ fs) = calls es @ calls fs"
  by (simp_all add: calls_def)

lemma calls_Cons: "\<not> is_log e \<Longrightarrow> calls (e # es) = e # calls es"
  by (simp add: calls_def)

end
