(* ===== verification/Loopback.thy ===== *)
theory Loopback
  imports Substrate
begin

text \<open>
  A concrete client library, for evaluating the model: a network that hands out handles in
  order, answers requests from a script, and accepts everything else unless told otherwise.
  It stands for no code of the repository; it shows that the parameters of \<open>Substrate\<close> can
  be instantiated, and the examples of the development run on it.
\<close>

record loop =
  next_handle :: nat
  replies :: "(gerr + bytes) list"
  caller_err :: "gerr option"
  ready_cases :: "select_event list"
  refused :: "string list"
  consumers :: "(string \<times> Consumer) list"

definition loop0 :: loop where
  "loop0 = \<lparr>next_handle = 0, replies = [], caller_err = None, ready_cases = [],
            refused = [], consumers = []\<rparr>"

definition fresh_handle :: "loop \<Rightarrow> (gerr + nat) \<times> loop" where
  "fresh_handle n = (Inr (next_handle n), n\<lparr>next_handle := Suc (next_handle n)\<rparr>)"

definition next_reply :: "loop \<Rightarrow> (gerr + bytes) \<times> loop" where
  "next_reply n =
     (case replies n of
        [] \<Rightarrow> (Inl (Sentinel Context_DeadlineExceeded), n)
      | r # rs \<Rightarrow> (r, n\<lparr>replies := rs\<rparr>))"

definition new_consumer :: "string \<Rightarrow> JsConsumerConfig \<Rightarrow> loop \<Rightarrow> (gerr + Consumer) \<times> loop" where
  "new_consumer st cfg n =
     (let name = (if js_Durable cfg = [] then ''generated'' else js_Durable cfg);
          c = \<lparr>con_stream = st, con_name = name, CachedInfo = Some \<lparr>info_Name = name, info_Config = cfg\<rparr>\<rparr>
      in (Inr c, n\<lparr>consumers := (name, c) # consumers n\<rparr>))"

definition loop_conn :: "loop conn" where
  "loop_conn =
     \<lparr>HeaderGet = map_header_get,
      RequestWithContext = (\<lambda>d s p. next_reply),
      CtxErr = caller_err,
      NewRespInbox = (\<lambda>n. (''_INBOX'', n)),
      ChanSubscribe = (\<lambda>s b. fresh_handle),
      PublishMsg = (\<lambda>s i p n. (None, n)),
      SelectEvents = (\<lambda>d n. (ready_cases n, n)),
      Publish = (\<lambda>s p n. (None, n)),
      Subscribe = (\<lambda>s n. if s \<in> set (refused n) then (Inl (Opaque ''refused''), n) else fresh_handle n),
      Unsubscribe = (\<lambda>h n. (None, n)),
      MsgAck = (\<lambda>h n. (None, n)),
      MsgNak = (\<lambda>h n. (None, n)),
      JetstreamNew = (\<lambda>n. (None, n)),
      JsStream = (\<lambda>s n. if s \<in> set (refused n) then (Some (Sentinel Js_ErrStreamNotFound), n) else (None, n)),
      CreateConsumer = new_consumer,
      LookupConsumer = (\<lambda>s d n.
        case map_of (consumers n) d of
          None \<Rightarrow> (Inl (Sentinel Js_ErrConsumerNotFound), n)
        | Some c \<Rightarrow> (Inr c, n)),
      DeleteConsumer = (\<lambda>s d n. (None, n\<lparr>consumers := filter (\<lambda>c. fst c \<noteq> d) (consumers n)\<rparr>)),
      Consume = (\<lambda>c. fresh_handle),
      ConsumeStop = (\<lambda>h n. n)\<rparr>"

definition loop_js :: jetstream_consts where
  "loop_js =
     \<lparr>AckExplicitPolicy = 0, DeliverAllPolicy = 0, DeliverByStartSequencePolicy = 3,
      DeliverByStartTimePolicy = 4,
      AckPolicy_String = (\<lambda>p. if p = 0 then ''AckExplicit'' else if p = 1 then ''AckAll'' else ''AckNone''),
      DeliverPolicy_String = (\<lambda>p. if p = 0 then ''DeliverAll'' else ''DeliverOther''),
      ReplayPolicy_String = (\<lambda>p. if p = 0 then ''ReplayInstant'' else ''ReplayOriginal'')\<rparr>"

lemmas loop_defs = loop_conn_def loop0_def fresh_handle_def next_reply_def new_consumer_def loop_js_def

end
