(* ===== verification/Request.thy ===== *)
theory Request
  imports Metrics Loopback
begin

text \<open>
  The outbound request surface of \<open>request.go\<close>: per-call options, the single
  request/reply with its translation of substrate errors, and the fan-out request with its
  collection loop.
\<close>

section \<open>Options\<close>

record requestOptions =
  timeout :: duration

record requestManyOptions =
  window :: duration
  max_replies :: int

datatype RequestOption = WithRequestTimeout duration

datatype RequestManyOption = WithRequestManyWindow duration | WithRequestManyMax int

fun apply_RequestOption :: "RequestOption \<Rightarrow> requestOptions \<Rightarrow> requestOptions" where
  "apply_RequestOption (WithRequestTimeout d) o1 = (if d > 0 then o1\<lparr>timeout := d\<rparr> else o1)"

fun apply_RequestManyOption :: "RequestManyOption \<Rightarrow> requestManyOptions \<Rightarrow> requestManyOptions" where
  "apply_RequestManyOption (WithRequestManyWindow d) o1 = (if d > 0 then o1\<lparr>window := d\<rparr> else o1)"
| "apply_RequestManyOption (WithRequestManyMax n) o1 = (if n > 0 then o1\<lparr>max_replies := n\<rparr> else o1)"

definition effective_timeout :: "duration \<Rightarrow> RequestOption list \<Rightarrow> duration" where
  "effective_timeout defaultTimeout opts =
     (let cfg = fold apply_RequestOption opts \<lparr>timeout = 0\<rparr>
      in if timeout cfg \<le> 0 then defaultTimeout else timeout cfg)"

definition many_config :: "RequestManyOption list \<Rightarrow> requestManyOptions" where
  "many_config opts = fold apply_RequestManyOption opts \<lparr>window = 0, max_replies = 0\<rparr>"

definition effective_window :: "duration \<Rightarrow> requestManyOptions \<Rightarrow> duration" where
  "effective_window defaultWindow cfg = (if window cfg \<le> 0 then defaultWindow else window cfg)"

lemma fold_RequestOption_nonneg:
  "0 \<le> timeout o1 \<Longrightarrow> 0 \<le> timeout (fold apply_RequestOption opts o1)"
proof (induction opts arbitrary: o1)
  case (Cons x xs)
  then show ?case by (cases x) (auto intro!: Cons.IH)
qed simp

lemma effective_timeout_positive:
  "0 < defaultTimeout \<Longrightarrow> 0 < effective_timeout defaultTimeout opts"
  by (simp add: effective_timeout_def Let_def)

lemma many_config_nonneg:
  "0 \<le> window o1 \<and> 0 \<le> max_replies o1 \<Longrightarrow>
   0 \<le> window (fold apply_RequestManyOption opts o1) \<and>
   0 \<le> max_replies (fold apply_RequestManyOption opts o1)"
proof (induction opts arbitrary: o1)
  case (Cons x xs)
  then show ?case by (cases x) (auto intro!: Cons.IH)
qed simp

section \<open>Single request/reply\<close>

text \<open>
  The category a failed call falls into, in the order of the code's \<open>switch\<close>. \<open>cerr\<close> is
  the caller's \<open>ctx.Err()\<close>.
\<close>

datatype category = No_responders | Canceled | Caller_deadline | Timeout | Passthrough

definition categorize :: "gerr option \<Rightarrow> gerr \<Rightarrow> category" where
  "categorize cerr err =
     (if errors_Is err Nats_ErrNoResponders then No_responders
      else if errors_Is_opt cerr Context_Canceled \<or> errors_Is err Context_Canceled then Canceled
      else if errors_Is err Context_DeadlineExceeded
        then (if errors_Is_opt cerr Context_DeadlineExceeded then Caller_deadline else Timeout)
      else Passthrough)"

definition requestSingle ::
  "'n conn \<Rightarrow> duration \<Rightarrow> string \<Rightarrow> bytes \<Rightarrow> RequestOption list \<Rightarrow>
   ('a, 'n, 'z) io_scheme \<Rightarrow> (gerr + bytes) \<times> ('a, 'n, 'z) io_scheme" where
  "requestSingle nc defaultTimeout subject payload opts s0 =
     (let s1 = bump RequestCalls_update s0;
          effective = effective_timeout defaultTimeout opts;
          (r, n) = RequestWithContext nc effective subject payload (net s1);
          s2 = emit (ERequest subject payload effective) (s1\<lparr>net := n\<rparr>)
      in case r of
           Inr reply \<Rightarrow> (Inr reply, log Debug ''request'' s2)
         | Inl err \<Rightarrow>
             (case categorize (CtxErr nc n) err of
                No_responders \<Rightarrow>
                  (Inl (ErrNoResponders subject),
                   log Warn ''request failed'' (bump RequestNoResponders_update s2))
              | Canceled \<Rightarrow> (Inl err, log Warn ''request failed'' s2)
              | Caller_deadline \<Rightarrow> (Inl err, log Warn ''request failed'' s2)
              | Timeout \<Rightarrow>
                  (Inl (ErrRequestTimeout subject effective),
                   log Warn ''request failed'' (bump RequestTimeouts_update s2))
              | Passthrough \<Rightarrow> (Inl err, log Warn ''request failed'' s2)))"

lemma requestSingle_calls:
  "calls (effects (snd (requestSingle nc d subject payload opts s)))
   = calls (effects s) @ [ERequest subject payload (effective_timeout d opts)]"
  by (auto simp: requestSingle_def Let_def calls_Cons
      split: prod.split sum.split category.split)

lemma requestSingle_more [simp]:
  "io.more (snd (requestSingle nc d subject payload opts s)) = io.more s"
  by (auto simp: requestSingle_def Let_def split: prod.split sum.split category.split)

lemma requestSingle_net:
  "net (snd (requestSingle nc d subject payload opts s))
   = snd (RequestWithContext nc (effective_timeout d opts) subject payload (net s))"
  by (auto simp: requestSingle_def Let_def split: prod.split sum.split category.split)

lemma requestSingle_metrics:
  "mtr (snd (requestSingle nc d subject payload opts s)) =
    (let (r, n) = RequestWithContext nc (effective_timeout d opts) subject payload (net s);
         m = (mtr s)\<lparr>RequestCalls := RequestCalls (mtr s) + 1\<rparr>
     in case r of Inr _ \<Rightarrow> m
        | Inl err \<Rightarrow>
           (case categorize (CtxErr nc n) err of
              No_responders \<Rightarrow> m\<lparr>RequestNoResponders := RequestNoResponders m + 1\<rparr>
            | Timeout \<Rightarrow> m\<lparr>RequestTimeouts := RequestTimeouts m + 1\<rparr>
            | _ \<Rightarrow> m))"
  by (auto simp: requestSingle_def Let_def split: prod.split sum.split category.split)

section \<open>Fan-out request\<close>

definition natsStatusHdr :: string where
  "natsStatusHdr = ''Status''"

definition is_status_reply :: "(headers \<Rightarrow> string \<Rightarrow> string) \<Rightarrow> headers option \<Rightarrow> bool" where
  "is_status_reply hget h =
     (case h of None \<Rightarrow> False | Some h' \<Rightarrow> hget h' natsStatusHdr \<noteq> [])"

text \<open>
  The collection loop, over the cases its \<open>select\<close> finds ready. It returns the replies
  collected and the error to return; \<open>None\<close> is a loop still waiting at the end of the list.
\<close>

fun collect_replies ::
  "(headers \<Rightarrow> string \<Rightarrow> string) \<Rightarrow> int \<Rightarrow> select_event list \<Rightarrow> bytes list \<Rightarrow>
   (bytes list \<times> gerr option) option" where
  "collect_replies hget maxReplies [] collected = None"
| "collect_replies hget maxReplies (RecvMsg h d # es) collected =
     (if is_status_reply hget h then collect_replies hget maxReplies es collected
      else let collected' = collected @ [d]
           in if maxReplies > 0 \<and> int (length collected') \<ge> maxReplies
              then Some (collected', None)
              else collect_replies hget maxReplies es collected')"
| "collect_replies hget maxReplies (RecvClosed # es) collected = Some (collected, None)"
| "collect_replies hget maxReplies (DeadlineFired # es) collected = Some (collected, None)"
| "collect_replies hget maxReplies (CtxDone e # es) collected = Some (collected, Some e)"

text \<open>
  The call. A result of \<open>None\<close> in the first component of the pair is the nil slice the
  failing paths return; an outer \<open>None\<close> is a call that has not returned.
\<close>

type_synonym many_result = "bytes list option \<times> gerr option"

definition unsubscribe_inbox ::
  "'n conn \<Rightarrow> nat \<Rightarrow> ('a, 'n, 'z) io_scheme \<Rightarrow> ('a, 'n, 'z) io_scheme" where
  "unsubscribe_inbox nc sub s =
     (let (uerr, n) = Unsubscribe nc sub (net s);
          s' = emit (EUnsubscribe sub) (s\<lparr>net := n\<rparr>)
      in case uerr of None \<Rightarrow> s' | Some _ \<Rightarrow> log Warn ''request_many unsubscribe failed'' s')"

lemma unsubscribe_inbox_simps [simp]:
  "calls (effects (unsubscribe_inbox nc sub s)) = calls (effects s) @ [EUnsubscribe sub]"
  "mtr (unsubscribe_inbox nc sub s) = mtr s"
  "io.more (unsubscribe_inbox nc sub s) = io.more s"
  by (auto simp: unsubscribe_inbox_def Let_def calls_Cons split: prod.split option.split)

definition requestMany ::
  "'n conn \<Rightarrow> duration \<Rightarrow> string \<Rightarrow> bytes \<Rightarrow> RequestManyOption list \<Rightarrow>
   ('a, 'n, 'z) io_scheme \<Rightarrow> many_result option \<times> ('a, 'n, 'z) io_scheme" where
  "requestMany nc defaultWindow subject payload opts s0 =
     (let s1 = bump RequestManyCalls_update s0;
          cfg = many_config opts;
          effective = effective_window defaultWindow cfg;
          maxReplies = max_replies cfg;
          bufSize = (if maxReplies < 64 then 64 else maxReplies);
          (inbox, n1) = NewRespInbox nc (net s1);
          (subr, n2) = ChanSubscribe nc inbox bufSize n1;
          s2 = s1\<lparr>net := n2\<rparr>
      in case subr of
           Inl err \<Rightarrow> (Some (None, Some err), log Warn ''request_many failed'' s2)
         | Inr sub \<Rightarrow>
             (let s3 = emit (ESubscribe inbox sub) s2;
                  (perr, n3) = PublishMsg nc subject inbox payload (net s3);
                  s4 = emit (EPublishRequest subject inbox payload) (s3\<lparr>net := n3\<rparr>)
              in case perr of
                   Some err \<Rightarrow>
                     if errors_Is err Nats_ErrNoResponders
                     then (Some (None, Some (ErrNoResponders subject)),
                           unsubscribe_inbox nc sub (log Warn ''request_many failed''
                             (bump RequestNoResponders_update s4)))
                     else (Some (None, Some err),
                           unsubscribe_inbox nc sub (log Warn ''request_many failed'' s4))
                 | None \<Rightarrow>
                     (let (evs, n4) = SelectEvents nc effective (net s4);
                          s5 = s4\<lparr>net := n4\<rparr>
                      in case collect_replies (HeaderGet nc) maxReplies evs [] of
                           None \<Rightarrow> (None, s5)
                         | Some (collected, None) \<Rightarrow>
                             (Some (Some collected, None), unsubscribe_inbox nc sub (log Debug ''request_many'' s5))
                         | Some (collected, Some e) \<Rightarrow>
                             (Some (Some collected, Some e),
                              unsubscribe_inbox nc sub (log Warn ''request_many failed'' s5)))))"

subsection \<open>The collection loop against a reference\<close>

text \<open>The payloads of the replies before the first case that ends the loop.\<close>

fun data_replies :: "(headers \<Rightarrow> string \<Rightarrow> string) \<Rightarrow> select_event list \<Rightarrow> bytes list" where
  "data_replies hget (RecvMsg h d # es) =
     (if is_status_reply hget h then data_replies hget es else d # data_replies hget es)"
| "data_replies hget _ = []"

fun first_stop :: "select_event list \<Rightarrow> gerr option option" where
  "first_stop [] = None"
| "first_stop (RecvMsg _ _ # es) = first_stop es"
| "first_stop (CtxDone e # es) = Some (Some e)"
| "first_stop (_ # es) = Some None"

lemma collect_replies_uncapped:
  "maxReplies \<le> 0 \<Longrightarrow>
   collect_replies hget maxReplies es acc
   = map_option (\<lambda>e. (acc @ data_replies hget es, e)) (first_stop es)"
  by (induction hget maxReplies es acc rule: collect_replies.induct) (auto simp: Let_def)

lemma collect_replies_capped:
  assumes "int (length acc) < maxReplies"
  shows "collect_replies hget maxReplies es acc =
    (if maxReplies \<le> int (length acc + length (data_replies hget es))
     then Some (acc @ take (nat maxReplies - length acc) (data_replies hget es), None)
     else map_option (\<lambda>e. (acc @ data_replies hget es, e)) (first_stop es))"
  using assms
proof (induction hget maxReplies es acc rule: collect_replies.induct)
  case (2 hget maxReplies h d es collected)
  show ?case
  proof (cases "is_status_reply hget h")
    case True
    with 2 show ?thesis by simp
  next
    case False
    show ?thesis
    proof (cases "int (length (collected @ [d])) \<ge> maxReplies")
      case True
      with "2.prems" have "nat maxReplies - length collected = 1" by simp
      with True False "2.prems" show ?thesis by simp
    next
      case cap: False
      then have "int (length (collected @ [d])) < maxReplies" by simp
      note IH = "2.IH"(2) [OF False refl _ this]
      have "nat maxReplies - length collected = Suc (nat maxReplies - length (collected @ [d]))"
        using cap by simp
      with IH cap False "2.prems" show ?thesis by (simp add: Let_def)
    qed
  qed
qed simp_all

lemma collect_replies_bound:
  assumes "collect_replies hget m es acc = Some (out, e)"
    and "0 < m" and "int (length acc) < m"
  shows "int (length out) \<le> m"
  using assms by (auto simp: collect_replies_capped split: if_splits)

lemma collect_replies_returns:
  "first_stop es \<noteq> None \<Longrightarrow> \<exists>r. collect_replies hget m es acc = Some r"
  by (induction hget m es acc rule: collect_replies.induct) (auto simp: Let_def)

subsection \<open>Effects of the call\<close>

lemma requestMany_calls:
  "(let (r, s') = requestMany nc d subject payload opts s;
        cs = (\<lambda>inbox sub. [ESubscribe inbox sub, EPublishRequest subject inbox payload])
    in case r of
         None \<Rightarrow> \<exists>inbox sub. calls (effects s') = calls (effects s) @ cs inbox sub
       | Some (out, e) \<Rightarrow>
           out = None \<and> e \<noteq> None \<and> calls (effects s') = calls (effects s) \<or>
           (\<exists>inbox sub. calls (effects s') = calls (effects s) @ cs inbox sub @ [EUnsubscribe sub]))"
  by (simp add: requestMany_def Let_def calls_Cons split: prod.split sum.split option.split)

lemma requestMany_more:
  "io.more (snd (requestMany nc d subject payload opts s)) = io.more s"
  by (auto simp: requestMany_def Let_def split: prod.split sum.split option.split)

section \<open>Properties\<close>

text \<open>
  C20. A request is sent exactly once, with the effective timeout, whatever happens to it, and
  is counted once. A reply is returned as it is. A failure is classified: no responders is
  reported by the typed error that names the subject and is counted; a failure after the
  caller's own context ended is passed through and counted nowhere; a deadline that is not
  the caller's is the typed timeout, which carries the effective timeout, and is counted;
  anything else is passed through.
\<close>

theorem request_single_outcome:
  "(let eff = effective_timeout d opts;
        (answer, n) = RequestWithContext nc eff subject payload (net s);
        (r, s') = requestSingle nc d subject payload opts s;
        m = (mtr s)\<lparr>RequestCalls := RequestCalls (mtr s) + 1\<rparr>;
        ended = errors_Is_opt (CtxErr nc n) Context_Canceled;
        expired = errors_Is_opt (CtxErr nc n) Context_DeadlineExceeded
    in net s' = n \<and> calls (effects s') = calls (effects s) @ [ERequest subject payload eff] \<and>
       (case answer of
          Inr reply \<Rightarrow> r = Inr reply \<and> mtr s' = m
        | Inl err \<Rightarrow>
            if errors_Is err Nats_ErrNoResponders
            then r = Inl (ErrNoResponders subject) \<and>
                 mtr s' = m\<lparr>RequestNoResponders := RequestNoResponders m + 1\<rparr>
            else if errors_Is err Context_DeadlineExceeded \<and> \<not> errors_Is err Context_Canceled \<and>
                    \<not> ended \<and> \<not> expired
            then r = Inl (ErrRequestTimeout subject eff) \<and>
                 mtr s' = m\<lparr>RequestTimeouts := RequestTimeouts m + 1\<rparr>
            else r = Inl err \<and> mtr s' = m))"
  by (auto simp: requestSingle_def categorize_def Let_def calls_Cons bump_def
      split: prod.split sum.split category.split)

text \<open>
  C36. The collection loop of a fan-out request returns, in order of arrival, the payloads of
  the replies that are not status messages: the first \<open>m\<close> of them, with no error, as soon as
  a positive cap \<open>m\<close> is reached, and otherwise all that arrive before the case that ends the
  loop, with that case's error. It returns as soon as there is such a case.
\<close>

theorem collect_replies_reference:
  "collect_replies hget m es [] =
    (let data = data_replies hget es
     in if 0 < m \<and> m \<le> int (length data) then Some (take (nat m) data, None)
        else map_option (\<lambda>e. (data, e)) (first_stop es))"
  using collect_replies_uncapped [of m hget es "[]"] collect_replies_capped [of "[]" m hget es]
  by (cases "0 < m") (auto simp: Let_def)

text \<open>
  C37. A fan-out request that returns holds no inbox: either it failed before it had one and
  made no call, or it subscribed one inbox, published the request to it, and unsubscribed
  that same inbox, in this order and nothing else.
\<close>

theorem request_many_releases_inbox:
  assumes "requestMany nc d subject payload opts s = (Some (out, e), s')"
  shows "out = None \<and> e \<noteq> None \<and> calls (effects s') = calls (effects s) \<or>
    (\<exists>inbox sub. calls (effects s') = calls (effects s) @
       [ESubscribe inbox sub, EPublishRequest subject inbox payload, EUnsubscribe sub])"
  using requestMany_calls [of nc d subject payload opts s] by (simp add: assms)

text \<open>A fan-out request over the loopback network: a status message and two replies arrive.\<close>

definition demo_io :: "(unit, loop) io" where
  "demo_io =
     \<lparr>mtr = newMetrics, effects = [],
      net = loop0\<lparr>ready_cases :=
        [RecvMsg (Some [''Status'' \<mapsto> [''503'']]) [], RecvMsg None ''a'', RecvMsg None ''b'', DeadlineFired]\<rparr>\<rparr>"

lemma request_many_releases_inbox_witness:
  "let (r, s') = requestMany loop_conn 5 ''svc'' ''q'' [WithRequestManyMax 2] demo_io
   in r = Some (Some [''a'', ''b''], None) \<and>
      calls (effects s') = [ESubscribe ''_INBOX'' 0, EPublishRequest ''svc'' ''_INBOX'' ''q'', EUnsubscribe 0]"
proof -
  obtain s' where run: "requestMany loop_conn 5 ''svc'' ''q'' [WithRequestManyMax 2] demo_io
      = (Some (Some [''a'', ''b''], None), s')"
    by (simp add: requestMany_def demo_io_def loop_defs many_config_def Let_def natsStatusHdr_def
        is_status_reply_def map_header_get_def)
  from request_many_releases_inbox [OF run] obtain inbox sub where
    "calls (effects s') = [ESubscribe inbox sub, EPublishRequest ''svc'' inbox ''q'', EUnsubscribe sub]"
    by (auto simp: demo_io_def)
  moreover have "ESubscribe ''_INBOX'' 0 \<in> set (calls (effects s'))"
    using arg_cong [OF run, of snd]
    by (auto simp: requestMany_def demo_io_def loop_defs many_config_def Let_def natsStatusHdr_def
        is_status_reply_def map_header_get_def unsubscribe_inbox_def calls_def)
  ultimately show ?thesis by (auto simp: run)
qed

end
