(* ===== verification/Contexts.thy ===== *)
theory Contexts
  imports Registry Request
begin

text \<open>
  Verdicts (\<open>verdict.go\<close>) and the two surfaces user code is given
  (\<open>context.go\<close>, \<open>context_awareness.go\<close>, \<open>context_thinking.go\<close>). User code is any
  program over its surface: a tree whose nodes are the method calls the interface has and
  whose branches are what the program does with each result. An awareness program has no
  node for publishing, fan-out or the raw connection, because its interface has no such
  method.
\<close>

section \<open>Verdicts\<close>

record 'a Verdict =
  kind :: "8 word"
  payload :: "'a any"
  reason :: "'a any"
  verdict_entity :: entity

definition verdictIgnore :: "8 word" where "verdictIgnore = 1"
definition verdictNote :: "8 word" where "verdictNote = 2"
definition verdictThink :: "8 word" where "verdictThink = 3"

definition Ignore :: "'a Verdict" where
  "Ignore = \<lparr>kind = verdictIgnore, payload = None, reason = None, verdict_entity = []\<rparr>"

definition Note :: "'a any \<Rightarrow> 'a Verdict" where
  "Note p = \<lparr>kind = verdictNote, payload = p, reason = None, verdict_entity = []\<rparr>"

definition Think :: "'a any \<Rightarrow> entity \<Rightarrow> 'a Verdict" where
  "Think r e = \<lparr>kind = verdictThink, payload = None, reason = r, verdict_entity = e\<rparr>"

text \<open>The zero value \<open>Verdict{}\<close>, which any package can write although its fields are unexported.\<close>

definition zero_Verdict :: "'a Verdict" where
  "zero_Verdict = \<lparr>kind = 0, payload = None, reason = None, verdict_entity = []\<rparr>"

lemma verdict_kinds [simp]:
  "verdictIgnore \<noteq> verdictNote" "verdictIgnore \<noteq> verdictThink" "verdictNote \<noteq> verdictThink"
  "verdictNote \<noteq> verdictIgnore" "verdictThink \<noteq> verdictIgnore" "verdictThink \<noteq> verdictNote"
  by (simp_all add: verdictIgnore_def verdictNote_def verdictThink_def)

lemmas verdict_defs = Ignore_def Note_def Think_def zero_Verdict_def

section \<open>The state the contexts work on\<close>

record ('a, 'n) core = "('a, 'n) io" +
  registry :: "'a any registry"
  thinkingCancelled :: bool

record 'n awarenessCtx =
  aw_conn :: "'n conn"
  aw_defaultRequestTimeout :: duration

record 'n thinkingCtx =
  th_conn :: "'n conn"
  th_defaultRequestTimeout :: duration
  th_defaultRequestManyWindow :: duration

section \<open>Awareness programs\<close>

datatype (dead 'a) aw_prog =
    AwReturn "'a Verdict"
  | AwPanic
  | AwState string entity "gerr + nat \<Rightarrow> 'a aw_prog"
  | AwGet nat "'a any \<Rightarrow> 'a aw_prog"
  | AwSet nat "'a any" "'a aw_prog"
  | AwUpdate nat "'a any \<Rightarrow> 'a any outcome" "'a aw_prog"
  | AwRequest string bytes "RequestOption list" "gerr + bytes \<Rightarrow> 'a aw_prog"

text \<open>
  \<open>State\<close> on either context: \<open>registry.ref\<close>, whose factory call may panic.
\<close>

definition ctx_State ::
  "string \<Rightarrow> entity \<Rightarrow> ('a, 'n, 'z) core_scheme \<Rightarrow> (gerr + nat) outcome \<times> ('a, 'n, 'z) core_scheme" where
  "ctx_State name e s = (let (r, reg') = ref name e (registry s) in (r, s\<lparr>registry := reg'\<rparr>))"

definition awareness_Request ::
  "'n awarenessCtx \<Rightarrow> string \<Rightarrow> bytes \<Rightarrow> RequestOption list \<Rightarrow> ('a, 'n, 'z) core_scheme \<Rightarrow>
   (gerr + bytes) \<times> ('a, 'n, 'z) core_scheme" where
  "awareness_Request a subject pl opts s =
     requestSingle (aw_conn a) (aw_defaultRequestTimeout a) subject pl opts s"

primrec aw_run ::
  "'n awarenessCtx \<Rightarrow> 'a aw_prog \<Rightarrow> ('a, 'n, 'z) core_scheme \<Rightarrow>
   'a Verdict outcome \<times> ('a, 'n, 'z) core_scheme" where
  "aw_run a (AwReturn v) = (\<lambda>s. (Returned v, s))"
| "aw_run a AwPanic = (\<lambda>s. (Panicked, s))"
| "aw_run a (AwState name e k) =
     (\<lambda>s. case ctx_State name e s of
            (Returned r, s') \<Rightarrow> aw_run a (k r) s'
          | (Panicked, s') \<Rightarrow> (Panicked, s'))"
| "aw_run a (AwGet p k) = (\<lambda>s. aw_run a (k (StateRef_Get p (registry s))) s)"
| "aw_run a (AwSet p v k) = (\<lambda>s. aw_run a k (s\<lparr>registry := StateRef_Set p v (registry s)\<rparr>))"
| "aw_run a (AwUpdate p f k) =
     (\<lambda>s. case StateRef_Update p f (registry s) of
            (Returned _, reg') \<Rightarrow> aw_run a k (s\<lparr>registry := reg'\<rparr>)
          | (Panicked, reg') \<Rightarrow> (Panicked, s\<lparr>registry := reg'\<rparr>))"
| "aw_run a (AwRequest subject pl opts k) =
     (\<lambda>s. let (r, s') = awareness_Request a subject pl opts s in aw_run a (k r) s')"

section \<open>Thinking programs\<close>

datatype (dead 'a, dead 'n) th_prog =
    ThReturn "gerr option"
  | ThPanic
  | ThState string entity "gerr + nat \<Rightarrow> ('a, 'n) th_prog"
  | ThGet nat "'a any \<Rightarrow> ('a, 'n) th_prog"
  | ThSet nat "'a any" "('a, 'n) th_prog"
  | ThUpdate nat "'a any \<Rightarrow> 'a any outcome" "('a, 'n) th_prog"
  | ThRequest string bytes "RequestOption list" "gerr + bytes \<Rightarrow> ('a, 'n) th_prog"
  | ThRequestMany string bytes "RequestManyOption list" "many_result \<Rightarrow> ('a, 'n) th_prog"
  | ThPublish string bytes "gerr option \<Rightarrow> ('a, 'n) th_prog"
  | ThInFlight "int \<Rightarrow> ('a, 'n) th_prog"
  | ThConn "'n \<Rightarrow> 'a any \<times> 'n" "'a any \<Rightarrow> ('a, 'n) th_prog"
  | ThCtxDone "bool \<Rightarrow> ('a, 'n) th_prog"

definition thinking_Publish ::
  "'n thinkingCtx \<Rightarrow> string \<Rightarrow> bytes \<Rightarrow> ('a, 'n, 'z) core_scheme \<Rightarrow>
   gerr option \<times> ('a, 'n, 'z) core_scheme" where
  "thinking_Publish r subject pl s =
     (let (err, n) = Publish (th_conn r) subject pl (net s)
      in (err, emit (EPublish subject pl) (s\<lparr>net := n\<rparr>)))"

definition thinking_InFlight :: "('a, 'n, 'z) core_scheme \<Rightarrow> int" where
  "thinking_InFlight s = sint (InflightThinking (mtr s))"

text \<open>\<open>Conn\<close> hands the raw connection out: whatever the program then does with it.\<close>

definition thinking_Conn ::
  "('n \<Rightarrow> 'a any \<times> 'n) \<Rightarrow> ('a, 'n, 'z) core_scheme \<Rightarrow> 'a any \<times> ('a, 'n, 'z) core_scheme" where
  "thinking_Conn f s = (let (x, n) = f (net s) in (x, emit ERawConn (s\<lparr>net := n\<rparr>)))"

definition thinking_Request ::
  "'n thinkingCtx \<Rightarrow> string \<Rightarrow> bytes \<Rightarrow> RequestOption list \<Rightarrow> ('a, 'n, 'z) core_scheme \<Rightarrow>
   (gerr + bytes) \<times> ('a, 'n, 'z) core_scheme" where
  "thinking_Request r subject pl opts s =
     requestSingle (th_conn r) (th_defaultRequestTimeout r) subject pl opts s"

definition thinking_RequestMany ::
  "'n thinkingCtx \<Rightarrow> string \<Rightarrow> bytes \<Rightarrow> RequestManyOption list \<Rightarrow> ('a, 'n, 'z) core_scheme \<Rightarrow>
   many_result option \<times> ('a, 'n, 'z) core_scheme" where
  "thinking_RequestMany r subject pl opts s =
     requestMany (th_conn r) (th_defaultRequestManyWindow r) subject pl opts s"

text \<open>
  One step of a thinking goroutine: one method call. \<open>None\<close> when it has ended, or waits in
  a \<open>RequestMany\<close> whose window has not closed.
\<close>

fun th_step ::
  "'n thinkingCtx \<Rightarrow> ('a, 'n) th_prog \<Rightarrow> ('a, 'n, 'z) core_scheme \<Rightarrow>
   (('a, 'n) th_prog \<times> ('a, 'n, 'z) core_scheme) option" where
  "th_step r (ThReturn e) s = None"
| "th_step r ThPanic s = None"
| "th_step r (ThState name e k) s =
     (case ctx_State name e s of
        (Returned x, s') \<Rightarrow> Some (k x, s')
      | (Panicked, s') \<Rightarrow> Some (ThPanic, s'))"
| "th_step r (ThGet p k) s = Some (k (StateRef_Get p (registry s)), s)"
| "th_step r (ThSet p v k) s = Some (k, s\<lparr>registry := StateRef_Set p v (registry s)\<rparr>)"
| "th_step r (ThUpdate p f k) s =
     (case StateRef_Update p f (registry s) of
        (Returned _, reg') \<Rightarrow> Some (k, s\<lparr>registry := reg'\<rparr>)
      | (Panicked, reg') \<Rightarrow> Some (ThPanic, s\<lparr>registry := reg'\<rparr>))"
| "th_step r (ThRequest subject pl opts k) s =
     (let (x, s') = thinking_Request r subject pl opts s in Some (k x, s'))"
| "th_step r (ThRequestMany subject pl opts k) s =
     (case thinking_RequestMany r subject pl opts s of
        (None, s') \<Rightarrow> None
      | (Some x, s') \<Rightarrow> Some (k x, s'))"
| "th_step r (ThPublish subject pl k) s =
     (let (x, s') = thinking_Publish r subject pl s in Some (k x, s'))"
| "th_step r (ThInFlight k) s = Some (k (thinking_InFlight s), s)"
| "th_step r (ThConn f k) s = (let (x, s') = thinking_Conn f s in Some (k x, s'))"
| "th_step r (ThCtxDone k) s = Some (k (thinkingCancelled s), s)"

section \<open>What user code can and cannot change\<close>

text \<open>The counters a context call may change.\<close>

definition same_but_requests :: "metrics \<Rightarrow> metrics \<Rightarrow> bool" where
  "same_but_requests m m' \<longleftrightarrow>
     InflightThinking m' = InflightThinking m \<and> DecodeFailures m' = DecodeFailures m \<and>
     ExtractionFailures m' = ExtractionFailures m \<and> AwarenessPanics m' = AwarenessPanics m \<and>
     ThinkingPanics m' = ThinkingPanics m \<and> ThinkingErrors m' = ThinkingErrors m \<and>
     NotesDelivered m' = NotesDelivered m \<and> ThinksDispatched m' = ThinksDispatched m \<and>
     IgnoredVerdicts m' = IgnoredVerdicts m \<and> NakTotal m' = NakTotal m"

lemma same_but_requests_refl [simp]: "same_but_requests m m"
  by (simp add: same_but_requests_def)

lemma same_but_requests_trans:
  "same_but_requests m m' \<Longrightarrow> same_but_requests m' m'' \<Longrightarrow> same_but_requests m m''"
  by (simp add: same_but_requests_def)

lemma requestSingle_same_but_requests:
  "same_but_requests (mtr s) (mtr (snd (requestSingle nc d subject pl opts s)))"
  unfolding requestSingle_metrics
  by (simp add: same_but_requests_def Let_def split: prod.split sum.split category.split)

lemma requestMany_same_but_requests:
  "same_but_requests (mtr s) (mtr (snd (requestMany nc d subject pl opts s)))"
  by (simp add: requestMany_def same_but_requests_def Let_def
      split: prod.split sum.split option.split)

lemma requestSingle_core:
  "registry (snd (requestSingle nc d subject pl opts s)) = registry s"
  "thinkingCancelled (snd (requestSingle nc d subject pl opts s)) = thinkingCancelled s"
  "core.more (snd (requestSingle nc d subject pl opts s)) = core.more s"
  using requestSingle_more [of nc d subject pl opts s] by (cases s; cases "snd (requestSingle nc d subject pl opts s)"; simp)+

text \<open>
  The frame of an awareness run: the only calls it adds are single requests, the only
  counters it moves are the request counters, and it keeps the registry well formed.
\<close>

fun is_request :: "'a effect \<Rightarrow> bool" where
  "is_request (ERequest _ _ _) = True"
| "is_request _ = False"

definition aw_frame :: "('a, 'n, 'z) core_scheme \<Rightarrow> ('a, 'n, 'z) core_scheme \<Rightarrow> bool" where
  "aw_frame s s' \<longleftrightarrow>
     (\<exists>cs. calls (effects s') = calls (effects s) @ cs \<and> list_all is_request cs) \<and>
     same_but_requests (mtr s) (mtr s') \<and>
     (registry_ok (registry s) \<longrightarrow> registry_ok (registry s')) \<and>
     thinkingCancelled s' = thinkingCancelled s \<and>
     core.more s' = core.more s"

lemma aw_frame_refl [simp]: "aw_frame s s"
  by (auto simp: aw_frame_def intro: exI [of _ "[]"])

lemma aw_frame_trans: "aw_frame s t \<Longrightarrow> aw_frame t u \<Longrightarrow> aw_frame s u"
  unfolding aw_frame_def using same_but_requests_trans
  by (metis append.assoc list_all_append)

lemma aw_frame_registry:
  "(registry_ok (registry s) \<Longrightarrow> registry_ok r) \<Longrightarrow> aw_frame s (s\<lparr>registry := r\<rparr>)"
  by (auto simp: aw_frame_def intro: exI [of _ "[]"])

lemma ctx_State_frame: "aw_frame s (snd (ctx_State name e s))"
proof -
  have "aw_frame s (s\<lparr>registry := snd (ref name e (registry s))\<rparr>)"
    by (intro aw_frame_registry ref_ok)
  then show ?thesis by (cases "ref name e (registry s)") (simp add: ctx_State_def)
qed

lemma requestSingle_frame: "aw_frame s (snd (requestSingle nc d subject pl opts s))"
  unfolding aw_frame_def
  by (simp add: requestSingle_calls requestSingle_core requestSingle_same_but_requests)

lemma aw_run_frame: "aw_frame s (snd (aw_run a p s))"
proof (induction p arbitrary: s)
  case (AwState name e k)
  obtain r s' where st: "ctx_State name e s = (r, s')" by (metis surj_pair)
  have "aw_frame s s'" using ctx_State_frame [of s name e] by (simp add: st)
  with AwState show ?case
    by (cases r) (auto simp: st intro: aw_frame_trans)
next
  case (AwUpdate p f k)
  have "aw_frame s (s\<lparr>registry := snd (StateRef_Update p f (registry s))\<rparr>)"
    by (intro aw_frame_registry Update_ok)
  with AwUpdate show ?case
    by (auto split: prod.split outcome.split intro: aw_frame_trans)
next
  case (AwRequest subject pl opts k)
  have "aw_frame s (snd (awareness_Request a subject pl opts s))"
    by (simp add: awareness_Request_def requestSingle_frame)
  with AwRequest show ?case
    by (auto split: prod.split intro: aw_frame_trans)
next
  case (AwSet p v k)
  have "aw_frame s (s\<lparr>registry := StateRef_Set p v (registry s)\<rparr>)"
    by (intro aw_frame_registry Set_ok)
  with AwSet show ?case by (auto intro: aw_frame_trans)
qed auto

lemma th_step_registry:
  assumes "th_step r p s = Some (p', s')" and "registry_ok (registry s)"
  shows "registry_ok (registry s')"
proof -
  have many: "registry (snd (requestMany nc d subject pl opts s)) = registry s" for nc d subject pl opts
    using requestMany_more [of nc d subject pl opts s]
    by (cases s; cases "snd (requestMany nc d subject pl opts s)") simp
  have em: "registry (emit e s) = registry s" for e and s :: "('a, 'b, 'c) core_scheme"
    by (simp add: emit_def)
  show ?thesis
  proof (cases p)
    case (ThRequestMany subject pl opts k)
    with assms many [of "th_conn r" "th_defaultRequestManyWindow r" subject pl opts] show ?thesis
      by (auto simp: thinking_RequestMany_def split: prod.splits option.splits)
  next
    case (ThRequest subject pl opts k)
    with assms requestSingle_core(1) [of "th_conn r" "th_defaultRequestTimeout r" subject pl opts s]
    show ?thesis by (auto simp: thinking_Request_def split: prod.splits)
  next
    case (ThState name e k)
    with assms ref_ok [OF assms(2), of name e] show ?thesis
      by (auto simp: ctx_State_def split: prod.splits outcome.splits)
  next
    case (ThUpdate q f k)
    with assms Update_ok [OF assms(2), of q f] show ?thesis
      by (auto split: prod.splits outcome.splits)
  qed (use assms in \<open>auto simp: thinking_Publish_def thinking_Conn_def em Set_ok split: prod.splits\<close>)
qed

section \<open>Properties\<close>

text \<open>
  Awareness cannot act. Whatever an awareness function does with the context it is given,
  the only calls it causes are single requests: it publishes nothing, subscribes nothing,
  fans nothing out and never holds the raw connection. No counter but the request counters
  moves, and nothing of the runtime besides the registry, the counters, the trace and the
  network state changes.
\<close>

theorem awareness_cannot_act:
  "let (r, s') = aw_run a p s
   in (\<exists>cs. calls (effects s') = calls (effects s) @ cs \<and> filter (\<lambda>e. \<not> is_request e) cs = []) \<and>
      same_but_requests (mtr s) (mtr s') \<and>
      thinkingCancelled s' = thinkingCancelled s \<and> core.more s' = core.more s"
  using aw_run_frame [of s a p]
  by (auto simp: aw_frame_def list_all_iff filter_empty_conv split: prod.split)

end
