(* ===== verification/Imp_Spec.thy ===== *)
theory Imp_Spec
  imports Contexts
begin

text \<open>
  The declarative description of an imp (\<open>spec.go\<close>, \<open>channel.go\<close>), its validation at
  construction (\<open>validate.go\<close>), and the construction options (\<open>options.go\<close>). Function
  fields that may be nil are options.
\<close>

section \<open>Declarations\<close>

record ConsumerConfig =
  cc_AckPolicy :: int
  cc_AckWait :: duration
  cc_MaxDeliver :: int
  cc_DeliverPolicy :: int
  cc_ReplayPolicy :: int
  cc_OptStartSeq :: u64
  cc_OptStartTime :: "instant option"
  cc_MaxAckPending :: int
  cc_Description :: string

definition zero_ConsumerConfig :: ConsumerConfig where
  "zero_ConsumerConfig =
     \<lparr>cc_AckPolicy = 0, cc_AckWait = 0, cc_MaxDeliver = 0, cc_DeliverPolicy = 0,
      cc_ReplayPolicy = 0, cc_OptStartSeq = 0, cc_OptStartTime = None,
      cc_MaxAckPending = 0, cc_Description = []\<rparr>"

record StreamSource =
  src_Stream :: string
  src_FilterSubject :: string
  src_Durable :: string
  src_ConsumerConfig :: ConsumerConfig

text \<open>
  The sealed interface \<open>Source\<close>. Besides the two structs, a pointer to one of them also has
  the \<open>isSource\<close> method; the code's type switches send it to their default branch.
\<close>

datatype Source = SubjectSource string | Stream_Source StreamSource | OtherSource

record Message =
  Subject :: string
  Reply :: string
  Headers :: "headers option"
  Data :: bytes

type_synonym 'a Decoder = "Message \<Rightarrow> (gerr + 'a any) outcome"
type_synonym 'a EntityExtractor = "'a any \<Rightarrow> (gerr + entity) outcome"

record 'a ChannelSpec =
  ch_Name :: string
  ch_Source :: "Source option"
  ch_Decode :: "'a Decoder option"
  ch_ExtractEntity :: "'a EntityExtractor option"

record ('a, 'n) ImpSpec =
  Name :: string
  Version :: string
  Channels :: "'a ChannelSpec list"
  Awareness :: "('a any \<Rightarrow> entity \<Rightarrow> 'a aw_prog) option"
  Thinking :: "('a any \<Rightarrow> entity \<Rightarrow> ('a, 'n) th_prog) option"
  States :: "'a any StateShape list"
  OnNote :: "(entity \<Rightarrow> 'a any \<Rightarrow> 'n \<Rightarrow> unit outcome \<times> 'n) option"

record ImpIdentity =
  id_Name :: string
  id_Version :: string

section \<open>Validation\<close>

text \<open>\<open>None\<close> is Go's nil error. The set \<open>seen\<close> is the code's map of names met so far.\<close>

fun validateStates_from :: "string set \<Rightarrow> 'v StateShape list \<Rightarrow> gerr option" where
  "validateStates_from seen [] = None"
| "validateStates_from seen (s # ss) =
     (if st_Name s = [] then Some (ErrSpecInvalid ''StateShape.Name'' ''empty'')
      else if st_Name s \<in> seen then Some (ErrDuplicateStateShape (st_Name s))
      else if st_Factory s = None
        then Some (ErrSpecInvalid ''StateShape.Factory'' (''nil for shape '' @ st_Name s))
      else if st_Cap s \<le> 0
        then Some (ErrSpecInvalid ''StateShape.Cap'' (''must be > 0 for shape '' @ st_Name s))
      else validateStates_from (insert (st_Name s) seen) ss)"

definition validateStates :: "'v StateShape list \<Rightarrow> gerr option" where
  "validateStates ss = validateStates_from {} ss"

fun validateSource :: "string \<Rightarrow> Source \<Rightarrow> gerr option" where
  "validateSource channelName (SubjectSource subject) =
     (if subject = [] then Some (ErrSpecInvalid ''SubjectSource.Subject'' (''empty for channel '' @ channelName))
      else None)"
| "validateSource channelName (Stream_Source s) =
     (if src_Stream s = []
        then Some (ErrSpecInvalid ''StreamSource.Stream'' (''empty for channel '' @ channelName))
      else if src_FilterSubject s = []
        then Some (ErrSpecInvalid ''StreamSource.FilterSubject'' (''empty for channel '' @ channelName))
      else None)"
| "validateSource channelName OtherSource =
     Some (ErrSpecInvalid ''ChannelSpec.Source'' (''unknown source kind for channel '' @ channelName))"

fun validateChannels_from :: "string set \<Rightarrow> 'a ChannelSpec list \<Rightarrow> gerr option" where
  "validateChannels_from seen [] = None"
| "validateChannels_from seen (c # cs) =
     (if ch_Name c = [] then Some (ErrSpecInvalid ''ChannelSpec.Name'' ''empty'')
      else if ch_Name c \<in> seen
        then Some (ErrSpecInvalid ''ChannelSpec.Name'' (''duplicate channel name '' @ ch_Name c))
      else if ch_Decode c = None
        then Some (ErrSpecInvalid ''ChannelSpec.Decode'' (''nil for channel '' @ ch_Name c))
      else if ch_ExtractEntity c = None
        then Some (ErrSpecInvalid ''ChannelSpec.ExtractEntity'' (''nil for channel '' @ ch_Name c))
      else
        (case ch_Source c of
           None \<Rightarrow> Some (ErrSpecInvalid ''ChannelSpec.Source'' (''nil for channel '' @ ch_Name c))
         | Some src \<Rightarrow>
             (case validateSource (ch_Name c) src of
                Some err \<Rightarrow> Some err
              | None \<Rightarrow> validateChannels_from (insert (ch_Name c) seen) cs)))"

definition validateChannels :: "'a ChannelSpec list \<Rightarrow> gerr option" where
  "validateChannels cs = validateChannels_from {} cs"

definition validateSpec :: "('a, 'n) ImpSpec \<Rightarrow> gerr option" where
  "validateSpec spec =
     (if Name spec = [] then Some (ErrSpecInvalid ''Name'' ''empty'')
      else if Version spec = [] then Some (ErrSpecInvalid ''Version'' ''empty'')
      else if Awareness spec = None then Some (ErrSpecInvalid ''Awareness'' ''nil'')
      else if Thinking spec = None then Some (ErrSpecInvalid ''Thinking'' ''nil'')
      else
        (case validateStates (States spec) of
           Some err \<Rightarrow> Some err
         | None \<Rightarrow> validateChannels (Channels spec)))"

section \<open>What a validated specification promises\<close>

text \<open>The declarative reading of the validation: the invariant the rest of the harness relies on.\<close>

definition state_ok :: "'v StateShape \<Rightarrow> bool" where
  "state_ok s \<longleftrightarrow> st_Name s \<noteq> [] \<and> st_Factory s \<noteq> None \<and> 0 < st_Cap s"

fun source_ok :: "Source \<Rightarrow> bool" where
  "source_ok (SubjectSource subject) = (subject \<noteq> [])"
| "source_ok (Stream_Source s) = (src_Stream s \<noteq> [] \<and> src_FilterSubject s \<noteq> [])"
| "source_ok OtherSource = False"

definition channel_ok :: "'a ChannelSpec \<Rightarrow> bool" where
  "channel_ok c \<longleftrightarrow>
     ch_Name c \<noteq> [] \<and> ch_Decode c \<noteq> None \<and> ch_ExtractEntity c \<noteq> None \<and>
     (case ch_Source c of None \<Rightarrow> False | Some src \<Rightarrow> source_ok src)"

definition spec_ok :: "('a, 'n) ImpSpec \<Rightarrow> bool" where
  "spec_ok spec \<longleftrightarrow>
     Name spec \<noteq> [] \<and> Version spec \<noteq> [] \<and> Awareness spec \<noteq> None \<and> Thinking spec \<noteq> None \<and>
     list_all state_ok (States spec) \<and> distinct (map st_Name (States spec)) \<and>
     list_all channel_ok (Channels spec) \<and> distinct (map ch_Name (Channels spec))"

lemma validateStates_from_ok:
  "validateStates_from seen ss = None \<longleftrightarrow>
   list_all state_ok ss \<and> distinct (map st_Name ss) \<and> st_Name ` set ss \<inter> seen = {}"
  by (induction ss arbitrary: seen) (auto simp: state_ok_def)

lemma validateSource_ok: "validateSource n src = None \<longleftrightarrow> source_ok src"
  by (cases src) auto

lemma validateChannels_step:
  "validateChannels_from seen (c # cs) = None \<longleftrightarrow>
   channel_ok c \<and> ch_Name c \<notin> seen \<and> validateChannels_from (insert (ch_Name c) seen) cs = None"
  by (cases "ch_Source c") (auto simp: channel_ok_def validateSource_ok)

lemma validateChannels_from_ok:
  "validateChannels_from seen cs = None \<longleftrightarrow>
   list_all channel_ok cs \<and> distinct (map ch_Name cs) \<and> ch_Name ` set cs \<inter> seen = {}"
proof (induction cs arbitrary: seen)
  case (Cons c cs)
  show ?case by (simp only: validateChannels_step Cons.IH) auto
qed simp

lemma validateSpec_ok: "validateSpec spec = None \<longleftrightarrow> spec_ok spec"
  by (simp add: validateSpec_def spec_ok_def validateStates_def validateChannels_def
      validateStates_from_ok validateChannels_from_ok)

text \<open>Every rejection is one of the two typed construction errors.\<close>

fun names_field :: "gerr \<Rightarrow> bool" where
  "names_field (ErrSpecInvalid f r) = (f \<noteq> [] \<and> r \<noteq> [])"
| "names_field (ErrDuplicateStateShape s) = (s \<noteq> [])"
| "names_field _ = False"

lemma validateStates_from_names: "validateStates_from seen ss = Some e \<Longrightarrow> names_field e"
  by (induction ss arbitrary: seen) (auto split: if_splits)

lemma validateSource_names: "validateSource n src = Some e \<Longrightarrow> names_field e"
  by (cases src) (auto split: if_splits)

lemma validateChannels_from_names: "validateChannels_from seen cs = Some e \<Longrightarrow> names_field e"
  by (induction cs arbitrary: seen)
    (auto split: if_splits option.splits dest: validateSource_names)

lemma validateSpec_names: "validateSpec spec = Some e \<Longrightarrow> names_field e"
  by (auto simp: validateSpec_def validateStates_def validateChannels_def
      dest: validateStates_from_names validateChannels_from_names split: if_splits option.splits)

section \<open>Construction options\<close>

text \<open>The log handler is opaque to the model: its identity is a number, 0 the discard handler.\<close>

record runtimeOptions =
  drainWindow :: duration
  logHandler :: nat
  defaultRequestTimeout :: duration
  defaultRequestManyWindow :: duration

definition defaultRuntimeOptions :: runtimeOptions where
  "defaultRuntimeOptions =
     \<lparr>drainWindow = 30 * second, logHandler = 0,
      defaultRequestTimeout = 5 * second, defaultRequestManyWindow = 1 * second\<rparr>"

datatype Option =
    WithDrainWindow duration
  | WithLogger "nat option"
  | WithDefaultRequestTimeout duration
  | WithDefaultRequestManyWindow duration

fun apply_Option :: "Option \<Rightarrow> runtimeOptions \<Rightarrow> runtimeOptions" where
  "apply_Option (WithDrainWindow d) o1 = o1\<lparr>drainWindow := d\<rparr>"
| "apply_Option (WithLogger h) o1 = (case h of None \<Rightarrow> o1 | Some h' \<Rightarrow> o1\<lparr>logHandler := h'\<rparr>)"
| "apply_Option (WithDefaultRequestTimeout d) o1 = o1\<lparr>defaultRequestTimeout := d\<rparr>"
| "apply_Option (WithDefaultRequestManyWindow d) o1 = o1\<lparr>defaultRequestManyWindow := d\<rparr>"

definition apply_Options :: "Option list \<Rightarrow> runtimeOptions" where
  "apply_Options opts = fold apply_Option opts defaultRuntimeOptions"

text \<open>Options apply left to right: the last setter of a field wins.\<close>

lemma apply_Options_snoc: "apply_Options (opts @ [x]) = apply_Option x (apply_Options opts)"
  by (simp add: apply_Options_def)

section \<open>Properties\<close>

text \<open>
  C38. Construction accepts exactly the well-formed specifications: name, version, awareness
  and thinking present; state shapes with distinct nonempty names, a factory and a positive
  cap; channels with distinct nonempty names, a decoder, an extractor and a source of one of
  the two kinds with its names filled in.
\<close>

theorem validateSpec_exact: "validateSpec spec = None \<longleftrightarrow> spec_ok spec"
  by (rule validateSpec_ok)

section \<open>A specification to run\<close>

text \<open>
  One subject channel and one durable stream channel; a message is its own payload and its
  entity is fixed. Awareness reacts to the payload: it asks a service before it thinks, notes,
  panics, or returns the zero verdict; thinking publishes what it was given.
\<close>

definition demo_channel :: "string \<Rightarrow> Source \<Rightarrow> string ChannelSpec" where
  "demo_channel name src =
     \<lparr>ch_Name = name, ch_Source = Some src,
      ch_Decode = Some (\<lambda>m. Returned (if Data m = [] then Inl (Opaque ''empty'') else Inr (Some (Data m)))),
      ch_ExtractEntity = Some (\<lambda>d. Returned (Inr ''e1''))\<rparr>"

definition demo_awareness :: "string any \<Rightarrow> entity \<Rightarrow> string aw_prog" where
  "demo_awareness d e =
     (if d = Some ''think'' then AwRequest ''svc'' ''q'' [] (\<lambda>_. AwReturn (Think d e))
      else if d = Some ''note'' then AwReturn (Note d)
      else if d = Some ''panic'' then AwPanic
      else if d = Some ''zero'' then AwReturn zero_Verdict
      else AwReturn Ignore)"

definition demo_thinking :: "string any \<Rightarrow> entity \<Rightarrow> (string, loop) th_prog" where
  "demo_thinking d e =
     ThPublish ''out'' (case d of None \<Rightarrow> [] | Some p \<Rightarrow> p) (\<lambda>err. ThReturn err)"

definition demo_source :: StreamSource where
  "demo_source = \<lparr>src_Stream = ''ORDERS'', src_FilterSubject = ''orders.*'', src_Durable = ''imp'',
                  src_ConsumerConfig = zero_ConsumerConfig\<rparr>"

definition demo_spec :: "(string, loop) ImpSpec" where
  "demo_spec =
     \<lparr>Name = ''demo'', Version = ''1'',
      Channels = [demo_channel ''in'' (SubjectSource ''actions''), demo_channel ''st'' (Stream_Source demo_source)],
      Awareness = Some demo_awareness, Thinking = Some demo_thinking, States = [], OnNote = None\<rparr>"

lemma demo_spec_ok: "spec_ok demo_spec"
  by (simp add: spec_ok_def demo_spec_def demo_channel_def channel_ok_def demo_source_def)

definition demo_message :: "bytes \<Rightarrow> Message" where
  "demo_message d = \<lparr>Subject = ''actions'', Reply = [], Headers = None, Data = d\<rparr>"

lemmas demo_defs = demo_spec_def demo_channel_def demo_awareness_def demo_thinking_def
  demo_source_def demo_message_def zero_ConsumerConfig_def

end
