(* ===== verification/Stream_Config.thy ===== *)
theory Stream_Config
  imports Imp_Spec
begin

text \<open>
  The configuration side of the JetStream channel path (\<open>stream.go\<close>, lines 153 to 254):
  translating a declared \<open>ConsumerConfig\<close>, the compatibility check of an existing durable
  consumer, and its rendering helpers.
\<close>

section \<open>Building the consumer configuration\<close>

definition buildConsumerConfig :: "jetstream_consts \<Rightarrow> StreamSource \<Rightarrow> string \<Rightarrow> JsConsumerConfig" where
  "buildConsumerConfig js src resolvedFilter =
     (let cc = src_ConsumerConfig src
      in \<lparr>js_Durable = [], js_Name = [],
          js_FilterSubject = resolvedFilter,
          js_AckPolicy = (if cc_AckPolicy cc \<noteq> 0 then cc_AckPolicy cc else AckExplicitPolicy js),
          js_AckWait = (if cc_AckWait cc > 0 then cc_AckWait cc else 0),
          js_MaxDeliver = (if cc_MaxDeliver cc \<noteq> 0 then cc_MaxDeliver cc else 0),
          js_DeliverPolicy = (if cc_DeliverPolicy cc \<noteq> 0 then cc_DeliverPolicy cc else 0),
          js_ReplayPolicy = (if cc_ReplayPolicy cc \<noteq> 0 then cc_ReplayPolicy cc else 0),
          js_OptStartSeq = (if cc_OptStartSeq cc \<noteq> 0 then cc_OptStartSeq cc else 0),
          js_OptStartTime = (case cc_OptStartTime cc of None \<Rightarrow> None | Some t \<Rightarrow> Some t),
          js_MaxAckPending = (if cc_MaxAckPending cc \<noteq> 0 then cc_MaxAckPending cc else 0),
          js_Description = (if cc_Description cc \<noteq> [] then cc_Description cc else [])\<rparr>)"

lemma buildConsumerConfig_simps [config_simps]:
  "js_Durable (buildConsumerConfig js src f) = []"
  "js_Name (buildConsumerConfig js src f) = []"
  "js_FilterSubject (buildConsumerConfig js src f) = f"
  "js_AckPolicy (buildConsumerConfig js src f) =
     (if cc_AckPolicy (src_ConsumerConfig src) = 0 then AckExplicitPolicy js
      else cc_AckPolicy (src_ConsumerConfig src))"
  "js_AckWait (buildConsumerConfig js src f) = max 0 (cc_AckWait (src_ConsumerConfig src))"
  "js_MaxDeliver (buildConsumerConfig js src f) = cc_MaxDeliver (src_ConsumerConfig src)"
  "js_DeliverPolicy (buildConsumerConfig js src f) = cc_DeliverPolicy (src_ConsumerConfig src)"
  "js_ReplayPolicy (buildConsumerConfig js src f) = cc_ReplayPolicy (src_ConsumerConfig src)"
  "js_OptStartSeq (buildConsumerConfig js src f) = cc_OptStartSeq (src_ConsumerConfig src)"
  "js_OptStartTime (buildConsumerConfig js src f) = cc_OptStartTime (src_ConsumerConfig src)"
  "js_MaxAckPending (buildConsumerConfig js src f) = cc_MaxAckPending (src_ConsumerConfig src)"
  "js_Description (buildConsumerConfig js src f) = cc_Description (src_ConsumerConfig src)"
  by (simp_all add: buildConsumerConfig_def Let_def max_def split: option.split)

section \<open>Rendering\<close>

definition dquote :: string where
  "dquote = [CHR 0x22]"

definition formatDiff :: "string \<Rightarrow> string \<Rightarrow> string \<Rightarrow> string" where
  "formatDiff field existing declared =
     field @ '': existing='' @ dquote @ existing @ dquote @ '', declared='' @ dquote @ declared @ dquote"

text \<open>
  \<open>itoa\<close> on a 64-bit \<open>int\<close>: negation wraps around, and the digit loop runs while the
  value is positive. The digits go into a 20-byte buffer from its end.
\<close>

fun itoa_loop :: "int \<Rightarrow> string \<Rightarrow> string" where
  "itoa_loop i buf =
     (if i > 0 then itoa_loop (i div 10) (digit (nat (i mod 10)) # buf) else buf)"

declare itoa_loop.simps [simp del]

definition itoa :: "int \<Rightarrow> string" where
  "itoa i =
     (if i = 0 then ''0''
      else
        let neg = i < 0;
            i' = (if neg then wrap64 (- i) else i);
            buf = itoa_loop i' []
        in if neg then CHR ''-'' # buf else buf)"

definition formatDiffInt :: "string \<Rightarrow> int \<Rightarrow> int \<Rightarrow> string" where
  "formatDiffInt field existing declared =
     field @ '': existing='' @ itoa existing @ '', declared='' @ itoa declared"

lemma itoa_loop_dec: "0 \<le> i \<Longrightarrow> itoa_loop i buf = dec_digits (nat i) buf"
proof (induction i buf rule: itoa_loop.induct)
  case (1 i buf)
  show ?case
  proof (cases "i = 0")
    case True
    then show ?thesis by (simp add: itoa_loop.simps dec_digits.simps)
  next
    case False
    with "1.prems" have "i > 0" by simp
    have "itoa_loop i buf = dec_digits (nat (i div 10)) (digit (nat (i mod 10)) # buf)"
      using "1.IH" \<open>i > 0\<close> by (subst itoa_loop.simps) simp
    also have "\<dots> = dec_digits (nat i) buf"
      using \<open>i > 0\<close> by (subst (2) dec_digits.simps) (simp add: nat_div_distrib nat_mod_distrib)
    finally show ?thesis .
  qed
qed

text \<open>The decimal numeral of an integer, and reading one back.\<close>

definition decimal :: "int \<Rightarrow> string" where
  "decimal i = (if i < 0 then CHR ''-'' # dec (nat (- i)) else dec (nat i))"

definition parse_decimal :: "string \<Rightarrow> int" where
  "parse_decimal s =
     (case s of [] \<Rightarrow> 0
      | c # cs \<Rightarrow> if c = CHR ''-'' then - int (dec_parse 0 cs) else int (dec_parse 0 s))"

lemma itoa_decimal:
  assumes "in_int64 i" and "i \<noteq> int64_min"
  shows "itoa i = decimal i"
  using assms
  by (auto simp: itoa_def decimal_def dec_def itoa_loop_dec wrap64_neg Let_def)

lemma dec_digits_all: "\<forall>c \<in> set acc. c \<noteq> CHR ''-'' \<Longrightarrow> \<forall>c \<in> set (dec_digits n acc). c \<noteq> CHR ''-''"
proof (induction n acc rule: dec_digits.induct)
  case (1 n acc)
  have "digit (n mod 10) \<noteq> CHR ''-''"
  proof
    assume "digit (n mod 10) = CHR ''-''"
    then have "(of_char (digit (n mod 10)) :: nat) = 45" by simp
    then show False by (simp add: digit_def)
  qed
  with 1 show ?case by (subst dec_digits.simps) auto
qed

lemma dec_first: "dec n = c # cs \<Longrightarrow> c \<noteq> CHR ''-''"
  using dec_digits_all [of "[]" n] by (auto simp: dec_def split: if_splits)

lemma dec_nonempty [simp]: "dec n \<noteq> []"
proof
  assume "dec n = []"
  moreover have "dec_parse 0 (dec n) = n" by simp
  ultimately show False by (simp add: dec_def split: if_splits)
qed

lemma parse_decimal [simp]: "parse_decimal (decimal i) = i"
proof (cases "i < 0")
  case True
  then show ?thesis by (simp add: parse_decimal_def decimal_def)
next
  case False
  obtain c cs where d: "dec (nat i) = c # cs"
    by (cases "dec (nat i)") auto
  have "dec_parse 0 (c # cs) = nat i"
    using dec_parse_dec [of "nat i"] by (simp only: d)
  with False dec_first [OF d] show ?thesis
    by (simp add: parse_decimal_def decimal_def d)
qed

text \<open>The 20-byte buffer is large enough.\<close>

lemma itoa_length:
  assumes "in_int64 i"
  shows "length (itoa i) \<le> 20"
proof -
  have bound: "length (itoa_loop j []) \<le> 19" if "j \<le> int64_max" for j
  proof (cases "0 \<le> j")
    case True
    have "nat j < 10 ^ 19" using that by (simp add: int64_max_def nat_less_iff)
    from dec_digits_length [OF this, of "[]"] True show ?thesis by (simp add: itoa_loop_dec)
  next
    case False
    then show ?thesis by (subst itoa_loop.simps) simp
  qed
  have "(if i < 0 then wrap64 (- i) else i) \<le> int64_max"
    using assms wrap64_in_range [of "- i"] by (simp add: in_int64_def)
  from bound [OF this] show ?thesis by (auto simp: itoa_def Let_def)
qed

section \<open>The compatibility check\<close>

definition diff_list :: "jetstream_consts \<Rightarrow> JsConsumerConfig \<Rightarrow> JsConsumerConfig \<Rightarrow> string list" where
  "diff_list js got desired =
     (if js_FilterSubject got \<noteq> js_FilterSubject desired
      then [formatDiff ''filter_subject'' (js_FilterSubject got) (js_FilterSubject desired)] else []) @
     (if js_AckPolicy got \<noteq> AckExplicitPolicy js
      then [formatDiff ''ack_policy'' (AckPolicy_String js (js_AckPolicy got)) ''explicit''] else []) @
     (if js_DeliverPolicy desired \<noteq> 0 \<and> js_DeliverPolicy got \<noteq> js_DeliverPolicy desired
      then [formatDiff ''deliver_policy'' (DeliverPolicy_String js (js_DeliverPolicy got))
              (DeliverPolicy_String js (js_DeliverPolicy desired))] else []) @
     (if js_ReplayPolicy desired \<noteq> 0 \<and> js_ReplayPolicy got \<noteq> js_ReplayPolicy desired
      then [formatDiff ''replay_policy'' (ReplayPolicy_String js (js_ReplayPolicy got))
              (ReplayPolicy_String js (js_ReplayPolicy desired))] else []) @
     (if js_AckWait desired > 0 \<and> js_AckWait got < js_AckWait desired
      then [formatDiff ''ack_wait'' (duration_String (js_AckWait got)) (duration_String (js_AckWait desired))]
      else []) @
     (if js_MaxDeliver desired \<noteq> 0 \<and> js_MaxDeliver got \<noteq> js_MaxDeliver desired
      then [formatDiffInt ''max_deliver'' (js_MaxDeliver got) (js_MaxDeliver desired)] else [])"

definition compatDiff :: "jetstream_consts \<Rightarrow> ConsumerInfo option \<Rightarrow> JsConsumerConfig \<Rightarrow> string" where
  "compatDiff js existing desired =
     (case existing of
        None \<Rightarrow> ''existing consumer info unavailable''
      | Some info \<Rightarrow> strings_join ''; '' (diff_list js (info_Config info) desired))"

text \<open>The rule of the contract, as a predicate.\<close>

definition compatible :: "jetstream_consts \<Rightarrow> JsConsumerConfig \<Rightarrow> JsConsumerConfig \<Rightarrow> bool" where
  "compatible js got desired \<longleftrightarrow>
     js_FilterSubject got = js_FilterSubject desired \<and>
     js_AckPolicy got = AckExplicitPolicy js \<and>
     (js_DeliverPolicy desired \<noteq> 0 \<longrightarrow> js_DeliverPolicy got = js_DeliverPolicy desired) \<and>
     (js_ReplayPolicy desired \<noteq> 0 \<longrightarrow> js_ReplayPolicy got = js_ReplayPolicy desired) \<and>
     (js_AckWait desired > 0 \<longrightarrow> js_AckWait desired \<le> js_AckWait got) \<and>
     (js_MaxDeliver desired \<noteq> 0 \<longrightarrow> js_MaxDeliver got = js_MaxDeliver desired)"

lemma diff_list_nonempty: "d \<in> set (diff_list js got desired) \<Longrightarrow> d \<noteq> []"
  by (auto simp: diff_list_def formatDiff_def formatDiffInt_def split: if_splits)

lemma diff_list_compatible: "diff_list js got desired = [] \<longleftrightarrow> compatible js got desired"
  by (auto simp: diff_list_def compatible_def not_less)

lemma compatDiff_compatible:
  "compatDiff js existing desired = [] \<longleftrightarrow>
   (\<exists>info. existing = Some info \<and> compatible js (info_Config info) desired)"
  using diff_list_compatible [of js] strings_join_Nil_iff diff_list_nonempty
  by (cases existing) (fastforce simp: compatDiff_def)+

text \<open>
  A server that keeps the fields it was given and chooses values only for the ones left
  zero.
\<close>

definition keeps_declared :: "JsConsumerConfig \<Rightarrow> JsConsumerConfig \<Rightarrow> bool" where
  "keeps_declared stored given \<longleftrightarrow>
     js_FilterSubject stored = js_FilterSubject given \<and>
     js_AckPolicy stored = js_AckPolicy given \<and>
     js_DeliverPolicy stored = js_DeliverPolicy given \<and>
     js_ReplayPolicy stored = js_ReplayPolicy given \<and>
     (js_AckWait given > 0 \<longrightarrow> js_AckWait stored = js_AckWait given) \<and>
     (js_MaxDeliver given \<noteq> 0 \<longrightarrow> js_MaxDeliver stored = js_MaxDeliver given)"

text \<open>The configuration a durable consumer is created with, and later compared against.\<close>

definition durable_config :: "jetstream_consts \<Rightarrow> StreamSource \<Rightarrow> JsConsumerConfig" where
  "durable_config js src =
     (buildConsumerConfig js src (src_FilterSubject src))
       \<lparr>js_Durable := src_Durable src, js_Name := src_Durable src\<rparr>"

lemma durable_restart_compatible:
  assumes "keeps_declared stored (durable_config js src)"
  shows "compatible js stored (durable_config js src) \<longleftrightarrow>
    cc_AckPolicy (src_ConsumerConfig src) \<in> {0, AckExplicitPolicy js}"
  using assms
  by (auto simp: compatible_def keeps_declared_def durable_config_def config_simps)

section \<open>Properties\<close>

text \<open>
  The compatibility check reports no difference exactly when the existing consumer's info
  is available and satisfies the documented rule: same filter, explicit acknowledgement,
  declared policies and maximum deliveries equal, and an ack wait at least the declared one.
\<close>

theorem compatDiff_exact:
  "compatDiff js existing desired = [] \<longleftrightarrow>
   (\<exists>info. existing = Some info \<and> compatible js (info_Config info) desired)"
  by (rule compatDiff_compatible)

text \<open>
  \<open>itoa\<close> renders every 64-bit integer but the least as its decimal numeral, which reads
  back as the integer, and never needs more than the twenty bytes of its buffer.
\<close>

theorem itoa_round_trip:
  assumes "in_int64 i" and "i \<noteq> int64_min"
  shows "itoa i = decimal i \<and> parse_decimal (itoa i) = i \<and> length (itoa i) \<le> 20"
  using itoa_decimal [OF assms] itoa_length [OF assms(1)] by simp

lemma itoa_round_trip_witness: "itoa (- 120) = decimal (- 120) \<and> parse_decimal (itoa (- 120)) = - 120"
  using itoa_round_trip [of "- 120"] by (simp add: in_int64_def int64_min_def int64_max_def)

text \<open>
  On the least 64-bit integer \<open>itoa\<close> loses every digit: negation wraps around to the
  same negative number and the digit loop never runs.
\<close>

theorem itoa_least: "itoa int64_min = ''-''"
  by (simp add: itoa_def int64_min_def wrap64_def itoa_loop.simps)

text \<open>
  C39. A durable consumer created by one run is accepted by the next, on a server that keeps
  the fields it was given, exactly when the declared acknowledgement policy is left unset or
  is the explicit one. With any other policy the consumer is created without complaint and
  then refused at the next start.
\<close>

theorem durable_restart:
  assumes "keeps_declared (info_Config info) (durable_config js src)"
  shows "compatDiff js (Some info) (durable_config js src) = [] \<longleftrightarrow>
    cc_AckPolicy (src_ConsumerConfig src) \<in> {0, AckExplicitPolicy js}"
  using durable_restart_compatible [OF assms] compatDiff_compatible [of js "Some info"] by simp

definition ack_none_source :: StreamSource where
  "ack_none_source = demo_source\<lparr>src_ConsumerConfig := zero_ConsumerConfig\<lparr>cc_AckPolicy := 2\<rparr>\<rparr>"

lemma durable_restart_witness:
  "compatDiff loop_js (Some \<lparr>info_Name = ''imp'', info_Config = durable_config loop_js ack_none_source\<rparr>)
     (durable_config loop_js ack_none_source) \<noteq> []"
  using durable_restart [of "\<lparr>info_Name = ''imp'', info_Config = durable_config loop_js ack_none_source\<rparr>"
      loop_js ack_none_source]
  by (simp add: keeps_declared_def ack_none_source_def loop_js_def)

text \<open>
  A declared deliver-all policy is never checked: whatever deliver policy the existing
  consumer has, a declaration of the default policy finds no difference in it.
\<close>

theorem deliver_all_unchecked:
  "let src = demo_source\<lparr>src_ConsumerConfig := zero_ConsumerConfig\<lparr>cc_DeliverPolicy := DeliverAllPolicy loop_js\<rparr>\<rparr>;
       stored = (durable_config loop_js src)\<lparr>js_DeliverPolicy := p\<rparr>
   in compatDiff loop_js (Some \<lparr>info_Name = ''imp'', info_Config = stored\<rparr>) (durable_config loop_js src) = []"
  by (simp add: compatDiff_compatible compatible_def durable_config_def config_simps loop_js_def
      demo_source_def zero_ConsumerConfig_def Let_def)

end
