(* ===== verification/Dispatch.thy ===== *)
theory Dispatch
  imports Imp_Spec
begin

text \<open>
  The per-message pipelines: \<open>dispatch\<close> for subject channels (\<open>dispatch.go\<close>) and
  \<open>dispatchStream\<close> for JetStream channels (\<open>stream.go\<close>, lines 256 to 328), the note hook
  (\<open>note.go\<close>) and the thinking goroutines (\<open>thinking.go\<close>).

  A message is dispatched in one step of the model, as the client delivers the messages of
  a subscription one at a time; the thinking goroutines it launches run step by step in
  between. \<open>Pipeline\<close> refines the step into those of the message's goroutine. A panic in user code that the harness does not guard (a decoder or an extractor)
  leaves \<open>dispatch\<close> itself as \<open>Panicked\<close>.
\<close>

section \<open>Runtime state\<close>

record ('a, 'n) task =
  task_entity :: entity
  task_prog :: "('a, 'n) th_prog"

record ('a, 'n) rt = "('a, 'n) core" +
  thinkingWG :: int
  tasks :: "('a, 'n) task list"

datatype dispatchOutcome = dispatchOK | dispatchDecodeFail | dispatchExtractFail | dispatchAwarenessPanic

text \<open>The configuration a running imp dispatches with: its spec and its two contexts.\<close>

record ('a, 'n) env =
  spec :: "('a, 'n) ImpSpec"
  awareness :: "'n awarenessCtx"
  thinking :: "'n thinkingCtx"

section \<open>Guarded user code\<close>

text \<open>
  Calling a function field: a nil function panics, as a user function may.
\<close>

definition call_fn :: "('x \<Rightarrow> 'y outcome) option \<Rightarrow> 'x \<Rightarrow> 'y outcome" where
  "call_fn f x = (case f of None \<Rightarrow> Panicked | Some g \<Rightarrow> g x)"

definition safeAwareness ::
  "('a, 'n) env \<Rightarrow> 'a any \<Rightarrow> entity \<Rightarrow> ('a, 'n, 'z) rt_scheme \<Rightarrow> 'a Verdict outcome \<times> ('a, 'n, 'z) rt_scheme" where
  "safeAwareness env decoded entity s =
     (let s1 = emit (EAwareness entity) s;
          prog = (case Awareness (spec env) of None \<Rightarrow> AwPanic | Some f \<Rightarrow> f decoded entity)
      in case aw_run (awareness env) prog s1 of
           (Panicked, s2) \<Rightarrow> (Panicked, log Error ''awareness panic'' s2)
         | (Returned v, s2) \<Rightarrow> (Returned v, s2))"

definition invokeNote :: "('a, 'n) env \<Rightarrow> entity \<Rightarrow> 'a any \<Rightarrow> ('a, 'n, 'z) rt_scheme \<Rightarrow> ('a, 'n, 'z) rt_scheme" where
  "invokeNote env entity pl s =
     (case OnNote (spec env) of
        None \<Rightarrow> s
      | Some hook \<Rightarrow>
          (let (r, n) = hook entity pl (net s);
               s1 = emit (ENote entity pl) (s\<lparr>net := n\<rparr>)
           in case r of
                Returned _ \<Rightarrow> s1
              | Panicked \<Rightarrow> log Error ''note hook panic'' (bump AwarenessPanics_update s1)))"

definition launchThinking :: "('a, 'n) env \<Rightarrow> 'a any \<Rightarrow> entity \<Rightarrow> ('a, 'n, 'z) rt_scheme \<Rightarrow> ('a, 'n, 'z) rt_scheme" where
  "launchThinking env why entity s =
     (let s1 = bump InflightThinking_update s;
          s2 = s1\<lparr>thinkingWG := thinkingWG s1 + 1\<rparr>;
          prog = (case Thinking (spec env) of None \<Rightarrow> ThPanic | Some f \<Rightarrow> f why entity)
      in emit (ELaunch why entity)
           (s2\<lparr>tasks := tasks s2 @ [\<lparr>task_entity = entity, task_prog = prog\<rparr>]\<rparr>))"

text \<open>
  The deferred calls of a thinking goroutine that has ended, by return or by panic: record
  the panic or the error, decrement the gauge, and release the wait group.
\<close>

definition finishThinking :: "nat \<Rightarrow> gerr option outcome \<Rightarrow> ('a, 'n, 'z) rt_scheme \<Rightarrow> ('a, 'n, 'z) rt_scheme" where
  "finishThinking i r s =
     (let s1 = (case r of
                  Panicked \<Rightarrow> log Error ''thinking panic'' (bump ThinkingPanics_update s)
                | Returned (Some err) \<Rightarrow> log Warn ''thinking error'' (bump ThinkingErrors_update s)
                | Returned None \<Rightarrow> s);
          s2 = s1\<lparr>mtr := (mtr s1)\<lparr>InflightThinking := InflightThinking (mtr s1) - 1\<rparr>\<rparr>
      in s2\<lparr>thinkingWG := thinkingWG s2 - 1, tasks := take i (tasks s2) @ drop (Suc i) (tasks s2)\<rparr>)"

text \<open>One step of the goroutine at position \<open>i\<close>.\<close>

definition thinking_step :: "('a, 'n) env \<Rightarrow> nat \<Rightarrow> ('a, 'n, 'z) rt_scheme \<Rightarrow> ('a, 'n, 'z) rt_scheme" where
  "thinking_step env i s =
     (if i < length (tasks s) then
        (case task_prog (tasks s ! i) of
           ThReturn err \<Rightarrow> finishThinking i (Returned err) s
         | ThPanic \<Rightarrow> finishThinking i Panicked s
         | p \<Rightarrow> (case th_step (thinking env) p s of
                   None \<Rightarrow> s
                 | Some (p', s') \<Rightarrow> s'\<lparr>tasks := (tasks s')[i := (tasks s' ! i)\<lparr>task_prog := p'\<rparr>]\<rparr>))
      else s)"

section \<open>Branching on the verdict\<close>

definition verdict_switch :: "('a, 'n) env \<Rightarrow> entity \<Rightarrow> 'a Verdict \<Rightarrow> ('a, 'n, 'z) rt_scheme \<Rightarrow> ('a, 'n, 'z) rt_scheme" where
  "verdict_switch env entity v s =
     (if kind v = verdictIgnore then bump IgnoredVerdicts_update s
      else if kind v = verdictNote
        then invokeNote env entity (payload v) (bump NotesDelivered_update s)
      else if kind v = verdictThink
        then launchThinking env (reason v) (verdict_entity v) (bump ThinksDispatched_update s)
      else s)"

section \<open>Subject channels\<close>

definition dispatch ::
  "('a, 'n) env \<Rightarrow> 'a ChannelSpec \<Rightarrow> Message \<Rightarrow> ('a, 'n, 'z) rt_scheme \<Rightarrow>
   dispatchOutcome outcome \<times> ('a, 'n, 'z) rt_scheme" where
  "dispatch env ch msg s =
     (case call_fn (ch_Decode ch) msg of
        Panicked \<Rightarrow> (Panicked, s)
      | Returned (Inl err) \<Rightarrow>
          (Returned dispatchDecodeFail, log Warn ''decode failure'' (bump DecodeFailures_update s))
      | Returned (Inr decoded) \<Rightarrow>
          (case call_fn (ch_ExtractEntity ch) decoded of
             Panicked \<Rightarrow> (Panicked, s)
           | Returned r \<Rightarrow>
               (case (case r of Inl err \<Rightarrow> None | Inr entity \<Rightarrow> if entity = [] then None else Some entity) of
                  None \<Rightarrow>
                    (Returned dispatchExtractFail,
                     log Warn ''extraction failure'' (bump ExtractionFailures_update s))
                | Some entity \<Rightarrow>
                    (case safeAwareness env decoded entity s of
                       (Panicked, s1) \<Rightarrow> (Returned dispatchAwarenessPanic, bump AwarenessPanics_update s1)
                     | (Returned v, s1) \<Rightarrow> (Returned dispatchOK, verdict_switch env entity v s1)))))"

section \<open>Stream channels\<close>

record JsMsg =
  jm_message :: Message
  jm_handle :: nat

definition msg_Nak :: "('a, 'n) env \<Rightarrow> JsMsg \<Rightarrow> ('a, 'n, 'z) rt_scheme \<Rightarrow> gerr option \<times> ('a, 'n, 'z) rt_scheme" where
  "msg_Nak env m s =
     (let (err, n) = MsgNak (aw_conn (awareness env)) (jm_handle m) (net s)
      in (err, emit (ENak (jm_handle m)) (s\<lparr>net := n\<rparr>)))"

definition msg_Ack :: "('a, 'n) env \<Rightarrow> JsMsg \<Rightarrow> ('a, 'n, 'z) rt_scheme \<Rightarrow> gerr option \<times> ('a, 'n, 'z) rt_scheme" where
  "msg_Ack env m s =
     (let (err, n) = MsgAck (aw_conn (awareness env)) (jm_handle m) (net s)
      in (err, emit (EAck (jm_handle m)) (s\<lparr>net := n\<rparr>)))"

definition nakAndLog :: "('a, 'n) env \<Rightarrow> JsMsg \<Rightarrow> string \<Rightarrow> ('a, 'n, 'z) rt_scheme \<Rightarrow> ('a, 'n, 'z) rt_scheme" where
  "nakAndLog env m event s =
     (let (err, s1) = msg_Nak env m s;
          s2 = (case err of None \<Rightarrow> s1 | Some _ \<Rightarrow> log Warn ''nak failed'' s1)
      in log Warn event s2)"

definition dispatchStream ::
  "('a, 'n) env \<Rightarrow> 'a ChannelSpec \<Rightarrow> JsMsg \<Rightarrow> ('a, 'n, 'z) rt_scheme \<Rightarrow> unit outcome \<times> ('a, 'n, 'z) rt_scheme" where
  "dispatchStream env ch m s =
     (case call_fn (ch_Decode ch) (jm_message m) of
        Panicked \<Rightarrow> (Panicked, s)
      | Returned (Inl err) \<Rightarrow>
          (Returned (), nakAndLog env m ''decode failure''
             (bump NakTotal_update (bump DecodeFailures_update s)))
      | Returned (Inr decoded) \<Rightarrow>
          (case call_fn (ch_ExtractEntity ch) decoded of
             Panicked \<Rightarrow> (Panicked, s)
           | Returned r \<Rightarrow>
               (case (case r of Inl err \<Rightarrow> None | Inr entity \<Rightarrow> if entity = [] then None else Some entity) of
                  None \<Rightarrow>
                    (Returned (), nakAndLog env m ''extraction failure''
                       (bump NakTotal_update (bump ExtractionFailures_update s)))
                | Some entity \<Rightarrow>
                    (case safeAwareness env decoded entity s of
                       (Panicked, s1) \<Rightarrow>
                         (Returned (),
                          snd (msg_Nak env m (bump NakTotal_update (bump AwarenessPanics_update s1))))
                     | (Returned v, s1) \<Rightarrow>
                         (let (aerr, s2) = msg_Ack env m s1;
                              s3 = (case aerr of None \<Rightarrow> s2 | Some _ \<Rightarrow> log Warn ''ack failed'' s2)
                          in (Returned (), verdict_switch env entity v s3))))))"


section \<open>The front of the pipeline\<close>

text \<open>Decoding and entity extraction, which both kinds of channel share.\<close>

definition front :: "'a ChannelSpec \<Rightarrow> Message \<Rightarrow> (dispatchOutcome + 'a any \<times> entity) outcome" where
  "front ch msg =
     (case call_fn (ch_Decode ch) msg of
        Panicked \<Rightarrow> Panicked
      | Returned (Inl err) \<Rightarrow> Returned (Inl dispatchDecodeFail)
      | Returned (Inr decoded) \<Rightarrow>
          (case call_fn (ch_ExtractEntity ch) decoded of
             Panicked \<Rightarrow> Panicked
           | Returned (Inl err) \<Rightarrow> Returned (Inl dispatchExtractFail)
           | Returned (Inr entity) \<Rightarrow>
               if entity = [] then Returned (Inl dispatchExtractFail)
               else Returned (Inr (decoded, entity))))"

lemma front_entity: "front ch msg = Returned (Inr (d, e)) \<Longrightarrow> e \<noteq> []"
  by (auto simp: front_def split: outcome.splits sum.splits if_splits)

lemma front_failure:
  "front ch msg = Returned (Inl f) \<Longrightarrow> f = dispatchDecodeFail \<or> f = dispatchExtractFail"
  by (auto simp: front_def split: outcome.splits sum.splits if_splits)

lemma dispatch_front:
  "dispatch env ch msg s =
    (case front ch msg of
       Panicked \<Rightarrow> (Panicked, s)
     | Returned (Inl f) \<Rightarrow>
         (Returned f,
          if f = dispatchDecodeFail
          then log Warn ''decode failure'' (bump DecodeFailures_update s)
          else log Warn ''extraction failure'' (bump ExtractionFailures_update s))
     | Returned (Inr (decoded, entity)) \<Rightarrow>
         (case safeAwareness env decoded entity s of
            (Panicked, s1) \<Rightarrow> (Returned dispatchAwarenessPanic, bump AwarenessPanics_update s1)
          | (Returned v, s1) \<Rightarrow> (Returned dispatchOK, verdict_switch env entity v s1)))"
  by (simp add: dispatch_def front_def split: outcome.split sum.split)

lemma dispatchStream_front:
  "dispatchStream env ch m s =
    (case front ch (jm_message m) of
       Panicked \<Rightarrow> (Panicked, s)
     | Returned (Inl f) \<Rightarrow>
         (Returned (),
          if f = dispatchDecodeFail
          then nakAndLog env m ''decode failure'' (bump NakTotal_update (bump DecodeFailures_update s))
          else nakAndLog env m ''extraction failure''
                 (bump NakTotal_update (bump ExtractionFailures_update s)))
     | Returned (Inr (decoded, entity)) \<Rightarrow>
         (case safeAwareness env decoded entity s of
            (Panicked, s1) \<Rightarrow>
              (Returned (),
               snd (msg_Nak env m (bump NakTotal_update (bump AwarenessPanics_update s1))))
          | (Returned v, s1) \<Rightarrow>
              (let (aerr, s2) = msg_Ack env m s1;
                   s3 = (case aerr of None \<Rightarrow> s2 | Some _ \<Rightarrow> log Warn ''ack failed'' s2)
               in (Returned (), verdict_switch env entity v s3))))"
  by (simp add: dispatchStream_def front_def split: outcome.split sum.split)

section \<open>Frames of the parts\<close>

lemma rt_emit_simps [simp]:
  "tasks (emit e s) = tasks s" "thinkingWG (emit e s) = thinkingWG s"
  "registry (emit e s) = registry s" "thinkingCancelled (emit e s) = thinkingCancelled s"
  "rt.more (emit e s) = rt.more s"
  by (simp_all add: emit_def)

lemma rt_log_simps [simp]:
  "tasks (log l m s) = tasks s" "thinkingWG (log l m s) = thinkingWG s"
  "registry (log l m s) = registry s" "thinkingCancelled (log l m s) = thinkingCancelled s"
  "rt.more (log l m s) = rt.more s"
  by (simp_all add: log_def)

lemma rt_bump_simps [simp]:
  "tasks (bump u s) = tasks s" "thinkingWG (bump u s) = thinkingWG s"
  "registry (bump u s) = registry s" "thinkingCancelled (bump u s) = thinkingCancelled s"
  "rt.more (bump u s) = rt.more s"
  by (simp_all add: bump_def)

lemma rt_core_more:
  assumes "core.more s' = core.more (s :: ('a, 'n, 'z) rt_scheme)"
  shows "tasks s' = tasks s" and "thinkingWG s' = thinkingWG s" and "rt.more s' = rt.more s"
  using assms by (cases s; cases s'; simp)+

lemma msg_Nak_simps [simp]:
  "calls (effects (snd (msg_Nak env m s))) = calls (effects s) @ [ENak (jm_handle m)]"
  "mtr (snd (msg_Nak env m s)) = mtr s" "tasks (snd (msg_Nak env m s)) = tasks s"
  "thinkingWG (snd (msg_Nak env m s)) = thinkingWG s" "registry (snd (msg_Nak env m s)) = registry s"
  "rt.more (snd (msg_Nak env m s)) = rt.more s"
  by (simp_all add: msg_Nak_def calls_Cons split: prod.split)

lemma msg_Ack_simps [simp]:
  "calls (effects (snd (msg_Ack env m s))) = calls (effects s) @ [EAck (jm_handle m)]"
  "mtr (snd (msg_Ack env m s)) = mtr s" "tasks (snd (msg_Ack env m s)) = tasks s"
  "thinkingWG (snd (msg_Ack env m s)) = thinkingWG s" "registry (snd (msg_Ack env m s)) = registry s"
  "rt.more (snd (msg_Ack env m s)) = rt.more s"
  by (simp_all add: msg_Ack_def calls_Cons split: prod.split)

lemma nakAndLog_simps [simp]:
  "calls (effects (nakAndLog env m ev s)) = calls (effects s) @ [ENak (jm_handle m)]"
  "mtr (nakAndLog env m ev s) = mtr s" "tasks (nakAndLog env m ev s) = tasks s"
  "thinkingWG (nakAndLog env m ev s) = thinkingWG s" "registry (nakAndLog env m ev s) = registry s"
  "rt.more (nakAndLog env m ev s) = rt.more s"
  using msg_Nak_simps [of env m s]
  by (cases "msg_Nak env m s"; auto simp: nakAndLog_def split: option.split)+

text \<open>
  Awareness: one \<open>EAwareness\<close>, then only requests; only request counters move.
\<close>

lemma safeAwareness_frame:
  assumes "safeAwareness env d e s = (r, s')"
  shows "\<exists>reqs. calls (effects s') = calls (effects s) @ EAwareness e # reqs \<and> list_all is_request reqs"
    and "same_but_requests (mtr s) (mtr s')"
    and "registry_ok (registry s) \<Longrightarrow> registry_ok (registry s')"
    and "tasks s' = tasks s" and "thinkingWG s' = thinkingWG s" and "rt.more s' = rt.more s"
proof -
  define s1 where "s1 = emit (EAwareness e) s"
  define prog where "prog = (case Awareness (spec env) of None \<Rightarrow> AwPanic | Some f \<Rightarrow> f d e)"
  obtain r2 s2 where run: "aw_run (awareness env) prog s1 = (r2, s2)" by (metis surj_pair)
  have fr: "aw_frame s1 s2"
    using aw_run_frame [of s1 "awareness env" prog] by (simp add: run)
  have s': "s' = s2 \<or> s' = log Error ''awareness panic'' s2"
    using assms run by (auto simp: safeAwareness_def Let_def s1_def prog_def split: outcome.splits)
  have "tasks s2 = tasks s1" "thinkingWG s2 = thinkingWG s1" "rt.more s2 = rt.more s1"
    using fr rt_core_more [of s2 s1] by (simp_all add: aw_frame_def)
  with fr s' show "\<exists>reqs. calls (effects s') = calls (effects s) @ EAwareness e # reqs \<and> list_all is_request reqs"
    and "same_but_requests (mtr s) (mtr s')"
    and "registry_ok (registry s) \<Longrightarrow> registry_ok (registry s')"
    and "tasks s' = tasks s" and "thinkingWG s' = thinkingWG s" and "rt.more s' = rt.more s"
    by (auto simp: aw_frame_def s1_def calls_Cons)
qed

text \<open>The verdict: the calls each kind makes.\<close>

definition verdict_calls :: "('a, 'n) env \<Rightarrow> entity \<Rightarrow> 'a Verdict \<Rightarrow> 'a effect list" where
  "verdict_calls env entity v =
     (if kind v = verdictNote then (if OnNote (spec env) = None then [] else [ENote entity (payload v)])
      else if kind v = verdictThink then [ELaunch (reason v) (verdict_entity v)]
      else [])"

lemma invokeNote_simps [simp]:
  "calls (effects (invokeNote env e p s)) =
     calls (effects s) @ (if OnNote (spec env) = None then [] else [ENote e p])"
  "tasks (invokeNote env e p s) = tasks s" "thinkingWG (invokeNote env e p s) = thinkingWG s"
  "registry (invokeNote env e p s) = registry s"
  "rt.more (invokeNote env e p s) = rt.more s"
  "InflightThinking (mtr (invokeNote env e p s)) = InflightThinking (mtr s)"
  "NakTotal (mtr (invokeNote env e p s)) = NakTotal (mtr s)"
  "ThinksDispatched (mtr (invokeNote env e p s)) = ThinksDispatched (mtr s)"
  by (auto simp: invokeNote_def Let_def calls_Cons split: option.split outcome.split prod.split)

lemma launchThinking_simps [simp]:
  "calls (effects (launchThinking env r e s)) = calls (effects s) @ [ELaunch r e]"
  "thinkingWG (launchThinking env r e s) = thinkingWG s + 1"
  "registry (launchThinking env r e s) = registry s"
  "rt.more (launchThinking env r e s) = rt.more s"
  "mtr (launchThinking env r e s) = (mtr s)\<lparr>InflightThinking := InflightThinking (mtr s) + 1\<rparr>"
  "length (tasks (launchThinking env r e s)) = Suc (length (tasks s))"
  by (simp_all add: launchThinking_def Let_def calls_Cons)

lemma verdict_switch_calls [simp]:
  "calls (effects (verdict_switch env e v s)) = calls (effects s) @ verdict_calls env e v"
  by (simp add: verdict_switch_def verdict_calls_def)

text \<open>Only decoding and extraction can take the process down.\<close>

lemma dispatch_panics: "fst (dispatch env ch msg s) = Panicked \<longleftrightarrow> front ch msg = Panicked"
  by (auto simp: dispatch_front split: outcome.splits sum.splits prod.splits)

lemma dispatchStream_panics: "fst (dispatchStream env ch m s) = Panicked \<longleftrightarrow> front ch (jm_message m) = Panicked"
  by (auto simp: dispatchStream_front Let_def split: outcome.splits sum.splits prod.splits)

lemma verdict_switch_counters:
  "IgnoredVerdicts (mtr (verdict_switch env e v s)) = IgnoredVerdicts (mtr s) + (if kind v = verdictIgnore then 1 else 0)"
  "NotesDelivered (mtr (verdict_switch env e v s)) = NotesDelivered (mtr s) + (if kind v = verdictNote then 1 else 0)"
  "ThinksDispatched (mtr (verdict_switch env e v s)) = ThinksDispatched (mtr s) + (if kind v = verdictThink then 1 else 0)"
  "map task_entity (tasks (verdict_switch env e v s)) =
     map task_entity (tasks s) @ (if kind v = verdictThink then [verdict_entity v] else [])"
  by (auto simp: verdict_switch_def invokeNote_def launchThinking_def bump_def Let_def
      split: option.split prod.split outcome.split)

section \<open>The trace of a message\<close>

lemma dispatchStream_calls:
  assumes "dispatchStream env ch m s = (Returned (), s')"
  shows "\<exists>cs. calls (effects s') = calls (effects s) @ cs \<and>
    (case front ch (jm_message m) of
       Returned (Inr (d, e)) \<Rightarrow>
         (\<exists>reqs. list_all is_request reqs \<and>
           (case fst (safeAwareness env d e s) of
              Panicked \<Rightarrow> cs = EAwareness e # reqs @ [ENak (jm_handle m)]
            | Returned v \<Rightarrow> cs = EAwareness e # reqs @ EAck (jm_handle m) # verdict_calls env e v))
     | _ \<Rightarrow> cs = [ENak (jm_handle m)])"
proof (cases "front ch (jm_message m)")
  case Panicked
  with assms show ?thesis by (simp add: dispatchStream_front)
next
  case (Returned x)
  show ?thesis
  proof (cases x)
    case (Inl f)
    with assms Returned show ?thesis by (auto simp: dispatchStream_front split: if_splits)
  next
    case (Inr p)
    obtain d e where p: "p = (d, e)" by (cases p)
    obtain r s1 where aw: "safeAwareness env d e s = (r, s1)" by (metis surj_pair)
    from safeAwareness_frame(1) [OF aw] obtain reqs where
      reqs: "calls (effects s1) = calls (effects s) @ EAwareness e # reqs" "list_all is_request reqs"
      by blast
    show ?thesis
    proof (cases r)
      case Panicked
      with assms Returned Inr p aw reqs show ?thesis
        by (auto simp: dispatchStream_front)
    next
      case r: (Returned v)
      obtain aerr s2 where ack: "msg_Ack env m s1 = (aerr, s2)" by (metis surj_pair)
      have "calls (effects s2) = calls (effects s1) @ [EAck (jm_handle m)]"
        using msg_Ack_simps(1) [of env m s1] by (simp add: ack)
      with assms Returned Inr p aw reqs r ack show ?thesis
        by (auto simp: dispatchStream_front split: option.splits)
    qed
  qed
qed

section \<open>Properties\<close>

text \<open>
  C21. What a message on a subject channel does to the trace and the counters, on every
  branch: a decode or extraction failure (an error, or the empty entity) makes no call and
  is counted once under its own counter; otherwise awareness runs once, and its panic is
  contained and counted; a verdict is acted on exactly once: Ignore counts, Note counts and
  calls the hook if there is one, Think counts and launches one thinking goroutine with the
  verdict's own reason and entity.
\<close>

theorem dispatch_outcome:
  "(let (r, s') = dispatch env ch msg s
    in case front ch msg of
         Panicked \<Rightarrow> r = Panicked \<and> s' = s
       | Returned (Inl f) \<Rightarrow>
           r = Returned f \<and> calls (effects s') = calls (effects s) \<and>
           mtr s' = (if f = dispatchDecodeFail
                     then (mtr s)\<lparr>DecodeFailures := DecodeFailures (mtr s) + 1\<rparr>
                     else (mtr s)\<lparr>ExtractionFailures := ExtractionFailures (mtr s) + 1\<rparr>)
       | Returned (Inr (d, e)) \<Rightarrow>
           (let (v, s1) = safeAwareness env d e s
            in case v of
                 Panicked \<Rightarrow>
                   r = Returned dispatchAwarenessPanic \<and> calls (effects s') = calls (effects s1) \<and>
                   mtr s' = (mtr s1)\<lparr>AwarenessPanics := AwarenessPanics (mtr s1) + 1\<rparr>
               | Returned v \<Rightarrow>
                   r = Returned dispatchOK \<and>
                   calls (effects s') = calls (effects s1) @ verdict_calls env e v \<and>
                   IgnoredVerdicts (mtr s') = IgnoredVerdicts (mtr s1) + (if kind v = verdictIgnore then 1 else 0) \<and>
                   NotesDelivered (mtr s') = NotesDelivered (mtr s1) + (if kind v = verdictNote then 1 else 0) \<and>
                   ThinksDispatched (mtr s') = ThinksDispatched (mtr s1) + (if kind v = verdictThink then 1 else 0) \<and>
                   map task_entity (tasks s') =
                     map task_entity (tasks s) @ (if kind v = verdictThink then [verdict_entity v] else [])))"
proof (cases "front ch msg")
  case Panicked
  then show ?thesis by (simp add: dispatch_front)
next
  case (Returned x)
  show ?thesis
  proof (cases x)
    case (Inl f)
    then show ?thesis using Returned front_failure [of ch msg f]
      by (auto simp: dispatch_front bump_def log_def)
  next
    case (Inr de)
    obtain d e v s1 where de: "de = (d, e)" and aw: "safeAwareness env d e s = (v, s1)"
      by (metis surj_pair)
    have "tasks s1 = tasks s" using safeAwareness_frame(4) [OF aw] .
    then show ?thesis using Returned Inr verdict_switch_counters [of env e _ s1]
      by (cases v) (simp_all add: dispatch_front de aw bump_def)
  qed
qed

text \<open>
  C3. Every message of a stream channel is settled exactly once, in the right order. If it
  cannot be decoded, or its entity cannot be extracted or is empty, the one call made for it
  is a NAK. Otherwise awareness runs, possibly making requests; if it panics the message is
  NAKed after that, and if it returns a verdict the message is acknowledged first and the
  verdict is acted on only then: no hook is called and no thinking is launched for a message
  that is not acknowledged.
\<close>

theorem stream_message_settled:
  assumes "dispatchStream env ch m s = (Returned (), s')"
  shows "\<exists>cs. calls (effects s') = calls (effects s) @ cs \<and>
    (case front ch (jm_message m) of
       Returned (Inr (d, e)) \<Rightarrow>
         (\<exists>reqs. list_all is_request reqs \<and>
           (case fst (safeAwareness env d e s) of
              Panicked \<Rightarrow> cs = EAwareness e # reqs @ [ENak (jm_handle m)]
            | Returned v \<Rightarrow> cs = EAwareness e # reqs @ EAck (jm_handle m) # verdict_calls env e v))
     | _ \<Rightarrow> cs = [ENak (jm_handle m)])"
  using assms by (rule dispatchStream_calls)

text \<open>
  The zero verdict, which user code can build although the type is meant to be closed, is
  let through: the message counts as dispatched, no counter moves for it and nothing is done.
\<close>

theorem zero_verdict_ignored_silently:
  "verdict_switch env e zero_Verdict s = s"
  by (simp add: verdict_switch_def zero_Verdict_def verdictIgnore_def verdictNote_def verdictThink_def)

section \<open>A runtime to run\<close>

definition demo_env :: "(string, loop) env" where
  "demo_env =
     \<lparr>spec = demo_spec,
      awareness = \<lparr>aw_conn = loop_conn, aw_defaultRequestTimeout = 5\<rparr>,
      thinking = \<lparr>th_conn = loop_conn, th_defaultRequestTimeout = 5, th_defaultRequestManyWindow = 1\<rparr>\<rparr>"

definition demo_rt :: "(string, loop) rt" where
  "demo_rt =
     \<lparr>mtr = newMetrics, effects = [], net = loop0\<lparr>replies := [Inr ''yes'']\<rparr>,
      registry = newRegistry [], thinkingCancelled = False, thinkingWG = 0, tasks = []\<rparr>"

definition demo_stream_channel :: "string ChannelSpec" where
  "demo_stream_channel = demo_channel ''st'' (Stream_Source demo_source)"

lemma demo_rt_calls: "calls (effects demo_rt) = []"
  by (simp add: demo_rt_def)

lemma stream_message_settled_witness:
  "let m = \<lparr>jm_message = demo_message ''think'', jm_handle = 4\<rparr>;
       (r, s') = dispatchStream demo_env demo_stream_channel m demo_rt
   in r = Returned () \<and> filter (\<lambda>e. e = EAck 4 \<or> e = ENak 4) (calls (effects s')) = [EAck 4]"
proof -
  let ?m = "\<lparr>jm_message = demo_message ''think'', jm_handle = 4\<rparr>"
  obtain s' where run: "dispatchStream demo_env demo_stream_channel ?m demo_rt = (Returned (), s')"
    by (cases "dispatchStream demo_env demo_stream_channel ?m demo_rt")
       (auto simp: dispatchStream_front front_def call_fn_def demo_stream_channel_def demo_defs Let_def
         split: outcome.splits prod.splits)
  have f: "front demo_stream_channel (demo_message ''think'') = Returned (Inr (Some ''think'', ''e1''))"
    by (simp add: front_def call_fn_def demo_stream_channel_def demo_defs)
  have v: "fst (safeAwareness demo_env (Some ''think'') ''e1'' demo_rt) = Returned (Think (Some ''think'') ''e1'')"
    by (simp add: safeAwareness_def demo_env_def demo_rt_def demo_defs awareness_Request_def
        requestSingle_def loop_defs Let_def)
  from stream_message_settled [OF run] obtain reqs where reqs: "list_all is_request reqs"
    and c: "calls (effects s') = EAwareness ''e1'' # reqs @ EAck 4 # verdict_calls demo_env ''e1'' (Think (Some ''think'') ''e1'')"
    by (auto simp: f v demo_rt_calls)
  have "\<forall>e \<in> set reqs. e \<noteq> EAck 4 \<and> e \<noteq> ENak 4"
    using reqs by (auto simp: list_all_iff)
  then show ?thesis
    by (simp add: run c verdict_calls_def Think_def filter_empty_conv)
qed

end
