(* ===== verification/Dispatch_Run.thy ===== *)
theory Dispatch_Run
  imports Dispatch
begin

text \<open>
  Runs of a started imp: messages arrive and thinking goroutines advance in any order.
  The invariant ties the counters to the effects performed and to the goroutines alive.
\<close>

section \<open>Events\<close>

datatype 'a event =
    Deliver "'a ChannelSpec" Message
  | DeliverStream "'a ChannelSpec" JsMsg
  | Advance nat

text \<open>\<open>None\<close> is a process killed by a panic the harness does not guard.\<close>

definition handle :: "('a, 'n) env \<Rightarrow> 'a event \<Rightarrow> ('a, 'n, 'z) rt_scheme \<Rightarrow> ('a, 'n, 'z) rt_scheme option" where
  "handle env ev s =
     (case ev of
        Deliver ch msg \<Rightarrow> (case dispatch env ch msg s of (Panicked, _) \<Rightarrow> None | (_, s') \<Rightarrow> Some s')
      | DeliverStream ch m \<Rightarrow> (case dispatchStream env ch m s of (Panicked, _) \<Rightarrow> None | (_, s') \<Rightarrow> Some s')
      | Advance i \<Rightarrow> Some (thinking_step env i s))"

fun handle_all :: "('a, 'n) env \<Rightarrow> 'a event list \<Rightarrow> ('a, 'n, 'z) rt_scheme \<Rightarrow> ('a, 'n, 'z) rt_scheme option" where
  "handle_all env [] s = Some s"
| "handle_all env (ev # evs) s =
     (case handle env ev s of None \<Rightarrow> None | Some s' \<Rightarrow> handle_all env evs s')"

definition new_rt :: "'a any StateShape list \<Rightarrow> 'n \<Rightarrow> ('a, 'n) rt" where
  "new_rt ss n =
     \<lparr>mtr = newMetrics, effects = [], net = n, registry = newRegistry ss,
      thinkingCancelled = False, thinkingWG = 0, tasks = []\<rparr>"

fun event_front :: "'a event \<Rightarrow> (dispatchOutcome + 'a any \<times> entity) outcome option" where
  "event_front (Deliver ch msg) = Some (front ch msg)"
| "event_front (DeliverStream ch m) = Some (front ch (jm_message m))"
| "event_front (Advance i) = None"

lemma handle_survives: "(\<exists>s'. handle env ev s = Some s') \<longleftrightarrow> event_front ev \<noteq> Some Panicked"
proof (cases ev)
  case (Deliver ch msg)
  then show ?thesis using dispatch_panics [of env ch msg s]
    by (cases "dispatch env ch msg s") (auto simp: handle_def split: outcome.splits)
next
  case (DeliverStream ch m)
  then show ?thesis using dispatchStream_panics [of env ch m s]
    by (cases "dispatchStream env ch m s") (auto simp: handle_def split: outcome.splits)
qed (simp add: handle_def)

section \<open>The ledger\<close>

definition count_calls :: "('a effect \<Rightarrow> bool) \<Rightarrow> ('a, 'n, 'z) io_scheme \<Rightarrow> nat" where
  "count_calls P s = length (filter P (calls (effects s)))"

fun is_launch :: "'a effect \<Rightarrow> bool" where
  "is_launch (ELaunch _ _) = True" | "is_launch _ = False"

fun is_nak :: "'a effect \<Rightarrow> bool" where
  "is_nak (ENak _) = True" | "is_nak _ = False"

fun is_ack :: "'a effect \<Rightarrow> bool" where
  "is_ack (EAck _) = True" | "is_ack _ = False"

text \<open>
  The gauge counts the goroutines alive, which the wait group also counts; thoughts
  dispatched and NAKs are the launches and NAKs performed; requests are counted one by
  one; the registry is well formed.
\<close>

definition ledger_ok :: "('a, 'n, 'z) rt_scheme \<Rightarrow> bool" where
  "ledger_ok s \<longleftrightarrow>
     thinkingWG s = int (length (tasks s)) \<and>
     InflightThinking (mtr s) = of_nat (length (tasks s)) \<and>
     ThinksDispatched (mtr s) = of_nat (count_calls is_launch s) \<and>
     NakTotal (mtr s) = of_nat (count_calls is_nak s) \<and>
     RequestCalls (mtr s) = of_nat (count_calls is_request s) \<and>
     length (tasks s) \<le> count_calls is_launch s \<and>
     registry_ok (registry s)"

lemma new_rt_ok: "ledger_ok (new_rt ss n)"
  by (simp add: ledger_ok_def new_rt_def count_calls_def newMetrics_def newRegistry_ok)

text \<open>
  The calls of user code are balanced: an inbox subscribed is unsubscribed, and channel
  consumers are none of its business.
\<close>

fun is_subscribe :: "nat \<Rightarrow> 'a effect \<Rightarrow> bool" where
  "is_subscribe h (ESubscribe _ h') = (h' = h)" | "is_subscribe h _ = False"

fun is_unsubscribe :: "nat \<Rightarrow> 'a effect \<Rightarrow> bool" where
  "is_unsubscribe h (EUnsubscribe h') = (h' = h)" | "is_unsubscribe h _ = False"

fun is_consumer_call :: "'a effect \<Rightarrow> bool" where
  "is_consumer_call (EConsume _ _ _) = True"
| "is_consumer_call (EConsumeStop _) = True"
| "is_consumer_call (ECreateConsumer _ _ _) = True"
| "is_consumer_call (EDeleteConsumer _ _) = True"
| "is_consumer_call _ = False"

definition balanced :: "'a effect list \<Rightarrow> bool" where
  "balanced cs \<longleftrightarrow>
     (\<forall>h. length (filter (is_subscribe h) cs) = length (filter (is_unsubscribe h) cs)) \<and>
     filter is_consumer_call cs = []"

lemma balanced_simps [simp]:
  "balanced []"
  "balanced (EAck h # cs) = balanced cs" "balanced (ENak h # cs) = balanced cs"
  "balanced (ENote e p # cs) = balanced cs" "balanced (ELaunch r e # cs) = balanced cs"
  "balanced (EAwareness e # cs) = balanced cs" "balanced (ERequest sj pl d # cs) = balanced cs"
  "balanced (EPublish sj pl # cs) = balanced cs" "balanced (ERawConn # cs) = balanced cs"
  "balanced [ESubscribe i n, EPublishRequest sj i' pl, EUnsubscribe n]"
  by (simp_all add: balanced_def)

lemma balanced_append: "balanced cs \<Longrightarrow> balanced ds \<Longrightarrow> balanced (cs @ ds)"
  by (simp add: balanced_def)

lemma balanced_requests: "list_all is_request cs \<Longrightarrow> balanced cs"
proof (induction cs)
  case (Cons c cs)
  then show ?case by (cases c) auto
qed simp

text \<open>
  An operation that appends the calls \<open>cs\<close> and moves the counters with them keeps the
  ledger.
\<close>

definition ledger_step :: "('a, 'n, 'z) rt_scheme \<Rightarrow> ('a, 'n, 'z) rt_scheme \<Rightarrow> bool" where
  "ledger_step s s' \<longleftrightarrow>
     (\<exists>cs. calls (effects s') = calls (effects s) @ cs \<and>
       ThinksDispatched (mtr s') = ThinksDispatched (mtr s) + of_nat (length (filter is_launch cs)) \<and>
       NakTotal (mtr s') = NakTotal (mtr s) + of_nat (length (filter is_nak cs)) \<and>
       RequestCalls (mtr s') = RequestCalls (mtr s) + of_nat (length (filter is_request cs)) \<and>
       InflightThinking (mtr s') - InflightThinking (mtr s)
         = of_nat (length (tasks s')) - of_nat (length (tasks s)) \<and>
       thinkingWG s' - thinkingWG s = int (length (tasks s')) - int (length (tasks s)) \<and>
       length (tasks s') \<le> length (tasks s) + length (filter is_launch cs) \<and>
       balanced cs) \<and>
     (registry_ok (registry s) \<longrightarrow> registry_ok (registry s')) \<and>
     rt.more s' = rt.more s"

lemma ledger_step_ok:
  assumes "ledger_ok s" and "ledger_step s s'"
  shows "ledger_ok s'"
  using assms
  by (fastforce simp: ledger_ok_def ledger_step_def count_calls_def algebra_simps)

lemma ledger_step_refl [simp]: "ledger_step s s"
  by (auto simp: ledger_step_def intro: exI [of _ "[]"])

lemma ledger_step_trans [trans]:
  assumes "ledger_step s t" and "ledger_step t u"
  shows "ledger_step s u"
proof -
  from assms(1) obtain cs where cs: "calls (effects t) = calls (effects s) @ cs"
    "ThinksDispatched (mtr t) = ThinksDispatched (mtr s) + of_nat (length (filter is_launch cs))"
    "NakTotal (mtr t) = NakTotal (mtr s) + of_nat (length (filter is_nak cs))"
    "RequestCalls (mtr t) = RequestCalls (mtr s) + of_nat (length (filter is_request cs))"
    "InflightThinking (mtr t) - InflightThinking (mtr s) = of_nat (length (tasks t)) - of_nat (length (tasks s))"
    "thinkingWG t - thinkingWG s = int (length (tasks t)) - int (length (tasks s))"
    "length (tasks t) \<le> length (tasks s) + length (filter is_launch cs)" "balanced cs"
    unfolding ledger_step_def by blast
  from assms(2) obtain ds where ds: "calls (effects u) = calls (effects t) @ ds"
    "ThinksDispatched (mtr u) = ThinksDispatched (mtr t) + of_nat (length (filter is_launch ds))"
    "NakTotal (mtr u) = NakTotal (mtr t) + of_nat (length (filter is_nak ds))"
    "RequestCalls (mtr u) = RequestCalls (mtr t) + of_nat (length (filter is_request ds))"
    "InflightThinking (mtr u) - InflightThinking (mtr t) = of_nat (length (tasks u)) - of_nat (length (tasks t))"
    "thinkingWG u - thinkingWG t = int (length (tasks u)) - int (length (tasks t))"
    "length (tasks u) \<le> length (tasks t) + length (filter is_launch ds)" "balanced ds"
    unfolding ledger_step_def by blast
  have "InflightThinking (mtr u) - InflightThinking (mtr s)
      = (InflightThinking (mtr u) - InflightThinking (mtr t))
        + (InflightThinking (mtr t) - InflightThinking (mtr s))"
    by simp
  then have gauge: "InflightThinking (mtr u) - InflightThinking (mtr s)
      = of_nat (length (tasks u)) - of_nat (length (tasks s))"
    unfolding cs(5) ds(5) by simp
  show ?thesis
    unfolding ledger_step_def
  proof (intro conjI exI [of _ "cs @ ds"])
    show "registry_ok (registry s) \<longrightarrow> registry_ok (registry u)"
      using assms by (simp add: ledger_step_def)
    show "rt.more u = rt.more s"
      using assms by (simp add: ledger_step_def)
  qed (use cs ds gauge in \<open>simp_all add: add.assoc balanced_append\<close>)
qed

section \<open>The parts keep the ledger\<close>

lemma ledger_step_log: "ledger_step s (log l m s)"
  by (auto simp: ledger_step_def intro!: exI [of _ "[]"])

text \<open>Bumping a counter that the ledger does not track.\<close>

lemma ledger_step_bump:
  assumes "\<And>m. ThinksDispatched (u (\<lambda>x. x + 1) m) = ThinksDispatched m"
    and "\<And>m. NakTotal (u (\<lambda>x. x + 1) m) = NakTotal m"
    and "\<And>m. RequestCalls (u (\<lambda>x. x + 1) m) = RequestCalls m"
    and "\<And>m. InflightThinking (u (\<lambda>x. x + 1) m) = InflightThinking m"
  shows "ledger_step s (bump u s)"
  using assms by (auto simp: ledger_step_def intro!: exI [of _ "[]"])

lemma ledger_step_nak:
  assumes "\<And>s. calls (effects (f s)) = calls (effects s) @ [ENak h]"
    and "\<And>s. mtr (f s) = mtr s" and "\<And>s. tasks (f s) = tasks s"
    and "\<And>s. thinkingWG (f s) = thinkingWG s" and "\<And>s. registry (f s) = registry s"
    and "\<And>s. rt.more (f s) = rt.more s"
  shows "ledger_step s (f (bump NakTotal_update s))"
  using assms by (auto simp: ledger_step_def intro!: exI [of _ "[ENak h]"])

lemma list_all_request_filters:
  assumes "list_all is_request reqs"
  shows "filter is_request reqs = reqs" "filter is_launch reqs = []" "filter is_nak reqs = []"
proof -
  have "is_request e \<Longrightarrow> \<not> is_launch e \<and> \<not> is_nak e" for e :: "'a effect"
    by (cases e) auto
  then show "filter is_request reqs = reqs" "filter is_launch reqs = []" "filter is_nak reqs = []"
    using assms by (auto simp: list_all_iff filter_id_conv filter_empty_conv)
qed

text \<open>Requests made by a program are counted one for one.\<close>

lemma requestSingle_count:
  "RequestCalls (mtr (snd (requestSingle nc d subject pl opts s))) = RequestCalls (mtr s) + 1"
  unfolding requestSingle_metrics
  by (simp add: Let_def split: prod.split sum.split category.split)

lemma aw_run_count:
  "\<exists>cs. calls (effects (snd (aw_run a p s))) = calls (effects s) @ cs \<and> list_all is_request cs \<and>
        RequestCalls (mtr (snd (aw_run a p s))) = RequestCalls (mtr s) + of_nat (length cs)"
proof (induction p arbitrary: s)
  case (AwState name e k)
  obtain r s' where st: "ctx_State name e s = (r, s')" by (metis surj_pair)
  then have "effects s' = effects s" "mtr s' = mtr s"
    by (auto simp: ctx_State_def split: prod.splits)
  then show ?case
    using AwState [OF rangeI, of _ s'] by (cases r) (auto simp: st intro: exI [of _ "[]"])
next
  case (AwUpdate p f k)
  show ?case
    using AwUpdate [of "s\<lparr>registry := snd (StateRef_Update p f (registry s))\<rparr>"]
    by (auto split: prod.split outcome.split intro: exI [of _ "[]"])
next
  case (AwRequest subject pl opts k)
  obtain r s' where st: "awareness_Request a subject pl opts s = (r, s')" by (metis surj_pair)
  then have "s' = snd (requestSingle (aw_conn a) (aw_defaultRequestTimeout a) subject pl opts s)"
    by (simp add: awareness_Request_def)
  then have "calls (effects s') = calls (effects s) @
       [ERequest subject pl (effective_timeout (aw_defaultRequestTimeout a) opts)]"
    "RequestCalls (mtr s') = RequestCalls (mtr s) + 1"
    by (simp_all add: requestSingle_calls requestSingle_count)
  moreover obtain cs where "calls (effects (snd (aw_run a (k r) s'))) = calls (effects s') @ cs"
    "list_all is_request cs"
    "RequestCalls (mtr (snd (aw_run a (k r) s'))) = RequestCalls (mtr s') + of_nat (length cs)"
    using AwRequest [OF rangeI, of r s'] by blast
  ultimately show ?case
    by (intro exI [of _ "ERequest subject pl (effective_timeout (aw_defaultRequestTimeout a) opts) # cs"])
      (simp add: st)
next
  case (AwGet p k)
  then show ?case by simp
next
  case (AwSet p v k)
  show ?case using AwSet [of "s\<lparr>registry := StateRef_Set p v (registry s)\<rparr>"] by simp
qed (auto intro: exI [of _ "[]"])

lemma safeAwareness_ledger:
  assumes "safeAwareness env d e s = (r, s')"
  shows "ledger_step s s'"
proof -
  define s1 where "s1 = emit (EAwareness e) s"
  define prog where "prog = (case Awareness (spec env) of None \<Rightarrow> AwPanic | Some f \<Rightarrow> f d e)"
  define s2 where "s2 = snd (aw_run (awareness env) prog s1)"
  obtain cs where cs: "calls (effects s2) = calls (effects s1) @ cs" "list_all is_request cs"
    "RequestCalls (mtr s2) = RequestCalls (mtr s1) + of_nat (length cs)"
    unfolding s2_def using aw_run_count [of "awareness env" prog s1] by blast
  have "effects s' = effects s2 \<or> (\<exists>l m. effects s' = effects s2 @ [ELog l m])"
    and m: "mtr s' = mtr s2"
    using assms by (auto simp: safeAwareness_def Let_def s1_def prog_def s2_def
        split: outcome.splits prod.splits)
  then have c: "calls (effects s') = calls (effects s2)" by auto
  note fr = safeAwareness_frame [OF assms]
  have "calls (effects s') = calls (effects s) @ EAwareness e # cs"
    using cs c by (simp add: s1_def calls_Cons)
  moreover have "RequestCalls (mtr s') = RequestCalls (mtr s) + of_nat (length cs)"
    using cs m by (simp add: s1_def)
  ultimately show ?thesis
    using fr(2-6) list_all_request_filters [OF cs(2)] balanced_requests [OF cs(2)]
    unfolding ledger_step_def same_but_requests_def
    by (intro conjI exI [of _ "EAwareness e # cs"]) simp_all
qed

lemma verdict_switch_ledger: "ledger_step s (verdict_switch env e v s)"
proof -
  have ign: "ledger_step s (bump IgnoredVerdicts_update s)"
    by (rule ledger_step_bump) simp_all
  have note_bump: "ledger_step s (bump NotesDelivered_update s)"
    by (rule ledger_step_bump) simp_all
  have hook: "ledger_step s (invokeNote env e p s)" for p and s :: "('a, 'b, 'c) rt_scheme"
  proof (cases "OnNote (spec env)")
    case (Some f)
    have "RequestCalls (mtr (invokeNote env e p s)) = RequestCalls (mtr s)"
      by (auto simp: invokeNote_def Let_def split: option.split outcome.split prod.split)
    then show ?thesis
      using Some unfolding ledger_step_def by (intro conjI exI [of _ "[ENote e p]"]) simp_all
  qed (simp add: invokeNote_def)
  have launch: "ledger_step s (launchThinking env w e' (bump ThinksDispatched_update s))" for w e'
    unfolding ledger_step_def
    by (intro conjI exI [of _ "[ELaunch w e']"]) simp_all
  show ?thesis
    unfolding verdict_switch_def
    using ign launch ledger_step_trans [OF note_bump hook] by simp
qed

lemma dispatch_ledger:
  assumes "dispatch env ch msg s = (r, s')"
  shows "ledger_step s s'"
proof -
  have d: "ledger_step s (log Warn m (bump DecodeFailures_update s))" for m
    by (rule ledger_step_trans [OF ledger_step_bump ledger_step_log]) simp_all
  have x: "ledger_step s (log Warn m (bump ExtractionFailures_update s))" for m
    by (rule ledger_step_trans [OF ledger_step_bump ledger_step_log]) simp_all
  have a: "ledger_step s (bump AwarenessPanics_update s1)" if "safeAwareness env d e s = (q, s1)" for d e q s1
    by (rule ledger_step_trans [OF safeAwareness_ledger [OF that] ledger_step_bump]) simp_all
  have v: "ledger_step s (verdict_switch env e' w s1)" if "safeAwareness env d e s = (q, s1)" for d e q s1 e' w
    by (rule ledger_step_trans [OF safeAwareness_ledger [OF that] verdict_switch_ledger])
  show ?thesis
    using assms d x a v
    by (auto simp: dispatch_front split: outcome.splits sum.splits prod.splits if_splits)
qed

lemma dispatchStream_ledger:
  assumes "dispatchStream env ch m s = (r, s')"
  shows "ledger_step s s'"
proof -
  have n: "ledger_step s (nakAndLog env m ev (bump NakTotal_update s))" for ev and s :: "('a, 'b, 'c) rt_scheme"
    by (rule ledger_step_nak) simp_all
  have n': "ledger_step s (snd (msg_Nak env m (bump NakTotal_update s)))" for s :: "('a, 'b, 'c) rt_scheme"
    by (rule ledger_step_nak [where f = "\<lambda>s. snd (msg_Nak env m s)"]) simp_all
  have d: "ledger_step s (nakAndLog env m ev (bump NakTotal_update (bump DecodeFailures_update s)))" for ev
    by (rule ledger_step_trans [OF ledger_step_bump n]) simp_all
  have x: "ledger_step s (nakAndLog env m ev (bump NakTotal_update (bump ExtractionFailures_update s)))" for ev
    by (rule ledger_step_trans [OF ledger_step_bump n]) simp_all
  have a: "ledger_step s (snd (msg_Nak env m (bump NakTotal_update (bump AwarenessPanics_update s1))))"
    if "safeAwareness env d e s = (q, s1)" for d e q s1
    by (rule ledger_step_trans [OF ledger_step_trans [OF safeAwareness_ledger [OF that] ledger_step_bump] n'])
      simp_all
  have ack: "ledger_step s s2" if "msg_Ack env m s = (q, s2)" for q and s s2 :: "('a, 'b, 'c) rt_scheme"
    using msg_Ack_simps [of env m s] that unfolding ledger_step_def
    by (intro conjI exI [of _ "[EAck (jm_handle m)]"]) simp_all
  have v: "ledger_step s (verdict_switch env e' w s2)"
      "ledger_step s (verdict_switch env e' w (log Warn lm s2))"
    if "safeAwareness env d e s = (q, s1)" and "msg_Ack env m s1 = (q', s2)" for d e q s1 s2 q' e' w lm
  proof -
    have t: "ledger_step s s2"
      by (rule ledger_step_trans [OF safeAwareness_ledger [OF that(1)] ack [OF that(2)]])
    show "ledger_step s (verdict_switch env e' w s2)"
      by (rule ledger_step_trans [OF t verdict_switch_ledger])
    show "ledger_step s (verdict_switch env e' w (log Warn lm s2))"
      by (rule ledger_step_trans [OF ledger_step_trans [OF t ledger_step_log] verdict_switch_ledger])
  qed
  show ?thesis
    using assms d x a v
    by (auto simp: dispatchStream_front Let_def
        split: outcome.splits sum.splits prod.splits if_splits option.splits)
qed


section \<open>Thinking goroutines keep the ledger\<close>

text \<open>A step of user code: the goroutines and the gauge are untouched.\<close>

lemma requestMany_count:
  "RequestCalls (mtr (snd (requestMany nc d subject pl opts s))) = RequestCalls (mtr s)"
  by (simp add: requestMany_def Let_def split: prod.split sum.split option.split)

lemma requestMany_frame:
  assumes "requestMany nc d subject pl opts s = (Some r, s')"
  shows "\<exists>cs. calls (effects s') = calls (effects s) @ cs \<and>
    filter is_launch cs = [] \<and> filter is_nak cs = [] \<and> filter is_request cs = [] \<and> balanced cs"
proof -
  obtain cs where "calls (effects s') = calls (effects s) @ cs"
    "cs = [] \<or> (\<exists>i n. cs = [ESubscribe i n, EPublishRequest subject i pl, EUnsubscribe n])"
    using requestMany_calls [of nc d subject pl opts s] assms
    by (auto simp: Let_def)
  then show ?thesis by (intro exI [of _ cs]) auto
qed

lemma requestSingle_ledger: "ledger_step s (snd (requestSingle nc d subject pl opts s))"
  using requestSingle_same_but_requests [of s nc d subject pl opts]
    rt_core_more [OF requestSingle_core(3) [of nc d subject pl opts s]]
  unfolding ledger_step_def same_but_requests_def
  by (intro conjI exI [of _ "[ERequest subject pl (effective_timeout d opts)]"])
    (simp_all add: requestSingle_calls requestSingle_count requestSingle_core)

lemma requestMany_ledger:
  assumes "requestMany nc d subject pl opts s = (Some r, s')"
  shows "ledger_step s s'"
proof -
  obtain cs where cs: "calls (effects s') = calls (effects s) @ cs"
    "filter is_launch cs = []" "filter is_nak cs = []" "filter is_request cs = []" "balanced cs"
    using requestMany_frame [OF assms] by blast
  have s': "s' = snd (requestMany nc d subject pl opts s)" by (simp add: assms)
  have more: "io.more s' = io.more s" unfolding s' by (rule requestMany_more)
  then have "registry s' = registry s" "core.more s' = core.more s"
    by (cases s; cases s'; simp)+
  moreover have "same_but_requests (mtr s) (mtr s')"
    unfolding s' by (rule requestMany_same_but_requests)
  moreover have "RequestCalls (mtr s') = RequestCalls (mtr s)"
    unfolding s' by (rule requestMany_count)
  ultimately show ?thesis
    using cs rt_core_more [of s' s] unfolding ledger_step_def same_but_requests_def
    by (intro conjI exI [of _ cs]) simp_all
qed

lemma registry_ledger:
  "(registry_ok (registry s) \<Longrightarrow> registry_ok r) \<Longrightarrow> ledger_step s (s\<lparr>registry := r\<rparr>)"
  by (auto simp: ledger_step_def intro!: exI [of _ "[]"])

lemma th_step_ledger:
  assumes "th_step r p s = Some (p', s')"
  shows "ledger_step s s' \<and> tasks s' = tasks s"
proof (cases p)
  case (ThState name e k)
  have "ledger_step s (s\<lparr>registry := snd (ref name e (registry s))\<rparr>)"
    by (intro registry_ledger ref_ok)
  with assms ThState show ?thesis
    by (cases "ref name e (registry s)") (auto simp: ctx_State_def split: outcome.splits)
next
  case (ThSet q v k)
  with assms show ?thesis by (auto intro!: registry_ledger Set_ok)
next
  case (ThUpdate q f k)
  have "ledger_step s (s\<lparr>registry := snd (StateRef_Update q f (registry s))\<rparr>)"
    by (intro registry_ledger Update_ok)
  with assms ThUpdate show ?thesis
    by (cases "StateRef_Update q f (registry s)") (auto split: outcome.splits)
next
  case (ThRequest subject pl opts k)
  with assms requestSingle_ledger [of s "th_conn r" "th_defaultRequestTimeout r" subject pl opts]
    rt_core_more [OF requestSingle_core(3) [of "th_conn r" "th_defaultRequestTimeout r" subject pl opts s]]
  show ?thesis by (auto simp: thinking_Request_def split: prod.splits)
next
  case (ThRequestMany subject pl opts k)
  with assms obtain x where
    run: "requestMany (th_conn r) (th_defaultRequestManyWindow r) subject pl opts s = (Some x, s')"
    by (auto simp: thinking_RequestMany_def split: prod.splits option.splits)
  have "io.more s' = io.more s"
    using requestMany_more [of "th_conn r" "th_defaultRequestManyWindow r" subject pl opts s]
    by (simp add: run)
  then have "tasks s' = tasks s" by (cases s; cases s') simp
  with requestMany_ledger [OF run] show ?thesis by simp
next
  case (ThPublish subject pl k)
  have "ledger_step s (emit (EPublish subject pl) (s\<lparr>net := n\<rparr>))" for n
    by (auto simp: ledger_step_def calls_Cons intro!: exI [of _ "[EPublish subject pl]"])
  with assms ThPublish show ?thesis by (auto simp: thinking_Publish_def split: prod.splits)
next
  case (ThConn f k)
  have "ledger_step s (emit ERawConn (s\<lparr>net := n\<rparr>))" for n
    by (auto simp: ledger_step_def calls_Cons intro!: exI [of _ "[ERawConn]"])
  with assms ThConn show ?thesis by (auto simp: thinking_Conn_def split: prod.splits)
qed (use assms in auto)

lemma remove_nth_length:
  "i < length xs \<Longrightarrow> length (take i xs @ drop (Suc i) xs) = length xs - 1"
  by simp

lemma finishThinking_ledger:
  assumes "i < length (tasks s)"
  shows "ledger_step s (finishThinking i r s)"
proof -
  define s1 where "s1 = (case r of
      Panicked \<Rightarrow> log Error ''thinking panic'' (bump ThinkingPanics_update s)
    | Returned (Some err) \<Rightarrow> log Warn ''thinking error'' (bump ThinkingErrors_update s)
    | Returned None \<Rightarrow> s)"
  have s1: "ledger_step s s1" "tasks s1 = tasks s"
    unfolding s1_def
    by (auto split: outcome.split option.split
        intro!: ledger_step_trans [OF ledger_step_bump ledger_step_log])
  obtain n where n: "length (tasks s) = Suc n"
    using assms by (cases "length (tasks s)") auto
  have "ledger_step s1 (finishThinking i r s)"
    using assms s1(2) n unfolding ledger_step_def finishThinking_def s1_def [symmetric] Let_def
    by (intro conjI exI [of _ "[]"]) simp_all
  with s1(1) show ?thesis by (rule ledger_step_trans)
qed

lemma thinking_step_ledger: "ledger_step s (thinking_step env i s)"
proof (cases "i < length (tasks s)")
  case True
  let ?p = "task_prog (tasks s ! i)"
  have upd: "ledger_step s (s'\<lparr>tasks := (tasks s')[i := t]\<rparr>)"
    if "th_step (thinking env) ?p s = Some (p', s')" for p' s' t
  proof -
    have "ledger_step s' (s'\<lparr>tasks := (tasks s')[i := t]\<rparr>)"
      by (auto simp: ledger_step_def intro!: exI [of _ "[]"])
    with th_step_ledger [OF that] show ?thesis by (blast intro: ledger_step_trans)
  qed
  show ?thesis
    using True upd finishThinking_ledger [OF True]
    by (auto simp: thinking_step_def split: th_prog.split option.split)
qed (simp add: thinking_step_def)

section \<open>Runs\<close>

lemma handle_ledger: "handle env ev s = Some s' \<Longrightarrow> ledger_step s s'"
  by (auto simp: handle_def thinking_step_ledger
      split: event.splits prod.splits outcome.splits
      dest: dispatch_ledger dispatchStream_ledger)

lemma handle_all_ledger: "handle_all env evs s = Some s' \<Longrightarrow> ledger_step s s'"
proof (induction evs arbitrary: s)
  case (Cons ev evs)
  then show ?case
    by (auto split: option.splits intro: ledger_step_trans handle_ledger)
qed simp

lemma run_ledger:
  "handle_all env evs (new_rt ss n) = Some s \<Longrightarrow> ledger_ok s"
  by (blast intro: ledger_step_ok new_rt_ok handle_all_ledger)

section \<open>Properties\<close>

text \<open>
  C9. The counters tell the truth in every run. Whatever messages arrive on whatever
  channels, and however the steps of the thinking goroutines interleave with them, the
  in-flight gauge and the wait group equal the number of goroutines alive, the thoughts
  dispatched and the NAKs counted are those performed, every request is counted once (the
  counters wrap at 64 bits), and the registry stays well formed.
\<close>

theorem counters_exact:
  assumes "handle_all env evs (new_rt ss n) = Some s"
  shows "thinkingWG s = int (length (tasks s)) \<and>
    InflightThinking (mtr s) = of_nat (length (tasks s)) \<and>
    ThinksDispatched (mtr s) = of_nat (count_calls is_launch s) \<and>
    NakTotal (mtr s) = of_nat (count_calls is_nak s) \<and>
    RequestCalls (mtr s) = of_nat (count_calls is_request s) \<and>
    length (tasks s) \<le> count_calls is_launch s \<and>
    registry_ok (registry s)"
  using run_ledger [OF assms] by (simp add: ledger_ok_def)

lemma counters_exact_witness:
  "\<exists>s. handle_all demo_env
         [DeliverStream demo_stream_channel \<lparr>jm_message = demo_message ''think'', jm_handle = 4\<rparr>,
          DeliverStream demo_stream_channel \<lparr>jm_message = demo_message [], jm_handle = 5\<rparr>]
         (new_rt [] loop0) = Some s \<and>
       thinkingWG s = int (length (tasks s)) \<and> NakTotal (mtr s) = of_nat (count_calls is_nak s)"
proof -
  have fr: "front demo_stream_channel (demo_message d) \<noteq> Panicked" for d
    by (simp add: front_def call_fn_def demo_stream_channel_def demo_defs)
  have go: "\<exists>s'. handle demo_env (DeliverStream demo_stream_channel \<lparr>jm_message = demo_message d, jm_handle = h\<rparr>) s = Some s'"
    for d h and s :: "(string, loop) rt"
    using handle_survives [of demo_env "DeliverStream demo_stream_channel \<lparr>jm_message = demo_message d, jm_handle = h\<rparr>" s] fr
    by simp
  obtain s1 where 1: "handle demo_env
      (DeliverStream demo_stream_channel \<lparr>jm_message = demo_message ''think'', jm_handle = 4\<rparr>) (new_rt [] loop0) = Some s1"
    using go by blast
  obtain s2 where 2: "handle demo_env
      (DeliverStream demo_stream_channel \<lparr>jm_message = demo_message [], jm_handle = 5\<rparr>) s1 = Some s2"
    using go by blast
  have run: "handle_all demo_env
         [DeliverStream demo_stream_channel \<lparr>jm_message = demo_message ''think'', jm_handle = 4\<rparr>,
          DeliverStream demo_stream_channel \<lparr>jm_message = demo_message [], jm_handle = 5\<rparr>]
         (new_rt [] loop0) = Some s2"
    by (simp add: 1 2)
  with counters_exact [OF run] show ?thesis by auto
qed

text \<open>
  A thinking goroutine's end is accounted for: whether it returns, fails or panics, the
  gauge and the wait group go down by one, the goroutine is gone, and exactly its own kind
  of failure is counted.
\<close>

theorem thinking_end:
  "(let s' = finishThinking i r s
    in tasks s' = take i (tasks s) @ drop (Suc i) (tasks s) \<and> thinkingWG s' = thinkingWG s - 1 \<and>
       mtr s' = (let m = (mtr s)\<lparr>InflightThinking := InflightThinking (mtr s) - 1\<rparr>
                 in case r of Panicked \<Rightarrow> m\<lparr>ThinkingPanics := ThinkingPanics m + 1\<rparr>
                    | Returned (Some err) \<Rightarrow> m\<lparr>ThinkingErrors := ThinkingErrors m + 1\<rparr>
                    | Returned None \<Rightarrow> m) \<and>
       calls (effects s') = calls (effects s))"
  by (auto simp: finishThinking_def Let_def bump_def log_def split: outcome.split option.split)


end
