(* ===== verification/Harness.thy ===== *)
theory Harness
  imports Lifecycle Stream_Config Dispatch_Run
begin

text \<open>
  The runtime handle of an imp (\<open>imp.go\<close>), establishing and rolling back its
  subscriptions (\<open>start.go\<close>, and the binding and teardown parts of \<open>stream.go\<close>), and the
  bodies of \<open>Run\<close> and \<open>Shutdown\<close> as the blocks that \<open>Harness_Run\<close> interleaves.
\<close>

section \<open>Runtime record\<close>

record 'a channelState =
  cs_spec :: "'a ChannelSpec"
  cs_subject :: string
  cs_subscription :: "nat option"
  cs_stream :: string
  cs_consumerName :: string
  cs_ephemeral :: bool
  cs_streamConsume :: "nat option"

text \<open>
  \<open>machine\<close> is the lifecycle holder and \<open>history\<close> the states it has gone through since it
  was created, oldest first, kept for stating properties.
\<close>

record ('a, 'n) runtime = "('a, 'n) rt" +
  channels :: "'a channelState list"
  js_ready :: bool
  streams :: "string list"
  machine :: Machine
  history :: "State list"
  identity :: ImpIdentity
  shutdownOnce :: bool
  shutdownErr :: "gerr option"
  stopped :: bool

record ('a, 'n) Imp =
  imp_spec :: "('a, 'n) ImpSpec"
  imp_nc :: "'n conn"
  imp_js :: jetstream_consts
  opts :: runtimeOptions
  rtOnce :: bool
  rtPtr :: "('a, 'n) runtime option"

definition set_state :: "State \<Rightarrow> ('a, 'n) runtime \<Rightarrow> ('a, 'n) runtime" where
  "set_state st rt = rt\<lparr>machine := snd (Set st (machine rt)), history := history rt @ [st]\<rparr>"

definition rt_state :: "('a, 'n) runtime \<Rightarrow> State" where
  "rt_state rt = Get (machine rt)"

lemma set_state_simps [simp]:
  "rt_state (set_state st rt) = st"
  "history (set_state st rt) = history rt @ [st]"
  "channels (set_state st rt) = channels rt"
  "effects (set_state st rt) = effects rt"
  "tasks (set_state st rt) = tasks rt"
  "stopped (set_state st rt) = stopped rt"
  "shutdownErr (set_state st rt) = shutdownErr rt"
  "shutdownOnce (set_state st rt) = shutdownOnce rt"
  "js_ready (set_state st rt) = js_ready rt"
  "net (set_state st rt) = net rt"
  by (simp_all add: set_state_def rt_state_def machine_defs)

section \<open>Construction\<close>

definition NewImp ::
  "('a, 'n) ImpSpec \<Rightarrow> 'n conn option \<Rightarrow> jetstream_consts \<Rightarrow> Option list \<Rightarrow> gerr + ('a, 'n) Imp" where
  "NewImp sp nc js os =
     (case nc of
        None \<Rightarrow> Inl (ErrConfigInvalid ''nats.Conn'' ''nil'')
      | Some c \<Rightarrow>
          (case validateSpec sp of
             Some err \<Rightarrow> Inl err
           | None \<Rightarrow> Inr \<lparr>imp_spec = sp, imp_nc = c, imp_js = js, opts = apply_Options os,
                           rtOnce = False, rtPtr = None\<rparr>))"

text \<open>\<open>n\<close> is the state of the libraries when the runtime is created.\<close>

definition new_runtime :: "('a, 'n) Imp \<Rightarrow> 'n \<Rightarrow> ('a, 'n) runtime" where
  "new_runtime i n =
     rt.extend (new_rt (States (imp_spec i)) n)
       \<lparr>channels = [], js_ready = False, streams = [], machine = New, history = [],
        identity = \<lparr>id_Name = Name (imp_spec i), id_Version = Version (imp_spec i)\<rparr>,
        shutdownOnce = False, shutdownErr = None, stopped = False\<rparr>"

definition bootRuntime :: "('a, 'n) Imp \<Rightarrow> 'n \<Rightarrow> gerr option \<times> ('a, 'n) Imp" where
  "bootRuntime i n =
     (if rtOnce i then (None, i)
      else
        let i1 = i\<lparr>rtOnce := True\<rparr>
        in if defaultRequestTimeout (opts i) \<le> 0
           then (Some (ErrConfigInvalid ''default_request_timeout'' ''non-positive''), i1)
           else if defaultRequestManyWindow (opts i) \<le> 0
           then (Some (ErrConfigInvalid ''default_request_many_window'' ''non-positive''), i1)
           else (None, i1\<lparr>rtPtr := Some (new_runtime i n)\<rparr>))"

text \<open>The contexts the runtime hands to user code, and what dispatch is configured with.\<close>

definition imp_env :: "('a, 'n) Imp \<Rightarrow> ('a, 'n) env" where
  "imp_env i =
     \<lparr>spec = imp_spec i,
      awareness = \<lparr>aw_conn = imp_nc i, aw_defaultRequestTimeout = defaultRequestTimeout (opts i)\<rparr>,
      thinking = \<lparr>th_conn = imp_nc i, th_defaultRequestTimeout = defaultRequestTimeout (opts i),
                  th_defaultRequestManyWindow = defaultRequestManyWindow (opts i)\<rparr>\<rparr>"

definition imp_Identity :: "('a, 'n) Imp \<Rightarrow> ImpIdentity" where
  "imp_Identity i =
     (case rtPtr i of Some rt \<Rightarrow> identity rt
      | None \<Rightarrow> \<lparr>id_Name = Name (imp_spec i), id_Version = Version (imp_spec i)\<rparr>)"

definition imp_Ready :: "('a, 'n) Imp \<Rightarrow> bool" where
  "imp_Ready i = (case rtPtr i of None \<Rightarrow> False | Some rt \<Rightarrow> rt_state rt = StateRunning)"

definition imp_Metrics :: "('a, 'n) Imp \<Rightarrow> Metrics" where
  "imp_Metrics i = (case rtPtr i of None \<Rightarrow> zero_Metrics | Some rt \<Rightarrow> snapshot (mtr rt))"

section \<open>Binding channels\<close>

definition bindSubjectChannel ::
  "'n conn \<Rightarrow> 'a ChannelSpec \<Rightarrow> string \<Rightarrow> ('a, 'n) runtime \<Rightarrow> gerr option \<times> ('a, 'n) runtime" where
  "bindSubjectChannel nc sp subject rt =
     (let (r, n) = Subscribe nc subject (net rt);
          rt1 = rt\<lparr>net := n\<rparr>
      in case r of
           Inl err \<Rightarrow> (Some (ErrSubscriptionFailed subject err), rt1)
         | Inr sub \<Rightarrow>
             (let st = \<lparr>cs_spec = sp, cs_subject = subject, cs_subscription = Some sub,
                        cs_stream = [], cs_consumerName = [], cs_ephemeral = False,
                        cs_streamConsume = None\<rparr>;
                  rt2 = emit (ESubscribe subject sub) rt1
              in (None, log Info ''channel ready'' (rt2\<lparr>channels := channels rt2 @ [st]\<rparr>))))"

definition ensureJetStream :: "'n conn \<Rightarrow> ('a, 'n) runtime \<Rightarrow> gerr option \<times> ('a, 'n) runtime" where
  "ensureJetStream nc rt =
     (if js_ready rt then (None, rt)
      else
        let (err, n) = JetstreamNew nc (net rt); rt1 = rt\<lparr>net := n\<rparr>
        in case err of Some e \<Rightarrow> (Some e, rt1) | None \<Rightarrow> (None, rt1\<lparr>js_ready := True\<rparr>))"

text \<open>
  \<open>resolveConsumer\<close>: the consumer, its name and whether it is ephemeral. Reading the name
  of a fresh ephemeral consumer dereferences its cached info, which panics when nil.
\<close>

definition create_consumer ::
  "'n conn \<Rightarrow> string \<Rightarrow> JsConsumerConfig \<Rightarrow> ('a, 'n) runtime \<Rightarrow> (gerr + Consumer) \<times> ('a, 'n) runtime" where
  "create_consumer nc stream cfg rt =
     (let (r, n) = CreateConsumer nc stream cfg (net rt); rt1 = rt\<lparr>net := n\<rparr>
      in case r of
           Inl err \<Rightarrow> (Inl err, rt1)
         | Inr c \<Rightarrow> (Inr c, emit (ECreateConsumer stream (js_Durable cfg) (con_name c)) rt1))"

definition resolveConsumer ::
  "'n conn \<Rightarrow> jetstream_consts \<Rightarrow> string \<Rightarrow> StreamSource \<Rightarrow> JsConsumerConfig \<Rightarrow> ('a, 'n) runtime \<Rightarrow>
   (gerr + Consumer \<times> string \<times> bool) outcome \<times> ('a, 'n) runtime" where
  "resolveConsumer nc js stream src desired rt =
     (if src_Durable src = [] then
        (case create_consumer nc stream (desired\<lparr>js_Durable := []\<rparr>) rt of
           (Inl err, rt1) \<Rightarrow> (Returned (Inl (ErrSubscriptionFailed (js_FilterSubject desired) err)), rt1)
         | (Inr c, rt1) \<Rightarrow>
             (case CachedInfo c of
                None \<Rightarrow> (Panicked, rt1)
              | Some info \<Rightarrow> (Returned (Inr (c, info_Name info, True)), rt1)))
      else
        let desired' = desired\<lparr>js_Durable := src_Durable src, js_Name := src_Durable src\<rparr>;
            (r, n) = LookupConsumer nc stream (src_Durable src) (net rt);
            rt1 = rt\<lparr>net := n\<rparr>
        in case r of
             Inl err \<Rightarrow>
               if errors_Is err Js_ErrConsumerNotFound then
                 (case create_consumer nc stream desired' rt1 of
                    (Inl cerr, rt2) \<Rightarrow>
                      (Returned (Inl (ErrSubscriptionFailed (js_FilterSubject desired') cerr)), rt2)
                  | (Inr c, rt2) \<Rightarrow> (Returned (Inr (c, src_Durable src, False)), rt2))
               else (Returned (Inl err), rt1)
           | Inr existing \<Rightarrow>
               (let diff = compatDiff js (CachedInfo existing) desired'
                in if diff \<noteq> []
                   then (Returned (Inl (ErrConsumerIncompatible (src_Durable src) diff)), rt1)
                   else (Returned (Inr (existing, src_Durable src, False)), rt1)))"

definition delete_consumer ::
  "'n conn \<Rightarrow> string \<Rightarrow> string \<Rightarrow> ('a, 'n, 'z) io_scheme \<Rightarrow> gerr option \<times> ('a, 'n, 'z) io_scheme" where
  "delete_consumer nc stream name s =
     (let (err, n) = DeleteConsumer nc stream name (net s)
      in (err, emit (EDeleteConsumer stream name) (s\<lparr>net := n\<rparr>)))"

text \<open>The last step of \<open>bindStreamChannel\<close>: start consuming, and record the channel.\<close>

definition consume_stream ::
  "'n conn \<Rightarrow> 'a ChannelSpec \<Rightarrow> StreamSource \<Rightarrow> Consumer \<Rightarrow> string \<Rightarrow> bool \<Rightarrow> ('a, 'n) runtime \<Rightarrow>
   gerr option \<times> ('a, 'n) runtime" where
  "consume_stream nc sp src consumer consumerName ephemeral rt =
     (let (r, n) = Consume nc consumer (net rt); rt1 = rt\<lparr>net := n\<rparr>
      in case r of
           Inl err \<Rightarrow>
             (Some (ErrSubscriptionFailed (src_FilterSubject src) err),
              if ephemeral then snd (delete_consumer nc (src_Stream src) consumerName rt1) else rt1)
         | Inr cc \<Rightarrow>
             (let st = \<lparr>cs_spec = sp, cs_subject = src_FilterSubject src,
                        cs_subscription = None, cs_stream = src_Stream src,
                        cs_consumerName = consumerName, cs_ephemeral = ephemeral,
                        cs_streamConsume = Some cc\<rparr>;
                  rt2 = emit (EConsume (src_Stream src) consumerName cc) rt1
              in (None,
                  log Info ''channel ready''
                    (rt2\<lparr>channels := channels rt2 @ [st], streams := streams rt2 @ [src_Stream src]\<rparr>))))"

definition bindStreamChannel ::
  "'n conn \<Rightarrow> jetstream_consts \<Rightarrow> 'a ChannelSpec \<Rightarrow> StreamSource \<Rightarrow> ('a, 'n) runtime \<Rightarrow>
   gerr option outcome \<times> ('a, 'n) runtime" where
  "bindStreamChannel nc js sp src rt =
     (case ensureJetStream nc rt of
        (Some err, rt1) \<Rightarrow> (Returned (Some err), rt1)
      | (None, rt1) \<Rightarrow>
          (let (serr, n) = JsStream nc (src_Stream src) (net rt1); rt2 = rt1\<lparr>net := n\<rparr>
           in case serr of
                Some err \<Rightarrow>
                  (Returned (Some (if errors_Is err Js_ErrStreamNotFound
                                   then ErrStreamNotFound (src_Stream src) else err)), rt2)
              | None \<Rightarrow>
                  (let desired = buildConsumerConfig js src (src_FilterSubject src)
                   in case resolveConsumer nc js (src_Stream src) src desired rt2 of
                        (Panicked, rt3) \<Rightarrow> (Panicked, rt3)
                      | (Returned (Inl err), rt3) \<Rightarrow> (Returned (Some err), rt3)
                      | (Returned (Inr (consumer, consumerName, ephemeral)), rt3) \<Rightarrow>
                          (case consume_stream nc sp src consumer consumerName ephemeral rt3 of
                             (err, rt4) \<Rightarrow> (Returned err, rt4)))))"

text \<open>One iteration of \<open>start\<close>'s loop, and the loop.\<close>

definition bind_channel ::
  "('a, 'n) Imp \<Rightarrow> 'a ChannelSpec \<Rightarrow> ('a, 'n) runtime \<Rightarrow> gerr option outcome \<times> ('a, 'n) runtime" where
  "bind_channel i ch rt =
     (case ch_Source ch of
        Some (SubjectSource subject) \<Rightarrow>
          (case bindSubjectChannel (imp_nc i) ch subject rt of (err, rt1) \<Rightarrow> (Returned err, rt1))
      | Some (Stream_Source src) \<Rightarrow> bindStreamChannel (imp_nc i) (imp_js i) ch src rt
      | _ \<Rightarrow>
          (Returned (Some (ErrSpecInvalid ''ChannelSpec.Source''
             (''unsupported source kind for channel '' @ ch_Name ch))), rt))"

fun start :: "('a, 'n) Imp \<Rightarrow> 'a ChannelSpec list \<Rightarrow> ('a, 'n) runtime \<Rightarrow>
   gerr option outcome \<times> ('a, 'n) runtime" where
  "start i [] rt = (Returned None, rt)"
| "start i (ch # chs) rt =
     (case bind_channel i ch rt of
        (Returned None, rt1) \<Rightarrow> start i chs rt1
      | (Returned (Some err), rt1) \<Rightarrow> (Returned (Some err), rt1)
      | (Panicked, rt1) \<Rightarrow> (Panicked, rt1))"

section \<open>Rolling back\<close>

fun unwind_subscriptions ::
  "'n conn \<Rightarrow> 'a channelState list \<Rightarrow> ('a, 'n, 'z) io_scheme \<Rightarrow>
   'a channelState list \<times> ('a, 'n, 'z) io_scheme" where
  "unwind_subscriptions nc [] s = ([], s)"
| "unwind_subscriptions nc (ch # chs) s =
     (let (ch1, s1) =
        (case cs_subscription ch of
           None \<Rightarrow> (ch, s)
         | Some sub \<Rightarrow>
             (let (err, n) = Unsubscribe nc sub (net s);
                  s' = emit (EUnsubscribe sub) (s\<lparr>net := n\<rparr>)
              in (ch\<lparr>cs_subscription := None\<rparr>,
                  case err of None \<Rightarrow> s' | Some _ \<Rightarrow> log Warn ''unsubscribe failed'' s')));
        (chs1, s2) = unwind_subscriptions nc chs s1
      in (ch1 # chs1, s2))"

text \<open>The body of \<open>teardownStreamConsumers\<close>' loop for one channel.\<close>

definition teardown_channel ::
  "'n conn \<Rightarrow> 'a channelState \<Rightarrow> ('a, 'n, 'z) io_scheme \<Rightarrow> 'a channelState \<times> ('a, 'n, 'z) io_scheme" where
  "teardown_channel nc ch s =
     (let (ch1, s1) =
        (case cs_streamConsume ch of
           None \<Rightarrow> (ch, s)
         | Some cc \<Rightarrow>
             (ch\<lparr>cs_streamConsume := None\<rparr>,
              emit (EConsumeStop cc) (s\<lparr>net := ConsumeStop nc cc (net s)\<rparr>)))
      in if cs_ephemeral ch1 \<and> cs_consumerName ch1 \<noteq> [] \<and> cs_stream ch1 \<noteq> []
         then
           (let (serr, n) = JsStream nc (cs_stream ch1) (net s1); s2 = s1\<lparr>net := n\<rparr>
            in (ch1\<lparr>cs_consumerName := []\<rparr>,
                case serr of
                  Some _ \<Rightarrow> s2
                | None \<Rightarrow>
                    (case delete_consumer nc (cs_stream ch1) (cs_consumerName ch1) s2 of
                       (Some _, s3) \<Rightarrow> log Warn ''ephemeral consumer delete failed'' s3
                     | (None, s3) \<Rightarrow> log Info ''ephemeral consumer deleted'' s3)))
         else (ch1, s1))"

fun teardown_channels ::
  "'n conn \<Rightarrow> 'a channelState list \<Rightarrow> ('a, 'n, 'z) io_scheme \<Rightarrow>
   'a channelState list \<times> ('a, 'n, 'z) io_scheme" where
  "teardown_channels nc [] s = ([], s)"
| "teardown_channels nc (ch # chs) s =
     (let (ch1, s1) = teardown_channel nc ch s;
          (chs1, s2) = teardown_channels nc chs s1
      in (ch1 # chs1, s2))"

definition teardownStreamConsumers :: "'n conn \<Rightarrow> ('a, 'n) runtime \<Rightarrow> ('a, 'n) runtime" where
  "teardownStreamConsumers nc rt =
     (if \<not> js_ready rt then rt
      else let (chs, rt1) = teardown_channels nc (channels rt) rt in rt1\<lparr>channels := chs\<rparr>)"

definition unwind :: "'n conn \<Rightarrow> ('a, 'n) runtime \<Rightarrow> ('a, 'n) runtime" where
  "unwind nc rt =
     (let (chs, rt1) = unwind_subscriptions nc (channels rt) rt
      in teardownStreamConsumers nc (rt1\<lparr>channels := chs\<rparr>))"

section \<open>Draining\<close>

text \<open>
  \<open>waitDrain\<close>'s select, by the branch it takes: the wait group having reached zero, or the
  timer of the drain window. \<open>None\<close> is a branch that is not ready.
\<close>

definition drain_error :: gerr where
  "drain_error = Joined [Sentinel Context_DeadlineExceeded, Opaque ''imps: drain window exceeded'']"

definition waitDrain ::
  "bool \<Rightarrow> ('a, 'n, 'z) rt_scheme \<Rightarrow> (gerr option \<times> ('a, 'n, 'z) rt_scheme) option" where
  "waitDrain timer s =
     (if timer then Some (Some drain_error, log Warn ''drain deadline exceeded'' s)
      else if thinkingWG s = 0 then Some (None, s)
      else None)"

end
