(* ===== verification/Harness_Facts.thy ===== *)
theory Harness_Facts
  imports Harness
begin

text \<open>
  What binding and rolling back do to the substrate handles: every subscription and every
  consume loop the imp opens is either held by a channel record or has been released, and
  rolling back leaves none held.
\<close>

section \<open>Handles held by channel records\<close>

fun is_consume :: "nat \<Rightarrow> 'a effect \<Rightarrow> bool" where
  "is_consume h (EConsume _ _ h') = (h' = h)" | "is_consume h _ = False"

fun is_consume_stop :: "nat \<Rightarrow> 'a effect \<Rightarrow> bool" where
  "is_consume_stop h (EConsumeStop h') = (h' = h)" | "is_consume_stop h _ = False"

fun is_delete :: "'a effect \<Rightarrow> bool" where
  "is_delete (EDeleteConsumer _ _) = True" | "is_delete _ = False"

definition held :: "('a channelState \<Rightarrow> nat option) \<Rightarrow> nat \<Rightarrow> 'a channelState list \<Rightarrow> nat" where
  "held f h chs = length (filter (\<lambda>ch. f ch = Some h) chs)"

lemma held_simps [simp]:
  "held f h [] = 0"
  "held f h (ch # chs) = (if f ch = Some h then 1 else 0) + held f h chs"
  "held f h (chs @ chs') = held f h chs + held f h chs'"
  by (simp_all add: held_def)

lemma held_none: "\<forall>ch \<in> set chs. f ch = None \<Longrightarrow> held f h chs = 0"
  by (induction chs) auto

text \<open>Subscriptions and consume loops opened are those released plus those still held.\<close>

definition handles_ok :: "('a, 'n) runtime \<Rightarrow> bool" where
  "handles_ok rt \<longleftrightarrow>
     (\<forall>h. count_calls (is_subscribe h) rt = count_calls (is_unsubscribe h) rt + held cs_subscription h (channels rt)) \<and>
     (\<forall>h. count_calls (is_consume h) rt = count_calls (is_consume_stop h) rt + held cs_streamConsume h (channels rt)) \<and>
     (\<forall>ch \<in> set (channels rt). cs_streamConsume ch \<noteq> None \<longrightarrow> js_ready rt)"

definition released :: "('a, 'n) runtime \<Rightarrow> bool" where
  "released rt \<longleftrightarrow> (\<forall>ch \<in> set (channels rt). cs_subscription ch = None \<and> cs_streamConsume ch = None)"

text \<open>No consumer of the imp's own naming is ever deleted while every stream channel is durable.\<close>

fun durable_source :: "Source option \<Rightarrow> bool" where
  "durable_source (Some (Stream_Source src)) = (src_Durable src \<noteq> [])"
| "durable_source _ = True"

definition nothing_deleted :: "('a, 'n) runtime \<Rightarrow> bool" where
  "nothing_deleted rt \<longleftrightarrow>
     count_calls is_delete rt = 0 \<and> (\<forall>ch \<in> set (channels rt). \<not> cs_ephemeral ch)"

lemma count_calls_simps [simp]:
  "count_calls P (log l m s) = count_calls P s"
  "count_calls P (s\<lparr>net := n\<rparr>) = count_calls P s"
  "\<not> is_log e \<Longrightarrow> count_calls P (emit e s) = (if P e then 1 else 0) + count_calls P s"
  by (simp_all add: count_calls_def calls_def)

lemma count_calls_channels [simp]: "count_calls P (rt\<lparr>channels := c\<rparr>) = count_calls P rt"
  by (simp add: count_calls_def)

lemma count_calls_streams [simp]: "count_calls P (rt\<lparr>streams := c\<rparr>) = count_calls P rt"
  by (simp add: count_calls_def)

lemma count_calls_js [simp]: "count_calls P (rt\<lparr>js_ready := c\<rparr>) = count_calls P rt"
  by (simp add: count_calls_def)

lemma runtime_emit_simps [simp]:
  "channels (emit e rt) = channels rt" "js_ready (emit e rt) = js_ready rt"
  "machine (emit e rt) = machine rt" "history (emit e rt) = history rt"
  "shutdownOnce (emit e rt) = shutdownOnce rt" "shutdownErr (emit e rt) = shutdownErr rt"
  "stopped (emit e rt) = stopped rt" "streams (emit e rt) = streams rt"
  by (simp_all add: emit_def)

lemma runtime_log_simps [simp]:
  "channels (log l m rt) = channels rt" "js_ready (log l m rt) = js_ready rt"
  "machine (log l m rt) = machine rt" "history (log l m rt) = history rt"
  "shutdownOnce (log l m rt) = shutdownOnce rt" "shutdownErr (log l m rt) = shutdownErr rt"
  "stopped (log l m rt) = stopped rt" "streams (log l m rt) = streams rt"
  by (simp_all add: log_def)

section \<open>Binding\<close>

lemma bindSubjectChannel_handles:
  "handles_ok rt \<Longrightarrow> handles_ok (snd (bindSubjectChannel nc sp subject rt))"
  by (auto simp: bindSubjectChannel_def handles_ok_def Let_def split: prod.split sum.split)

lemma ensureJetStream_handles:
  assumes "ensureJetStream nc rt = (e, rt')"
  shows "handles_ok rt \<Longrightarrow> handles_ok rt'"
    and "e = None \<Longrightarrow> js_ready rt'"
    and "channels rt' = channels rt" and "count_calls P rt' = count_calls P rt"
  using assms
  by (auto simp: ensureJetStream_def handles_ok_def Let_def
      split: prod.splits option.splits if_splits)

text \<open>Looking up, creating and deleting a consumer leave the handles alone.\<close>

definition same_handles :: "('a, 'n) runtime \<Rightarrow> ('a, 'n) runtime \<Rightarrow> bool" where
  "same_handles rt rt' \<longleftrightarrow>
     channels rt' = channels rt \<and> js_ready rt' = js_ready rt \<and>
     (\<forall>h. count_calls (is_subscribe h) rt' = count_calls (is_subscribe h) rt \<and>
          count_calls (is_unsubscribe h) rt' = count_calls (is_unsubscribe h) rt \<and>
          count_calls (is_consume h) rt' = count_calls (is_consume h) rt \<and>
          count_calls (is_consume_stop h) rt' = count_calls (is_consume_stop h) rt)"

lemma same_handles_ok: "same_handles rt rt' \<Longrightarrow> handles_ok rt \<Longrightarrow> handles_ok rt'"
  by (simp add: same_handles_def handles_ok_def)

lemma same_handles_refl [simp]: "same_handles rt rt"
  by (simp add: same_handles_def)

lemma same_handles_net [simp]: "same_handles rt (rt'\<lparr>net := n\<rparr>) = same_handles rt rt'"
  by (simp add: same_handles_def)

lemma same_handles_net' [simp]: "same_handles (rt\<lparr>net := n\<rparr>) rt' = same_handles rt rt'"
  by (simp add: same_handles_def)

lemma create_consumer_handles:
  "create_consumer nc st cfg rt = (r, rt') \<Longrightarrow>
   same_handles rt rt' \<and> count_calls is_delete rt' = count_calls is_delete rt"
  by (auto simp: create_consumer_def same_handles_def Let_def split: prod.splits sum.splits)

lemma delete_consumer_handles:
  "same_handles rt (snd (delete_consumer nc st name rt))"
  by (auto simp: delete_consumer_def same_handles_def Let_def split: prod.splits)

lemma resolveConsumer_handles:
  "resolveConsumer nc js st src d rt = (r, rt') \<Longrightarrow>
   same_handles rt rt' \<and> count_calls is_delete rt' = count_calls is_delete rt"
  by (auto simp: resolveConsumer_def Let_def dest!: create_consumer_handles
      split: if_splits prod.splits sum.splits option.splits)

lemma resolveConsumer_ephemeral:
  "resolveConsumer nc js st src d rt = (Returned (Inr (c, nm, eph)), rt') \<Longrightarrow>
   eph \<longleftrightarrow> src_Durable src = []"
  by (auto simp: resolveConsumer_def Let_def split: if_splits prod.splits sum.splits option.splits)

lemma runtime_net_simps [simp]:
  "handles_ok (rt\<lparr>net := n\<rparr>) = handles_ok rt" "nothing_deleted (rt\<lparr>net := n\<rparr>) = nothing_deleted rt"
  by (simp_all add: handles_ok_def nothing_deleted_def)

lemma handles_ok_log [simp]: "handles_ok (log l m rt) = handles_ok rt"
  by (simp add: handles_ok_def)

lemma nothing_deleted_log [simp]: "nothing_deleted (log l m rt) = nothing_deleted rt"
  by (simp add: nothing_deleted_def)

text \<open>A consume loop started and recorded in the same step.\<close>

lemma handles_ok_consume:
  assumes "handles_ok rt" and "js_ready rt" and "cs_subscription st = None" and "cs_streamConsume st = Some cc"
  shows "handles_ok (emit (EConsume a b cc) rt\<lparr>channels := channels rt @ [st], streams := x\<rparr>)"
  using assms by (auto simp: handles_ok_def)

definition usable :: "('a, 'n) runtime \<Rightarrow> bool" where
  "usable rt \<longleftrightarrow> handles_ok rt \<and> js_ready rt"

lemma usable_net [simp]: "usable (rt\<lparr>net := n\<rparr>) = usable rt"
  by (simp add: usable_def)

lemma ensureJetStream_usable:
  "ensureJetStream nc rt = (e, rt') \<Longrightarrow> handles_ok rt \<Longrightarrow> handles_ok rt' \<and> (e = None \<longrightarrow> usable rt')"
  using ensureJetStream_handles [of nc rt e rt'] by (auto simp: usable_def)

lemma resolveConsumer_usable:
  "resolveConsumer nc js st src d rt = (r, rt') \<Longrightarrow> usable rt \<Longrightarrow> usable rt'"
  using resolveConsumer_handles [of nc js st src d rt r rt'] same_handles_ok [of rt rt']
  by (auto simp: usable_def same_handles_def)

lemma delete_consumer_usable:
  "usable rt \<Longrightarrow> usable (snd (delete_consumer nc st nm rt))"
  using delete_consumer_handles [of rt nc st nm] same_handles_ok
  by (fastforce simp: usable_def same_handles_def)

lemma usable_ok: "usable rt \<Longrightarrow> handles_ok rt"
  by (simp add: usable_def)

lemma consume_stream_handles:
  assumes "usable rt"
  shows "handles_ok (snd (consume_stream nc sp src c nm eph rt))"
proof -
  obtain r n where C: "Consume nc c (net rt) = (r, n)" by force
  have U: "usable (rt\<lparr>net := n\<rparr>)" using assms by simp
  show ?thesis
  proof (cases r)
    case (Inl err)
    then show ?thesis using U delete_consumer_usable [OF U]
      by (auto simp: consume_stream_def C Let_def usable_ok)
  next
    case (Inr cc)
    then show ?thesis using U
      by (auto simp: consume_stream_def C Let_def usable_def handles_ok_def)
  qed
qed

lemma bindStreamChannel_handles:
  assumes "handles_ok rt"
  shows "handles_ok (snd (bindStreamChannel nc js sp src rt))"
proof -
  obtain e rt1 where E: "ensureJetStream nc rt = (e, rt1)" by force
  note U = ensureJetStream_usable [OF E assms]
  show ?thesis
  proof (cases e)
    case (Some err)
    then show ?thesis using U by (simp add: bindStreamChannel_def E)
  next
    case None
    then have U1: "usable rt1" using U by simp
    obtain se n where S: "JsStream nc (src_Stream src) (net rt1) = (se, n)" by force
    obtain r rt3 where R: "resolveConsumer nc js (src_Stream src) src
        (buildConsumerConfig js src (src_FilterSubject src)) (rt1\<lparr>net := n\<rparr>) = (r, rt3)" by force
    have U3: "usable rt3" using resolveConsumer_usable [OF R] U1 by simp
    show ?thesis
      using U1 None usable_ok [OF U3] consume_stream_handles [OF U3]
      by (auto simp: bindStreamChannel_def E S R Let_def usable_ok prod.case_eq_if
          split: option.split outcome.split sum.split)
  qed
qed

lemma bind_channel_handles:
  "handles_ok rt \<Longrightarrow> handles_ok (snd (bind_channel i ch rt))"
  using bindSubjectChannel_handles bindStreamChannel_handles
  by (auto simp: bind_channel_def prod.case_eq_if split: option.split Source.split)

lemma start_handles:
  "handles_ok rt \<Longrightarrow> handles_ok (snd (start i chs rt))"
proof (induction i chs rt rule: start.induct)
  case (2 i ch chs rt)
  then show ?case using bind_channel_handles [of rt i ch]
    by (auto split: prod.split outcome.split option.split)
qed simp

section \<open>Rolling back\<close>

text \<open>\<open>elsewhere P\<close>: \<open>P\<close> counts none of the calls that rolling back makes.\<close>

definition elsewhere :: "('a effect \<Rightarrow> bool) \<Rightarrow> bool" where
  "elsewhere P \<longleftrightarrow> (\<forall>h. \<not> P (EUnsubscribe h) \<and> \<not> P (EConsumeStop h)) \<and> (\<forall>a b. \<not> P (EDeleteConsumer a b))"

lemma elsewhere_simps [simp]: "elsewhere (is_subscribe h)" "elsewhere (is_consume h)"
  by (simp_all add: elsewhere_def)

lemma unwind_subscriptions_handles:
  assumes "unwind_subscriptions nc chs s = (chs', s')"
  shows "\<forall>ch \<in> set chs'. cs_subscription ch = None"
    and "count_calls (is_unsubscribe h) s' = count_calls (is_unsubscribe h) s + held cs_subscription h chs"
    and "map cs_streamConsume chs' = map cs_streamConsume chs"
    and "map cs_ephemeral chs' = map cs_ephemeral chs"
    and "elsewhere P \<or> P = is_delete \<or> P = is_consume_stop k \<Longrightarrow> count_calls P s' = count_calls P s"
  using assms
  by (induction chs arbitrary: s chs' s')
     (auto simp: Let_def elsewhere_def split: prod.splits option.splits)

lemma teardown_channel_handles:
  assumes "teardown_channel nc ch s = (ch', s')"
  shows "cs_streamConsume ch' = None" and "cs_subscription ch' = cs_subscription ch"
    and "count_calls (is_consume_stop h) s' =
         count_calls (is_consume_stop h) s + (if cs_streamConsume ch = Some h then 1 else 0)"
    and "\<not> cs_ephemeral ch \<Longrightarrow> count_calls is_delete s' = count_calls is_delete s"
    and "cs_ephemeral ch' = cs_ephemeral ch"
    and "elsewhere P \<or> P = is_unsubscribe k \<Longrightarrow> count_calls P s' = count_calls P s"
  using assms
  by (auto simp: teardown_channel_def delete_consumer_def elsewhere_def Let_def
      split: prod.splits option.splits if_splits)

lemma teardown_channels_channels:
  assumes "teardown_channels nc chs s = (chs', s')"
  shows "\<forall>ch \<in> set chs'. cs_streamConsume ch = None"
    and "map cs_subscription chs' = map cs_subscription chs"
    and "map cs_ephemeral chs' = map cs_ephemeral chs"
  using assms
  by (induction chs arbitrary: s chs' s')
     (auto simp: Let_def teardown_channel_handles(1,2,5) split: prod.splits)

lemma teardown_channels_stops:
  "teardown_channels nc chs s = (chs', s') \<Longrightarrow>
   count_calls (is_consume_stop h) s' = count_calls (is_consume_stop h) s + held cs_streamConsume h chs"
  by (induction chs arbitrary: s chs' s')
     (auto simp: Let_def teardown_channel_handles(3) split: prod.splits)

lemma teardown_channels_deletes:
  "teardown_channels nc chs s = (chs', s') \<Longrightarrow> \<forall>ch \<in> set chs. \<not> cs_ephemeral ch \<Longrightarrow>
   count_calls is_delete s' = count_calls is_delete s"
  by (induction chs arbitrary: s chs' s')
     (auto simp: Let_def teardown_channel_handles(4) split: prod.splits)

lemma teardown_channels_elsewhere:
  "teardown_channels nc chs s = (chs', s') \<Longrightarrow> elsewhere P \<or> P = is_unsubscribe k \<Longrightarrow>
   count_calls P s' = count_calls P s"
  by (induction chs arbitrary: s chs' s')
     (auto simp: Let_def teardown_channel_handles(6) split: prod.splits)

lemma held_as_map: "held f h chs = length (filter (\<lambda>x. x = Some h) (map f chs))"
  by (simp add: held_def filter_map comp_def)

lemma all_None_map:
  assumes "map f xs = map f ys"
  shows "(\<forall>x \<in> set xs. f x = None) = (\<forall>x \<in> set ys. f x = None)"
proof -
  have "(\<forall>x \<in> set zs. f x = None) = (set (map f zs) \<subseteq> {None})" for zs by auto
  then show ?thesis using arg_cong [OF assms, of set] by simp
qed

lemma held_map: "map f chs' = map f chs \<Longrightarrow> held f h chs' = held f h chs"
  by (simp add: held_as_map)

text \<open>Rolling back touches nothing of the runtime but the handles, the trace and the network.\<close>

lemma emit_more [simp]: "io.more (emit e s) = io.more s" "mtr (emit e s) = mtr s"
  by (simp_all add: emit_def)

lemma log_more [simp]: "io.more (log l m s) = io.more s" "mtr (log l m s) = mtr s"
  by (simp_all add: log_def)

lemma unwind_subscriptions_more:
  "unwind_subscriptions nc chs s = (chs', s') \<Longrightarrow> io.more s' = io.more s \<and> mtr s' = mtr s"
  by (induction chs arbitrary: s chs' s') (auto simp: Let_def split: prod.splits option.splits)

lemma teardown_channel_more:
  "teardown_channel nc ch s = (ch', s') \<Longrightarrow> io.more s' = io.more s \<and> mtr s' = mtr s"
  by (auto simp: teardown_channel_def delete_consumer_def Let_def
      split: prod.splits option.splits if_splits)

lemma teardown_channels_more:
  "teardown_channels nc chs s = (chs', s') \<Longrightarrow> io.more s' = io.more s \<and> mtr s' = mtr s"
proof (induction chs arbitrary: s chs' s')
  case (Cons ch chs)
  then show ?case using teardown_channel_more [of nc ch s] by (auto simp: Let_def split: prod.splits)
qed simp

lemma io_more_update:
  "io.more s' = io.more s \<Longrightarrow> s' = s\<lparr>mtr := mtr s', effects := effects s', net := net s'\<rparr>"
  by (rule io.equality) simp_all

lemma runtime_more:
  fixes rt rt' :: "('a, 'n) runtime"
  assumes "io.more rt' = io.more rt"
  shows "channels rt' = channels rt" and "js_ready rt' = js_ready rt" and "machine rt' = machine rt"
    and "history rt' = history rt" and "tasks rt' = tasks rt" and "registry rt' = registry rt \<and> thinkingCancelled rt' = thinkingCancelled rt \<and> thinkingWG rt' = thinkingWG rt"
    and "shutdownOnce rt' = shutdownOnce rt" and "shutdownErr rt' = shutdownErr rt" and "stopped rt' = stopped rt"
    and "identity rt' = identity rt"
  by (subst io_more_update [OF assms], simp)+

definition untouched :: "('a, 'n) runtime \<Rightarrow> ('a, 'n) runtime \<Rightarrow> bool" where
  "untouched rt rt' \<longleftrightarrow>
     machine rt' = machine rt \<and> history rt' = history rt \<and> tasks rt' = tasks rt \<and>
     registry rt' = registry rt \<and> thinkingCancelled rt' = thinkingCancelled rt \<and> thinkingWG rt' = thinkingWG rt \<and> mtr rt' = mtr rt \<and> shutdownOnce rt' = shutdownOnce rt \<and>
     shutdownErr rt' = shutdownErr rt \<and> stopped rt' = stopped rt"

lemma unwind_untouched: "untouched rt (unwind nc rt)"
proof -
  obtain chs1 rt1 where U: "unwind_subscriptions nc (channels rt) rt = (chs1, rt1)" by force
  obtain chs2 rt2 where T: "teardown_channels nc chs1 (rt1\<lparr>channels := chs1\<rparr>) = (chs2, rt2)" by force
  note U1 = unwind_subscriptions_more [OF U] and T1 = teardown_channels_more [OF T]
  note U2 = runtime_more [OF U1 [THEN conjunct1]] and T2 = runtime_more [OF T1 [THEN conjunct1]]
  show ?thesis
    by (simp add: untouched_def unwind_def teardownStreamConsumers_def U T U2 T2 T1 U1)
qed

text \<open>After a roll-back every handle ever opened has been released exactly once.\<close>

lemma unwind_released:
  assumes "handles_ok rt"
  shows "handles_ok (unwind nc rt)" and "released (unwind nc rt)"
proof -
  obtain chs1 rt1 where U: "unwind_subscriptions nc (channels rt) rt = (chs1, rt1)" by force
  obtain chs2 rt2 where T: "teardown_channels nc chs1 (rt1\<lparr>channels := chs1\<rparr>) = (chs2, rt2)" by force
  have js: "js_ready rt1 = js_ready rt"
    using unwind_subscriptions_more [OF U] runtime_more(2) by blast
  note U1 = unwind_subscriptions_handles [OF U]
  note T1 = teardown_channels_channels [OF T] and T2 = teardown_channels_stops [OF T]
    and T3 = teardown_channels_elsewhere [OF T]
  have el: "count_calls (is_subscribe h) rt1 = count_calls (is_subscribe h) rt"
    "count_calls (is_consume h) rt1 = count_calls (is_consume h) rt"
    "count_calls (is_consume_stop h) rt1 = count_calls (is_consume_stop h) rt" for h
    by (rule U1(5), use elsewhere_simps in blast)+
  have h1: "held cs_streamConsume h chs1 = held cs_streamConsume h (channels rt)" for h
    using held_map [OF U1(3)] .
  have h1': "held cs_subscription h chs1 = 0" for h using held_none U1(1) by metis
  have h2: "held cs_subscription h chs2 = 0" for h using held_map [OF T1(2)] h1' by metis
  have h2': "held cs_streamConsume h chs2 = 0" for h using held_none T1(1) by metis
  have sub2: "\<forall>ch \<in> set chs2. cs_subscription ch = None"
    using all_None_map [OF T1(2)] U1(1) by simp
  have cons1: "(\<forall>ch \<in> set chs1. cs_streamConsume ch = None) = (\<forall>ch \<in> set (channels rt). cs_streamConsume ch = None)"
    using all_None_map [OF U1(3)] .
  have T4: "count_calls (is_subscribe h) rt2 = count_calls (is_subscribe h) rt1"
    "count_calls (is_consume h) rt2 = count_calls (is_consume h) rt1"
    "count_calls (is_unsubscribe h) rt2 = count_calls (is_unsubscribe h) rt1" for h
    using T3 [of "is_subscribe h"] T3 [of "is_consume h"] T3 [of "is_unsubscribe h" h] by simp_all
  have chs: "channels rt1 = channels rt" using unwind_subscriptions_more [OF U] runtime_more(1) by blast
  have "handles_ok (unwind nc rt) \<and> released (unwind nc rt)"
  proof (cases "js_ready rt")
    case True
    then have eq: "unwind nc rt = rt2\<lparr>channels := chs2\<rparr>"
      by (simp add: unwind_def teardownStreamConsumers_def U T js)
    have rel: "released (unwind nc rt)" by (simp add: eq released_def T1(1) sub2)
    have "count_calls (is_subscribe h) rt2 = count_calls (is_unsubscribe h) rt2" for h
      using assms U1(2) by (simp add: T4 el handles_ok_def)
    moreover have "count_calls (is_consume h) rt2 = count_calls (is_consume_stop h) rt2" for h
      using assms by (simp add: T2 T4 el h1 handles_ok_def)
    ultimately show ?thesis
      using rel T1(1) by (simp add: eq handles_ok_def h2 h2')
  next
    case False
    then have eq: "unwind nc rt = rt1\<lparr>channels := chs1\<rparr>"
      by (simp add: unwind_def teardownStreamConsumers_def U js)
    have no: "\<forall>ch \<in> set (channels rt). cs_streamConsume ch = None"
      using assms False unfolding handles_ok_def by blast
    have rel: "released (unwind nc rt)" using U1(1) no cons1 by (auto simp: eq released_def)
    have "count_calls (is_subscribe h) rt1 = count_calls (is_unsubscribe h) rt1" for h
      using assms U1(2) by (simp add: el handles_ok_def)
    moreover have "count_calls (is_consume h) rt1 = count_calls (is_consume_stop h) rt1 + held cs_streamConsume h chs1" for h
      using assms by (simp add: el h1 handles_ok_def)
    ultimately show ?thesis
      using rel no cons1 by (simp add: eq handles_ok_def h1')
  qed
  then show "handles_ok (unwind nc rt)" "released (unwind nc rt)" by simp_all
qed

text \<open>Counting the calls on one handle, after a roll-back: each opened handle is released once.\<close>

lemma released_balance:
  assumes "handles_ok rt" and "released rt"
  shows "count_calls (is_unsubscribe h) rt = count_calls (is_subscribe h) rt"
    and "count_calls (is_consume_stop h) rt = count_calls (is_consume h) rt"
  using assms by (simp_all add: handles_ok_def released_def held_none)

section \<open>Durable consumers survive\<close>

text \<open>With durable stream channels only, nothing the imp does deletes a consumer.\<close>

lemma consume_stream_keeps:
  "nothing_deleted rt \<Longrightarrow> nothing_deleted (snd (consume_stream nc sp src c nm False rt))"
  by (auto simp: consume_stream_def nothing_deleted_def Let_def split: prod.split sum.split)

lemma ensureJetStream_keeps:
  "ensureJetStream nc rt = (e, rt') \<Longrightarrow> nothing_deleted rt \<Longrightarrow> nothing_deleted rt'"
  using ensureJetStream_handles(3,4) [of nc rt e rt'] by (simp add: nothing_deleted_def)

lemma resolveConsumer_keeps:
  "resolveConsumer nc js st src d rt = (r, rt') \<Longrightarrow> nothing_deleted rt \<Longrightarrow> nothing_deleted rt'"
  using resolveConsumer_handles [of nc js st src d rt r rt'] by (simp add: nothing_deleted_def same_handles_def)

lemma bindStreamChannel_keeps:
  assumes "nothing_deleted rt" and "src_Durable src \<noteq> []"
  shows "nothing_deleted (snd (bindStreamChannel nc js sp src rt))"
proof -
  obtain e rt1 where E: "ensureJetStream nc rt = (e, rt1)" by force
  have 1: "nothing_deleted rt1" using ensureJetStream_keeps [OF E assms(1)] .
  obtain se n where S: "JsStream nc (src_Stream src) (net rt1) = (se, n)" by force
  obtain r rt3 where R: "resolveConsumer nc js (src_Stream src) src
      (buildConsumerConfig js src (src_FilterSubject src)) (rt1\<lparr>net := n\<rparr>) = (r, rt3)" by force
  have 3: "nothing_deleted rt3" using resolveConsumer_keeps [OF R] 1 by simp
  have eph: "r = Returned (Inr (c, nm, eph)) \<Longrightarrow> \<not> eph" for c nm eph
    using resolveConsumer_ephemeral R assms(2) by blast
  show ?thesis using 1 3 eph consume_stream_keeps [OF 3]
    by (auto simp: bindStreamChannel_def E S R Let_def prod.case_eq_if
        split: option.split outcome.split sum.split)
qed

lemma bindSubjectChannel_keeps:
  "nothing_deleted rt \<Longrightarrow> nothing_deleted (snd (bindSubjectChannel nc sp subject rt))"
  by (auto simp: bindSubjectChannel_def nothing_deleted_def Let_def prod.case_eq_if split: sum.split)

lemma bind_channel_keeps:
  assumes "nothing_deleted rt" and "durable_source (ch_Source ch)"
  shows "nothing_deleted (snd (bind_channel i ch rt))"
  using assms bindSubjectChannel_keeps bindStreamChannel_keeps
  by (auto simp: bind_channel_def prod.case_eq_if split: option.split Source.split)

lemma start_keeps:
  "nothing_deleted rt \<Longrightarrow> \<forall>ch \<in> set chs. durable_source (ch_Source ch) \<Longrightarrow>
   nothing_deleted (snd (start i chs rt))"
proof (induction i chs rt rule: start.induct)
  case (2 i ch chs rt)
  then show ?case using bind_channel_keeps [of rt ch i]
    by (auto split: prod.split outcome.split option.split)
qed simp

lemma all_map:
  assumes "map f xs = map f ys"
  shows "(\<forall>x \<in> set xs. \<not> f x) = (\<forall>x \<in> set ys. \<not> f x)"
proof -
  have "(\<forall>x \<in> set zs. \<not> f x) = (\<forall>b \<in> set (map f zs). \<not> b)" for zs by simp
  then show ?thesis by (simp only: assms)
qed

lemma unwind_keeps:
  assumes "nothing_deleted rt"
  shows "nothing_deleted (unwind nc rt)"
proof -
  obtain chs1 rt1 where U: "unwind_subscriptions nc (channels rt) rt = (chs1, rt1)" by force
  obtain chs2 rt2 where T: "teardown_channels nc chs1 (rt1\<lparr>channels := chs1\<rparr>) = (chs2, rt2)" by force
  note U1 = unwind_subscriptions_handles [OF U]
  have e1: "\<forall>ch \<in> set chs1. \<not> cs_ephemeral ch"
    using all_map [OF U1(4)] assms by (simp add: nothing_deleted_def)
  have e2: "\<forall>ch \<in> set chs2. \<not> cs_ephemeral ch"
    using all_map [OF teardown_channels_channels(3) [OF T]] e1 by simp
  have d1: "count_calls is_delete rt1 = 0"
    using U1(5) [of is_delete] assms by (simp add: nothing_deleted_def)
  have d2: "count_calls is_delete rt2 = 0"
    using teardown_channels_deletes [OF T e1] d1 by simp
  show ?thesis
    by (simp add: unwind_def teardownStreamConsumers_def U T nothing_deleted_def e1 e2 d1 d2)
qed

section \<open>What binding leaves alone\<close>

text \<open>Calls other than those that open and release handles.\<close>

fun is_binding :: "'a effect \<Rightarrow> bool" where
  "is_binding (ESubscribe _ _) = True" | "is_binding (EUnsubscribe _) = True"
| "is_binding (EConsume _ _ _) = True" | "is_binding (EConsumeStop _) = True"
| "is_binding (ECreateConsumer _ _ _) = True" | "is_binding (EDeleteConsumer _ _) = True"
| "is_binding _ = False"

definition quiet :: "('a effect \<Rightarrow> bool) \<Rightarrow> bool" where
  "quiet P \<longleftrightarrow> (\<forall>e. is_binding e \<longrightarrow> \<not> P e)"

lemma quiet_dest:
  assumes "quiet P"
  shows "\<not> P (ESubscribe a h)" "\<not> P (EUnsubscribe h)" "\<not> P (EConsume a b h)"
    "\<not> P (EConsumeStop h)" "\<not> P (ECreateConsumer a b c)" "\<not> P (EDeleteConsumer a b)"
  using assms by (auto simp: quiet_def)

lemma quiet_simps [simp]: "quiet is_launch" "quiet is_nak" "quiet is_request"
proof -
  have "is_binding e \<Longrightarrow> \<not> is_launch e \<and> \<not> is_nak e \<and> \<not> is_request e" for e :: "'x effect"
    by (cases e) auto
  then show "quiet (is_launch :: 'x effect \<Rightarrow> bool)" "quiet (is_nak :: 'x effect \<Rightarrow> bool)"
    "quiet (is_request :: 'x effect \<Rightarrow> bool)"
    by (auto simp: quiet_def)
qed

definition bound :: "('a, 'n) runtime \<Rightarrow> ('a, 'n) runtime \<Rightarrow> bool" where
  "bound rt rt' \<longleftrightarrow> untouched rt rt' \<and> (\<forall>P. quiet P \<longrightarrow> count_calls P rt' = count_calls P rt)"

lemma bound_refl [simp]: "bound rt rt"
  by (simp add: bound_def untouched_def)

lemma bound_trans: "bound a b \<Longrightarrow> bound b c \<Longrightarrow> bound a c"
  by (simp add: bound_def untouched_def)

lemma bound_simps [simp]:
  "bound rt (rt'\<lparr>net := n\<rparr>) = bound rt rt'" "bound rt (log l m rt') = bound rt rt'"
  "bound rt (rt'\<lparr>js_ready := b\<rparr>) = bound rt rt'" "bound rt (rt'\<lparr>channels := c\<rparr>) = bound rt rt'"
  "bound rt (rt'\<lparr>streams := x\<rparr>) = bound rt rt'"
  by (simp_all add: bound_def untouched_def)

lemma bound_emit: "is_binding e \<Longrightarrow> bound rt rt' \<Longrightarrow> bound rt (emit e rt')"
  by (cases e) (auto simp: bound_def untouched_def dest: quiet_dest)

lemma delete_consumer_bound: "bound rt (snd (delete_consumer nc st nm rt))"
  by (auto simp: delete_consumer_def Let_def prod.case_eq_if intro!: bound_emit)

lemma create_consumer_bound: "create_consumer nc st cfg rt = (r, rt') \<Longrightarrow> bound rt rt'"
  by (auto simp: create_consumer_def Let_def intro!: bound_emit split: prod.splits sum.splits)

lemma create_consumer_bound': "create_consumer nc st cfg (rt\<lparr>net := n\<rparr>) = (r, rt') \<Longrightarrow> bound rt rt'"
  using create_consumer_bound [of nc st cfg "rt\<lparr>net := n\<rparr>" r rt'] bound_trans [of rt "rt\<lparr>net := n\<rparr>"]
  by simp

lemma resolveConsumer_bound: "resolveConsumer nc js st src d rt = (r, rt') \<Longrightarrow> bound rt rt'"
  by (auto simp: resolveConsumer_def Let_def dest: create_consumer_bound create_consumer_bound'
      split: if_splits prod.splits sum.splits option.splits)

lemma consume_stream_bound: "bound rt (snd (consume_stream nc sp src c nm eph rt))"
proof -
  obtain r n where C: "Consume nc c (net rt) = (r, n)" by force
  have "bound rt (snd (delete_consumer nc st nm (rt\<lparr>net := n\<rparr>)))" for st nm
    by (rule bound_trans [of _ "rt\<lparr>net := n\<rparr>"]) (simp_all add: delete_consumer_bound)
  then show ?thesis
    by (auto simp: consume_stream_def C Let_def intro!: bound_emit split: sum.split)
qed

lemma ensureJetStream_bound: "ensureJetStream nc rt = (e, rt') \<Longrightarrow> bound rt rt'"
  by (auto simp: ensureJetStream_def Let_def split: prod.splits option.splits if_splits)

lemma bindStreamChannel_bound: "bound rt (snd (bindStreamChannel nc js sp src rt))"
proof -
  obtain e rt1 where E: "ensureJetStream nc rt = (e, rt1)" by force
  obtain se n where S: "JsStream nc (src_Stream src) (net rt1) = (se, n)" by force
  obtain r rt3 where R: "resolveConsumer nc js (src_Stream src) src
      (buildConsumerConfig js src (src_FilterSubject src)) (rt1\<lparr>net := n\<rparr>) = (r, rt3)" by force
  have 1: "bound rt rt1" using ensureJetStream_bound [OF E] .
  have 3: "bound rt rt3" using bound_trans [OF _ resolveConsumer_bound [OF R]] 1 by simp
  have 4: "bound rt (snd (consume_stream nc sp src c nm eph rt3))" for c nm eph
    using bound_trans [OF 3 consume_stream_bound] .
  show ?thesis using 1 3 4
    by (auto simp: bindStreamChannel_def E S R Let_def prod.case_eq_if
        split: option.split outcome.split sum.split)
qed

lemma bindSubjectChannel_bound: "bound rt (snd (bindSubjectChannel nc sp subject rt))"
  by (auto simp: bindSubjectChannel_def Let_def prod.case_eq_if intro!: bound_emit split: sum.split)

lemma bind_channel_bound: "bound rt (snd (bind_channel i ch rt))"
  using bindSubjectChannel_bound [of rt "imp_nc i" ch] bindStreamChannel_bound [of rt "imp_nc i" "imp_js i" ch]
  by (auto simp: bind_channel_def prod.case_eq_if split: option.split Source.split)

lemma unwind_bound: "bound rt (unwind nc rt)"
proof -
  obtain chs1 rt1 where U: "unwind_subscriptions nc (channels rt) rt = (chs1, rt1)" by force
  obtain chs2 rt2 where T: "teardown_channels nc chs1 (rt1\<lparr>channels := chs1\<rparr>) = (chs2, rt2)" by force
  have el: "quiet P \<Longrightarrow> elsewhere P" for P :: "'a effect \<Rightarrow> bool"
    by (simp add: elsewhere_def quiet_dest)
  have "quiet P \<Longrightarrow> count_calls P rt1 = count_calls P rt" for P
    using unwind_subscriptions_handles(5) [OF U] el by blast
  moreover have "quiet P \<Longrightarrow> count_calls P rt2 = count_calls P rt1" for P
    using teardown_channels_elsewhere [OF T] el by simp
  ultimately have "quiet P \<Longrightarrow> count_calls P (unwind nc rt) = count_calls P rt" for P
    by (simp add: unwind_def teardownStreamConsumers_def U T)
  with unwind_untouched show ?thesis by (simp add: bound_def)
qed

end
