(* ===== verification/Harness_Run.thy ===== *)
theory Harness_Run
  imports Harness_Facts
begin

text \<open>
  \<open>Run\<close> and \<open>Shutdown\<close> (\<open>imp.go\<close>) as goroutines: each call is a process that takes the
  blocks of its function one at a time, and the blocks of different calls, the delivery of
  messages and the steps of thinking goroutines interleave.
\<close>

section \<open>Processes\<close>

text \<open>Where a call of \<open>Run\<close> or \<open>Shutdown\<close> stands: the block it executes next.\<close>

datatype 'a proc =
    RunBoot
  | RunSwap
  | RunBind "'a ChannelSpec list"
  | RunFail gerr
  | RunUnwind gerr
  | RunReady
  | RunSelect
  | ShutEnter
  | ShutBegin
  | ShutUnwind
  | ShutCancel
  | ShutDrain
  | ShutStop
  | ShutClose
  | ShutWait
  | Finished "gerr option"

definition run_again :: "State \<Rightarrow> gerr" where
  "run_again st = Opaque (''imps: Run already invoked (state '' @ State_String st @ '')'')"

text \<open>
  The blocks work on the runtime handle; a block reached while the handle is nil panics.
\<close>

definition on_runtime ::
  "(('a, 'n) runtime \<Rightarrow> ('a proc \<times> ('a, 'n) runtime) outcome option) \<Rightarrow> ('a, 'n) Imp \<Rightarrow>
   ('a proc \<times> ('a, 'n) Imp) outcome option" where
  "on_runtime f i =
     (case rtPtr i of
        None \<Rightarrow> Some Panicked
      | Some rt \<Rightarrow>
          (case f rt of
             None \<Rightarrow> None
           | Some Panicked \<Rightarrow> Some Panicked
           | Some (Returned (p, rt')) \<Rightarrow> Some (Returned (p, i\<lparr>rtPtr := Some rt'\<rparr>))))"

abbreviation goto :: "'p \<Rightarrow> 'r \<Rightarrow> ('p \<times> 'r) outcome option" where
  "goto p rt \<equiv> Some (Returned (p, rt))"

text \<open>
  One block. \<open>cancelled\<close>: the context given to \<open>Run\<close> is done. \<open>first\<close> resolves the two
  selects: the first branch or the second. \<open>None\<close> is a block that has to wait.
\<close>

fun run_block :: "('a, 'n) Imp \<Rightarrow> bool \<Rightarrow> bool \<Rightarrow> 'a proc \<Rightarrow> ('a, 'n) runtime \<Rightarrow>
    ('a proc \<times> ('a, 'n) runtime) outcome option" where
  "run_block i cancelled first RunSwap rt =
     (case CompareAndSwap StateCreated StateStarting (machine rt) of
        (True, m) \<Rightarrow>
          goto (RunBind (Channels (imp_spec i))) (rt\<lparr>machine := m, history := history rt @ [StateStarting]\<rparr>)
      | (False, m) \<Rightarrow> goto (Finished (Some (run_again (Get m)))) rt)"
| "run_block i cancelled first (RunBind []) rt = goto RunReady rt"
| "run_block i cancelled first (RunBind (ch # chs)) rt =
     (case bind_channel i ch rt of
        (Returned None, rt') \<Rightarrow> goto (RunBind chs) rt'
      | (Returned (Some err), rt') \<Rightarrow> goto (RunFail err) rt'
      | (Panicked, rt') \<Rightarrow> Some Panicked)"
| "run_block i cancelled first (RunFail err) rt =
     goto (RunUnwind err) (log Error ''startup failed'' (set_state StateFailed rt))"
| "run_block i cancelled first (RunUnwind err) rt = goto (Finished (Some err)) (unwind (imp_nc i) rt)"
| "run_block i cancelled first RunReady rt =
     goto RunSelect (log Info ''imp ready'' (set_state StateRunning rt))"
| "run_block i cancelled first RunSelect rt =
     (if first then (if cancelled then goto ShutEnter rt else None)
      else if stopped rt then goto (Finished (shutdownErr rt)) rt else None)"
| "run_block i cancelled first ShutEnter rt =
     (if shutdownOnce rt then goto ShutWait rt else goto ShutBegin (rt\<lparr>shutdownOnce := True\<rparr>))"
| "run_block i cancelled first ShutBegin rt =
     goto ShutUnwind (log Info ''imp shutdown begin'' (set_state StateDraining rt))"
| "run_block i cancelled first ShutUnwind rt = goto ShutCancel (unwind (imp_nc i) rt)"
| "run_block i cancelled first ShutCancel rt = goto ShutDrain (rt\<lparr>thinkingCancelled := True\<rparr>)"
| "run_block i cancelled first ShutDrain rt =
     (case waitDrain (\<not> first) rt of
        None \<Rightarrow> None
      | Some (err, rt') \<Rightarrow> goto ShutStop (rt'\<lparr>shutdownErr := err\<rparr>))"
| "run_block i cancelled first ShutStop rt =
     goto ShutClose (log Info ''imp shutdown end'' (set_state StateStopped rt))"
| "run_block i cancelled first ShutClose rt = goto ShutWait (rt\<lparr>stopped := True\<rparr>)"
| "run_block i cancelled first ShutWait rt =
     (if stopped rt then goto (Finished (shutdownErr rt)) rt else None)"
| "run_block i cancelled first _ rt = None"

definition proc_step :: "bool \<Rightarrow> bool \<Rightarrow> 'n \<Rightarrow> 'a proc \<Rightarrow> ('a, 'n) Imp \<Rightarrow>
    ('a proc \<times> ('a, 'n) Imp) outcome option" where
  "proc_step cancelled first n p i =
     (case p of
        RunBoot \<Rightarrow>
          (case bootRuntime i n of
             (Some err, i') \<Rightarrow> goto (Finished (Some err)) i'
           | (None, i') \<Rightarrow> goto RunSwap i')
      | Finished _ \<Rightarrow> None
      | ShutEnter \<Rightarrow>
          (if rtPtr i = None then goto (Finished None) i
           else on_runtime (run_block i cancelled first ShutEnter) i)
      | _ \<Rightarrow> on_runtime (run_block i cancelled first p) i)"

section \<open>The system\<close>

text \<open>
  \<open>boot_net\<close> is the state of the client libraries before the runtime exists.
\<close>

record ('a, 'n) world =
  the_imp :: "('a, 'n) Imp"
  boot_net :: 'n
  procs :: "'a proc list"
  cancelled_runs :: "nat list"

datatype 'a move =
    CallRun
  | CallShutdown
  | Cancel nat
  | Step nat bool
  | Event "'a event"

definition move :: "'a move \<Rightarrow> ('a, 'n) world \<Rightarrow> ('a, 'n) world outcome option" where
  "move m w =
     (case m of
        CallRun \<Rightarrow> Some (Returned (w\<lparr>procs := procs w @ [RunBoot]\<rparr>))
      | CallShutdown \<Rightarrow> Some (Returned (w\<lparr>procs := procs w @ [ShutEnter]\<rparr>))
      | Cancel k \<Rightarrow> Some (Returned (w\<lparr>cancelled_runs := k # cancelled_runs w\<rparr>))
      | Step k first \<Rightarrow>
          (if k < length (procs w) then
             (case proc_step (k \<in> set (cancelled_runs w)) first (boot_net w) (procs w ! k) (the_imp w) of
                None \<Rightarrow> None
              | Some Panicked \<Rightarrow> Some Panicked
              | Some (Returned (p, i)) \<Rightarrow>
                  Some (Returned (w\<lparr>the_imp := i, procs := (procs w)[k := p]\<rparr>)))
           else None)
      | Event ev \<Rightarrow>
          (case rtPtr (the_imp w) of
             None \<Rightarrow> None
           | Some rt \<Rightarrow>
               (case handle (imp_env (the_imp w)) ev rt of
                  None \<Rightarrow> Some Panicked
                | Some rt' \<Rightarrow> Some (Returned (w\<lparr>the_imp := (the_imp w)\<lparr>rtPtr := Some rt'\<rparr>\<rparr>)))))"

text \<open>
  A schedule: moves that are not enabled are skipped, an unguarded panic ends the process.
\<close>

fun play :: "'a move list \<Rightarrow> ('a, 'n) world \<Rightarrow> ('a, 'n) world outcome" where
  "play [] w = Returned w"
| "play (m # ms) w =
     (case move m w of
        None \<Rightarrow> play ms w
      | Some Panicked \<Rightarrow> Panicked
      | Some (Returned w') \<Rightarrow> play ms w')"

definition new_world :: "('a, 'n) Imp \<Rightarrow> 'n \<Rightarrow> ('a, 'n) world" where
  "new_world i n = \<lparr>the_imp = i, boot_net = n, procs = [], cancelled_runs = []\<rparr>"

inductive reachable_from :: "('a, 'n) world \<Rightarrow> ('a, 'n) world \<Rightarrow> bool" for w0 where
  start_world: "reachable_from w0 w0"
| next_world: "reachable_from w0 w \<Longrightarrow> move m w = Some (Returned w') \<Longrightarrow> reachable_from w0 w'"

lemma play_reachable:
  "reachable_from w0 w \<Longrightarrow> play ms w = Returned w' \<Longrightarrow> reachable_from w0 w'"
proof (induction ms arbitrary: w)
  case (Cons m ms)
  then show ?case by (auto split: option.splits outcome.splits intro: next_world)
qed simp

section \<open>Control\<close>

text \<open>
  The states set by starting up and those set by shutting down. Exactly one call is in the
  middle of starting up while the former are just Starting, and exactly one is in the middle
  of shutting down while the once-flag is set and \<open>stopped\<close> is open.
\<close>

definition startup_states :: "State list \<Rightarrow> State list" where
  "startup_states h = filter (\<lambda>s. s \<in> {StateStarting, StateRunning, StateFailed}) h"

definition shutdown_states :: "State list \<Rightarrow> State list" where
  "shutdown_states h = filter (\<lambda>s. s \<in> {StateDraining, StateStopped}) h"

lemma states_simps [simp]:
  "startup_states [] = []" "shutdown_states [] = []"
  "startup_states [s] = (if s \<in> {StateStarting, StateRunning, StateFailed} then [s] else [])"
  "shutdown_states [s] = (if s \<in> {StateDraining, StateStopped} then [s] else [])"
  "startup_states (h @ [s]) = startup_states h @ (if s \<in> {StateStarting, StateRunning, StateFailed} then [s] else [])"
  "shutdown_states (h @ [s]) = shutdown_states h @ (if s \<in> {StateDraining, StateStopped} then [s] else [])"
  by (simp_all add: startup_states_def shutdown_states_def)

fun starter :: "'a proc \<Rightarrow> bool" where
  "starter (RunBind _) = True" | "starter (RunFail _) = True" | "starter RunReady = True"
| "starter _ = False"

fun closer :: "'a proc \<Rightarrow> bool" where
  "closer ShutBegin = True" | "closer ShutUnwind = True" | "closer ShutCancel = True"
| "closer ShutDrain = True" | "closer ShutStop = True" | "closer ShutClose = True"
| "closer _ = False"

record control =
  ct_machine :: Machine
  ct_history :: "State list"
  ct_once :: bool
  ct_stopped :: bool

definition control_of :: "('a, 'n) runtime \<Rightarrow> control" where
  "control_of rt = \<lparr>ct_machine = machine rt, ct_history = history rt, ct_once = shutdownOnce rt, ct_stopped = stopped rt\<rparr>"

fun proc_ok :: "control \<Rightarrow> 'a proc \<Rightarrow> bool" where
  "proc_ok c (RunUnwind _) = (startup_states (ct_history c) = [StateStarting, StateFailed])"
| "proc_ok c RunSelect = (startup_states (ct_history c) = [StateStarting, StateRunning])"
| "proc_ok c ShutBegin = (shutdown_states (ct_history c) = [])"
| "proc_ok c ShutUnwind = (shutdown_states (ct_history c) = [StateDraining])"
| "proc_ok c ShutCancel = (shutdown_states (ct_history c) = [StateDraining])"
| "proc_ok c ShutDrain = (shutdown_states (ct_history c) = [StateDraining])"
| "proc_ok c ShutStop = (shutdown_states (ct_history c) = [StateDraining])"
| "proc_ok c ShutClose = (shutdown_states (ct_history c) = [StateDraining, StateStopped])"
| "proc_ok c ShutWait = ct_once c"
| "proc_ok c _ = True"

abbreviation count :: "('p \<Rightarrow> bool) \<Rightarrow> 'p list \<Rightarrow> nat" where
  "count P ps \<equiv> length (filter P ps)"

definition control_ok :: "control \<Rightarrow> 'a proc list \<Rightarrow> bool" where
  "control_ok c ps \<longleftrightarrow>
     state (ct_machine c) = last (StateCreated # ct_history c) \<and>
     StateCreated \<notin> set (ct_history c) \<and>
     startup_states (ct_history c) \<in> {[], [StateStarting], [StateStarting, StateRunning], [StateStarting, StateFailed]} \<and>
     shutdown_states (ct_history c) \<in> {[], [StateDraining], [StateDraining, StateStopped]} \<and>
     (\<not> ct_once c \<longrightarrow> shutdown_states (ct_history c) = []) \<and>
     (ct_stopped c \<longrightarrow> ct_once c \<and> shutdown_states (ct_history c) = [StateDraining, StateStopped]) \<and>
     count starter ps = (if startup_states (ct_history c) = [StateStarting] then 1 else 0) \<and>
     count closer ps = (if ct_once c \<and> \<not> ct_stopped c then 1 else 0) \<and>
     (\<forall>p \<in> set ps. proc_ok c p)"

text \<open>Replacing one process in a list where it alone has a role.\<close>

lemma count_update:
  "k < length ps \<Longrightarrow>
   count P (ps[k := p]) + (if P (ps ! k) then 1 else 0) = count P ps + (if P p then 1 else 0)"
proof (induction ps arbitrary: k)
  case (Cons q ps)
  then show ?case by (cases k) auto
qed simp

lemma count_one_other:
  assumes "count P ps \<le> 1" and "k < length ps" and "P (ps ! k)" and "q \<in> set (ps[k := p])"
  shows "q = p \<or> (q \<in> set ps \<and> \<not> P q)"
proof (rule ccontr)
  assume no: "\<not> ?thesis"
  then have "q \<in> set ps" "P q" "q \<noteq> p" using assms(4) set_update_subset_insert by fastforce+
  obtain j where j: "j < length ps" "(ps[k := p]) ! j = q" using assms(4) by (auto simp: in_set_conv_nth)
  have "j \<noteq> k" using j \<open>q \<noteq> p\<close> assms(2) by auto
  then have "P (ps ! j)" using j \<open>P q\<close> by simp
  have "card {j, k} \<le> card {i. i < length ps \<and> P (ps ! i)}"
    using j assms(2,3) \<open>P (ps ! j)\<close> by (intro card_mono) auto
  then show False using assms(1) \<open>j \<noteq> k\<close> by (simp add: length_filter_conv_card)
qed

text \<open>The control skeleton of the blocks.\<close>

definition push :: "State \<Rightarrow> control \<Rightarrow> control" where
  "push st c = c\<lparr>ct_machine := (ct_machine c)\<lparr>state := st\<rparr>, ct_history := ct_history c @ [st]\<rparr>"

inductive control_move :: "control \<Rightarrow> 'a proc \<Rightarrow> 'a proc \<Rightarrow> control \<Rightarrow> bool" where
  swap: "state (ct_machine c) = StateCreated \<Longrightarrow> control_move c RunSwap (RunBind chs) (push StateStarting c)"
| swap_fail: "control_move c RunSwap (Finished e) c"
| bind: "starter p \<Longrightarrow> p \<noteq> RunReady \<Longrightarrow> starter q \<Longrightarrow> control_move c p q c"
| fail: "control_move c (RunFail e) (RunUnwind e) (push StateFailed c)"
| rolled_back: "control_move c (RunUnwind e) (Finished r) c"
| ready: "control_move c RunReady RunSelect (push StateRunning c)"
| select_ctx: "control_move c RunSelect ShutEnter c"
| select_stopped: "control_move c RunSelect (Finished r) c"
| late: "ct_once c \<Longrightarrow> control_move c ShutEnter ShutWait c"
| enter: "\<not> ct_once c \<Longrightarrow> control_move c ShutEnter ShutBegin (c\<lparr>ct_once := True\<rparr>)"
| begin_shutdown: "control_move c ShutBegin ShutUnwind (push StateDraining c)"
| unwound: "control_move c ShutUnwind ShutCancel c"
| cancel: "control_move c ShutCancel ShutDrain c"
| drained: "control_move c ShutDrain ShutStop c"
| stop: "control_move c ShutStop ShutClose (push StateStopped c)"
| close: "control_move c ShutClose ShutWait (c\<lparr>ct_stopped := True\<rparr>)"
| waited: "control_move c ShutWait (Finished r) c"

lemma push_simps [simp]:
  "ct_once (push s c) = ct_once c" "ct_stopped (push s c) = ct_stopped c"
  "ct_history (push s c) = ct_history c @ [s]" "state (ct_machine (push s c)) = s"
  by (simp_all add: push_def)

lemma proc_ok_starter [simp]: "starter p \<Longrightarrow> proc_ok c p"
  by (cases p) auto

lemma starter_closer: "starter p \<Longrightarrow> \<not> closer p"
  by (cases p) auto

text \<open>The processes that look at one of the two groups of states.\<close>

lemma proc_ok_push_startup:
  "proc_ok c p \<Longrightarrow> startup_states (ct_history c) \<in> {[], [StateStarting]} \<Longrightarrow>
   s \<in> {StateStarting, StateRunning, StateFailed} \<Longrightarrow> proc_ok (push s c) p"
  by (cases p) auto

lemma proc_ok_push_shutdown:
  "proc_ok c p \<Longrightarrow> \<not> closer p \<Longrightarrow> s \<in> {StateDraining, StateStopped} \<Longrightarrow> proc_ok (push s c) p"
  by (cases p) auto

lemma proc_ok_flags:
  "proc_ok c p \<Longrightarrow> proc_ok (c\<lparr>ct_once := True\<rparr>) p" "proc_ok c p \<Longrightarrow> proc_ok (c\<lparr>ct_stopped := b\<rparr>) p"
  by (cases p; auto)+

lemma control_move_ok:
  assumes "control_move c p q c'" and "control_ok c ps" and "k < length ps" and "ps ! k = p"
  shows "control_ok c' (ps[k := q])"
proof -
  have p: "p \<in> set ps" using assms(3,4) by auto
  then have pok: "proc_ok c p" using assms(2) by (simp add: control_ok_def)
  note st = count_update [OF assms(3), of starter q] and cl = count_update [OF assms(3), of closer q]
  have le: "count starter ps \<le> 1" "count closer ps \<le> 1"
    using assms(2) by (auto simp: control_ok_def)
  have pos: "starter p \<Longrightarrow> count starter ps = 1" "closer p \<Longrightarrow> count closer ps = 1"
    using le p by (metis One_nat_def Suc_leI filter_empty_conv le_antisym length_greater_0_conv)+
  have others: "\<forall>r \<in> set (ps[k := q]). r = q \<or> r \<in> set ps"
    using set_update_subset_insert by fastforce
  have others_cl: "closer p \<Longrightarrow> \<forall>r \<in> set (ps[k := q]). r = q \<or> r \<in> set ps \<and> \<not> closer r"
    using count_one_other [OF le(2) assms(3)] assms(4) by blast
  have all: "\<forall>r \<in> set ps. proc_ok c r" using assms(2) by (simp add: control_ok_def)
  note ok = assms(2) [unfolded control_ok_def]
  have hist: "state (ct_machine c) = last (StateCreated # ct_history c)" "StateCreated \<notin> set (ct_history c)"
    using ok by blast+
  have "count closer ps = (if ct_once c \<and> \<not> ct_stopped c then 1 else 0)" using ok by blast
  then have once: "closer p \<Longrightarrow> ct_once c \<and> \<not> ct_stopped c"
    using pos(2) by (cases "ct_once c \<and> \<not> ct_stopped c") simp_all
  have "count starter ps = (if startup_states (ct_history c) = [StateStarting] then 1 else 0)" using ok by blast
  then have mid: "starter p \<Longrightarrow> startup_states (ct_history c) = [StateStarting]"
    using pos(1) by (cases "startup_states (ct_history c) = [StateStarting]") simp_all
  have nil: "state (ct_machine c) = StateCreated \<Longrightarrow> ct_history c = []"
    using hist by (metis last.simps last_in_set)
  have oks: "\<forall>r \<in> set (ps[k := q]). proc_ok c' r"
    using assms(1)
  proof cases
    case (swap chs)
    then show ?thesis using others all nil proc_ok_push_startup by fastforce
  next
    case (fail e)
    then show ?thesis using others all mid proc_ok_push_startup by fastforce
  next
    case ready
    then show ?thesis using others all mid proc_ok_push_startup by fastforce
  next
    case begin_shutdown
    then show ?thesis using others_cl all pok proc_ok_push_shutdown by fastforce
  next
    case stop
    then show ?thesis using others_cl all pok proc_ok_push_shutdown by fastforce
  next
    case enter
    then show ?thesis using others all assms(2) proc_ok_flags by (fastforce simp: control_ok_def)
  next
    case close
    then show ?thesis using others all once proc_ok_flags by fastforce
  qed (use others all pok in auto)
  show ?thesis
    using assms(1)
  proof cases
    case (swap chs)
    then show ?thesis using assms(2,4) st cl oks nil by (auto simp: control_ok_def)
  next
    case (fail e)
    then show ?thesis using assms(2,4) st cl oks mid by (auto simp: control_ok_def)
  next
    case ready
    then show ?thesis using assms(2,4) st cl oks mid by (auto simp: control_ok_def)
  next
    case begin_shutdown
    then show ?thesis using assms(2,4) st cl oks pok once by (auto simp: control_ok_def)
  next
    case stop
    then show ?thesis using assms(2,4) st cl oks pok once by (auto simp: control_ok_def)
  next
    case enter
    then show ?thesis using assms(2,4) st cl oks by (auto simp: control_ok_def)
  next
    case close
    then show ?thesis using assms(2,4) st cl oks pok once by (auto simp: control_ok_def)
  next
    case bind
    then show ?thesis using ok assms(4) st cl oks starter_closer [of p] starter_closer [of q]
      by (simp add: control_ok_def)
  qed (use assms(2,4) st cl oks in \<open>auto simp: control_ok_def\<close>)
qed

section \<open>What a block does\<close>

text \<open>A block opens handles, releases handles, or touches neither handles nor counters.\<close>

definition same_resources :: "('a, 'n) runtime \<Rightarrow> ('a, 'n) runtime \<Rightarrow> bool" where
  "same_resources rt rt' \<longleftrightarrow>
     channels rt' = channels rt \<and> js_ready rt' = js_ready rt \<and> calls (effects rt') = calls (effects rt) \<and>
     mtr rt' = mtr rt \<and> tasks rt' = tasks rt \<and> thinkingWG rt' = thinkingWG rt \<and> registry rt' = registry rt"

lemma same_resources_simps [simp]:
  "same_resources rt rt" "same_resources rt (log l m rt') = same_resources rt rt'"
  "same_resources rt (set_state st rt) = True"
  "same_resources rt (rt\<lparr>thinkingCancelled := b\<rparr>) = True"
  "same_resources rt (rt\<lparr>shutdownErr := e\<rparr>) = True"
  "same_resources rt (rt'\<lparr>shutdownErr := e\<rparr>) = same_resources rt rt'"
  "same_resources rt (rt\<lparr>stopped := b\<rparr>) = True" "same_resources rt (rt\<lparr>shutdownOnce := b\<rparr>) = True"
  "same_resources rt (rt\<lparr>machine := mc, history := h\<rparr>) = True"
  by (simp_all add: same_resources_def set_state_def)

fun unwinder :: "'a proc \<Rightarrow> bool" where
  "unwinder (RunUnwind _) = True" | "unwinder ShutUnwind = True" | "unwinder _ = False"

lemma run_block_resources:
  assumes "run_block i cn f p rt = Some (Returned (q, rt'))"
  shows "(\<exists>ch. starter p \<and> rt' = snd (bind_channel i ch rt)) \<or>
         (unwinder p \<and> rt' = unwind (imp_nc i) rt) \<or>
         (\<not> unwinder p \<and> same_resources rt rt')"
  using assms
proof (cases "(i, cn, f, p, rt)" rule: run_block.cases)
  case (3 i cancelled first ch chs rt)
  then show ?thesis using assms
    by (auto split: prod.splits outcome.splits option.splits) (metis snd_conv)+
qed (auto simp: waitDrain_def split: prod.splits bool.splits if_splits)

text \<open>The refinement of the control skeleton.\<close>

lemma control_of_log [simp]: "control_of (log l m rt) = control_of rt"
  by (simp add: control_of_def)

lemma control_of_set_state [simp]: "control_of (set_state st rt) = push st (control_of rt)"
  by (simp add: control_of_def set_state_def push_def Set_def)

lemma control_of_untouched: "untouched rt rt' \<Longrightarrow> control_of rt' = control_of rt"
  by (simp add: untouched_def control_of_def)

lemma control_of_bound: "bound rt rt' \<Longrightarrow> control_of rt' = control_of rt"
  by (simp add: bound_def control_of_untouched)

lemma control_of_unwind [simp]: "control_of (unwind nc rt) = control_of rt"
  by (simp add: control_of_untouched unwind_untouched)

lemma control_of_bind: "bind_channel i ch rt = (r, rt') \<Longrightarrow> control_of rt' = control_of rt"
  using control_of_bound bind_channel_bound [of rt i ch] by simp

lemma control_of_fields:
  "control_of (rt\<lparr>thinkingCancelled := b\<rparr>) = control_of rt"
  "control_of (rt\<lparr>shutdownErr := e\<rparr>) = control_of rt"
  "control_of (rt\<lparr>stopped := True\<rparr>) = (control_of rt)\<lparr>ct_stopped := True\<rparr>"
  "control_of (rt\<lparr>shutdownOnce := True\<rparr>) = (control_of rt)\<lparr>ct_once := True\<rparr>"
  "ct_once (control_of rt) = shutdownOnce rt" "ct_machine (control_of rt) = machine rt"
  by (simp_all add: control_of_def push_def)

lemma run_block_control:
  assumes "run_block i cn f p rt = Some (Returned (q, rt'))"
  shows "control_move (control_of rt) p q (control_of rt')"
  using assms
proof (cases "(i, cn, f, p, rt)" rule: run_block.cases)
  case (1 i cancelled first rt)
  have "control_of (rt\<lparr>machine := ((machine rt)\<lparr>state := st\<rparr>), history := history rt @ [st]\<rparr>) = push st (control_of rt)" for st
    by (simp add: control_of_def push_def)
  with 1 assms show ?thesis
    by (auto simp: CompareAndSwap_def control_of_fields intro!: control_move.swap control_move.swap_fail
        split: if_splits)
next
  case (3 i cancelled first ch chs rt)
  then show ?thesis using assms
    by (auto split: prod.splits outcome.splits option.splits simp: control_of_bind intro!: control_move.bind)
next
  case (8 i cancelled first rt)
  then show ?thesis using assms
    by (auto simp: control_of_fields intro!: control_move.late control_move.enter split: if_splits)
qed (auto simp: waitDrain_def control_of_fields split: prod.splits bool.splits if_splits
       intro: control_move.intros)

section \<open>The invariant\<close>

definition binding_over :: "State list \<Rightarrow> 'a proc list \<Rightarrow> bool" where
  "binding_over h ps \<longleftrightarrow>
     (legal_path StateCreated h \<and> StateDraining \<in> set h \<and> ShutUnwind \<notin> set ps) \<or>
     (StateFailed \<in> set h \<and> (\<forall>err. RunUnwind err \<notin> set ps))"

text \<open>The processes that can exist before the runtime does.\<close>

fun early :: "'a proc \<Rightarrow> bool" where
  "early RunBoot = True" | "early RunSwap = True" | "early ShutEnter = True"
| "early (Finished _) = True" | "early _ = False"

text \<open>What \<open>Run\<close> and \<open>Shutdown\<close> keep; and with it the ledger, which the messages keep.\<close>

definition core_ok :: "('a, 'n) runtime \<Rightarrow> 'a proc list \<Rightarrow> bool" where
  "core_ok rt ps \<longleftrightarrow>
     control_ok (control_of rt) ps \<and> handles_ok rt \<and> (binding_over (history rt) ps \<longrightarrow> released rt)"

definition runtime_ok :: "('a, 'n) runtime \<Rightarrow> 'a proc list \<Rightarrow> bool" where
  "runtime_ok rt ps \<longleftrightarrow> core_ok rt ps \<and> ledger_ok rt"

definition world_ok :: "('a, 'n) world \<Rightarrow> bool" where
  "world_ok w \<longleftrightarrow>
     (case rtPtr (the_imp w) of
        None \<Rightarrow> \<forall>p \<in> set (procs w). early p
      | Some rt \<Rightarrow> rtOnce (the_imp w) \<and> runtime_ok rt (procs w))"

lemma handles_ok_same: "same_resources rt rt' \<Longrightarrow> handles_ok rt' = handles_ok rt"
  by (simp add: same_resources_def handles_ok_def count_calls_def)

lemma ledger_ok_same: "same_resources rt rt' \<Longrightarrow> ledger_ok rt' = ledger_ok rt"
  by (simp add: same_resources_def ledger_ok_def count_calls_def)

lemma released_same: "same_resources rt rt' \<Longrightarrow> released rt' = released rt"
  by (simp add: same_resources_def released_def)

lemma ledger_ok_bound: "bound rt rt' \<Longrightarrow> ledger_ok rt \<Longrightarrow> ledger_ok rt'"
  by (simp add: bound_def untouched_def ledger_ok_def)

lemma legal_paths:
  "legal_path StateStopped h \<longleftrightarrow> h = []"
  "legal_path StateFailed h \<longleftrightarrow> h = []"
  "legal_path StateDraining h \<longleftrightarrow> h = [] \<or> h = [StateStopped]"
  "legal_path StateRunning h \<longleftrightarrow> h = [] \<or> h = [StateDraining] \<or> h = [StateDraining, StateStopped]"
  "legal_path StateStarting h \<longleftrightarrow> h = [] \<or> h = [StateFailed] \<or> h = [StateRunning] \<or>
     h = [StateRunning, StateDraining] \<or> h = [StateRunning, StateDraining, StateStopped]"
  "legal_path StateCreated h \<longleftrightarrow> h = [] \<or> h = [StateStarting] \<or> h = [StateStarting, StateFailed] \<or>
     h = [StateStarting, StateRunning] \<or> h = [StateStarting, StateRunning, StateDraining] \<or>
     h = [StateStarting, StateRunning, StateDraining, StateStopped]"
proof -
  show st: "legal_path StateStopped h \<longleftrightarrow> h = []" for h by (cases h) auto
  show fa: "legal_path StateFailed h \<longleftrightarrow> h = []" for h by (cases h) auto
  show dr: "legal_path StateDraining h \<longleftrightarrow> h = [] \<or> h = [StateStopped]" for h
    by (cases h) (auto simp: st)
  show ru: "legal_path StateRunning h \<longleftrightarrow> h = [] \<or> h = [StateDraining] \<or> h = [StateDraining, StateStopped]" for h
    by (cases h) (auto simp: dr)
  show sa: "legal_path StateStarting h \<longleftrightarrow> h = [] \<or> h = [StateFailed] \<or> h = [StateRunning] \<or>
     h = [StateRunning, StateDraining] \<or> h = [StateRunning, StateDraining, StateStopped]" for h
    by (cases h) (auto simp: ru fa)
  show "legal_path StateCreated h \<longleftrightarrow> h = [] \<or> h = [StateStarting] \<or> h = [StateStarting, StateFailed] \<or>
     h = [StateStarting, StateRunning] \<or> h = [StateStarting, StateRunning, StateDraining] \<or>
     h = [StateStarting, StateRunning, StateDraining, StateStopped]" for h
    by (cases h) (auto simp: sa)
qed

text \<open>Legal histories that mention Draining.\<close>

lemma legal_draining:
  assumes "legal_path StateCreated h" and "StateDraining \<in> set h"
  shows "startup_states h = [StateStarting, StateRunning]"
  using assms by (auto simp: legal_paths startup_states_def)


lemma binding_over_no_starter:
  assumes "control_ok (control_of rt) ps" and "binding_over (history rt) ps" and "p \<in> set ps"
  shows "\<not> starter p"
proof
  assume "starter p"
  then have "count starter ps \<noteq> 0" using assms(3) by (auto simp: filter_empty_conv)
  then have eq: "startup_states (history rt) = [StateStarting]"
    using assms(1) by (auto simp: control_ok_def control_of_def split: if_splits)
  have "StateFailed \<notin> set (history rt)"
  proof
    assume "StateFailed \<in> set (history rt)"
    then have "StateFailed \<in> set (startup_states (history rt))" by (simp add: startup_states_def)
    then show False by (simp add: eq)
  qed
  then show False using assms(2) eq legal_draining by (auto simp: binding_over_def)
qed

lemma set_update_keeps: "x \<in> set ps \<Longrightarrow> ps ! k \<noteq> x \<Longrightarrow> x \<in> set (ps[k := q])"
  by (metis in_set_conv_nth length_list_update nth_list_update_neq)

text \<open>A block that neither opens nor releases handles cannot finish the binding by itself.\<close>

lemma binding_over_step:
  assumes over: "binding_over (ct_history c') (ps[k := q])" and mv: "control_move c p q c'"
    and k: "k < length ps" "ps ! k = p" and nu: "\<not> unwinder p"
  shows "binding_over (ct_history c) ps"
proof -
  have keep: "ShutUnwind \<notin> set (ps[k := q]) \<Longrightarrow> ShutUnwind \<notin> set ps"
    "RunUnwind e \<notin> set (ps[k := q]) \<Longrightarrow> RunUnwind e \<notin> set ps" for e
  proof -
    have "ps ! k \<noteq> ShutUnwind" "ps ! k \<noteq> RunUnwind e" using k nu by auto
    then show "ShutUnwind \<notin> set (ps[k := q]) \<Longrightarrow> ShutUnwind \<notin> set ps"
      "RunUnwind e \<notin> set (ps[k := q]) \<Longrightarrow> RunUnwind e \<notin> set ps"
      using set_update_keeps by metis+
  qed
  have q: "q \<in> set (ps[k := q])" using k(1) by (simp add: set_update_memI)
  have same: "ct_history c' = ct_history c \<Longrightarrow> ?thesis"
    using over keep by (auto simp: binding_over_def)
  show ?thesis
    using mv
  proof cases
    case (swap chs)
    then show ?thesis using over keep by (auto simp: binding_over_def legal_path_append)
  next
    case (fail e)
    then show ?thesis using over q keep by (auto simp: binding_over_def legal_paths)
  next
    case ready
    then show ?thesis using over keep by (auto simp: binding_over_def legal_paths)
  next
    case begin_shutdown
    then show ?thesis using over q keep by (auto simp: binding_over_def)
  next
    case stop
    then show ?thesis using over keep by (auto simp: binding_over_def legal_path_append)
  qed (use same in auto)
qed

lemma control_of_simps [simp]:
  "ct_history (control_of rt) = history rt" "ct_machine (control_of rt) = machine rt"
  "ct_once (control_of rt) = shutdownOnce rt" "ct_stopped (control_of rt) = stopped rt"
  by (simp_all add: control_of_def)

text \<open>Every block of every process keeps the invariant.\<close>

lemma run_block_core:
  assumes ok: "core_ok rt ps" and k: "k < length ps" "ps ! k = p"
    and run: "run_block i cn f p rt = Some (Returned (q, rt'))"
  shows "core_ok rt' (ps[k := q])"
proof -
  note ct = run_block_control [OF run]
  have c: "control_ok (control_of rt) ps" "handles_ok rt"
    using ok by (simp_all add: core_ok_def)
  have c': "control_ok (control_of rt') (ps[k := q])" using control_move_ok [OF ct c(1) k] .
  consider (bind) ch where "starter p" "rt' = snd (bind_channel i ch rt)"
    | (unwind) "unwinder p" "rt' = unwind (imp_nc i) rt"
    | (same) "\<not> unwinder p" "same_resources rt rt'"
    using run_block_resources [OF run] by blast
  then show ?thesis
  proof cases
    case bind
    have nu: "\<not> unwinder p" using bind(1) by (cases p) auto
    have "\<not> binding_over (history rt') (ps[k := q])"
    proof
      assume "binding_over (history rt') (ps[k := q])"
      then have "binding_over (history rt) ps"
        using binding_over_step [OF _ ct k nu] by simp
      then show False using binding_over_no_starter [OF c(1)] bind(1) k by (metis nth_mem)
    qed
    then show ?thesis
      using c' bind_channel_handles [OF c(2), of i ch] unfolding core_ok_def bind(2) by blast
  next
    case unwind
    then show ?thesis
      using c' c unwind_released [OF c(2)] by (simp add: core_ok_def)
  next
    case same
    then show ?thesis
      using c' c ok binding_over_step [OF _ ct k same(1)]
      by (simp add: core_ok_def handles_ok_same released_same)
  qed
qed

lemma run_block_ok:
  assumes "runtime_ok rt ps" and "k < length ps" "ps ! k = p"
    and run: "run_block i cn f p rt = Some (Returned (q, rt'))"
  shows "runtime_ok rt' (ps[k := q])"
proof -
  have "ledger_ok rt'"
    using run_block_resources [OF run] assms(1) ledger_ok_bound bind_channel_bound unwind_bound ledger_ok_same
    unfolding runtime_ok_def by blast
  then show ?thesis using run_block_core [OF _ assms(2-4)] assms(1) by (simp add: runtime_ok_def)
qed

lemma early_control: "\<forall>p \<in> set ps. early p \<Longrightarrow> control_ok (control_of (new_runtime i n)) ps"
proof -
  assume e: "\<forall>p \<in> set ps. early p"
  have none: "early p \<Longrightarrow> \<not> starter p \<and> \<not> closer p \<and> proc_ok (control_of (new_runtime i n)) p" for p :: "'a proc"
    by (cases p) auto
  then have "filter starter ps = []" "filter closer ps = []" "\<forall>p \<in> set ps. proc_ok (control_of (new_runtime i n)) p"
    using e by (auto simp: filter_empty_conv)
  then show ?thesis
    by (simp add: control_ok_def new_runtime_def control_of_def New_def rt.defs)
qed

lemma new_runtime_core: "\<forall>p \<in> set ps. early p \<Longrightarrow> core_ok (new_runtime i n) ps"
proof -
  assume "\<forall>p \<in> set ps. early p"
  moreover have "calls (effects (new_runtime i n)) = []" "channels (new_runtime i n) = []"
    "history (new_runtime i n) = []"
    by (simp_all add: new_runtime_def new_rt_def rt.defs)
  then have "handles_ok (new_runtime i n)" "\<not> binding_over (history (new_runtime i n)) ps"
    by (simp_all add: handles_ok_def count_calls_def binding_over_def)
  ultimately show ?thesis using early_control by (auto simp: core_ok_def)
qed

lemma new_runtime_ok: "\<forall>p \<in> set ps. early p \<Longrightarrow> runtime_ok (new_runtime i n) ps"
  using new_rt_ok [of "States (imp_spec i)" n] new_runtime_core
  by (simp add: runtime_ok_def ledger_ok_def new_runtime_def new_rt_def count_calls_def rt.defs)

text \<open>So does handling a message or letting a goroutine think.\<close>

lemma rt_more_update:
  fixes rt rt' :: "('a, 'n) runtime"
  assumes "rt.more rt' = rt.more rt"
  shows "rt' = rt\<lparr>mtr := mtr rt', effects := effects rt', net := net rt', registry := registry rt',
      thinkingCancelled := thinkingCancelled rt', thinkingWG := thinkingWG rt', tasks := tasks rt'\<rparr>"
  using assms by (intro rt.equality) simp_all

lemma rt_more_fields:
  fixes rt rt' :: "('a, 'n) runtime"
  assumes "rt.more rt' = rt.more rt"
  shows "channels rt' = channels rt" and "js_ready rt' = js_ready rt" and "history rt' = history rt"
    and "control_of rt' = control_of rt" and "shutdownErr rt' = shutdownErr rt" and "stopped rt' = stopped rt"
  by (subst rt_more_update [OF assms], simp add: control_of_def)+

lemma balanced_counts:
  assumes "balanced cs"
  shows "length (filter (is_unsubscribe h) cs) = length (filter (is_subscribe h) cs)"
    and "filter (is_consume h) cs = []" and "filter (is_consume_stop h) cs = []" and "filter is_delete cs = []"
proof -
  have no: "\<forall>e \<in> set cs. \<not> is_consumer_call e"
    using assms by (simp add: balanced_def filter_empty_conv)
  have "\<not> is_consumer_call e \<Longrightarrow> \<not> is_consume h e \<and> \<not> is_consume_stop h e \<and> \<not> is_delete e" for e :: "'a effect"
    by (cases e) auto
  with no show "filter (is_consume h) cs = []" "filter (is_consume_stop h) cs = []" "filter is_delete cs = []"
    by (auto simp: filter_empty_conv)
  show "length (filter (is_unsubscribe h) cs) = length (filter (is_subscribe h) cs)"
    using assms by (simp add: balanced_def)
qed

lemma ledger_step_handles:
  assumes "ledger_step rt rt'" and "handles_ok rt"
  shows "handles_ok rt'"
proof -
  obtain cs where cs: "calls (effects rt') = calls (effects rt) @ cs" "balanced cs"
    using assms(1) by (auto simp: ledger_step_def)
  have "rt.more rt' = rt.more rt" using assms(1) by (simp add: ledger_step_def)
  note f = rt_more_fields [OF this]
  show ?thesis
    using assms(2) by (simp add: handles_ok_def f count_calls_def cs(1) balanced_counts [OF cs(2)])
qed

lemma handle_ok:
  assumes "runtime_ok rt ps" and "handle env ev rt = Some rt'"
  shows "runtime_ok rt' ps"
proof -
  have st: "ledger_step rt rt'" using handle_ledger [OF assms(2)] .
  then have "rt.more rt' = rt.more rt" by (simp add: ledger_step_def)
  note f = rt_more_fields [OF this]
  show ?thesis
    using assms(1) ledger_step_handles [OF st] ledger_step_ok [OF _ st]
    by (simp add: runtime_ok_def core_ok_def f released_def)
qed

section \<open>Every reachable world\<close>

lemma control_ok_idle:
  assumes "control_ok c ps" and "\<not> starter p" "\<not> closer p" "proc_ok c p"
  shows "control_ok c (ps @ [p])"
  using assms by (simp add: control_ok_def)

lemma binding_over_add: "binding_over h (ps @ [p]) \<Longrightarrow> binding_over h ps"
  by (auto simp: binding_over_def)

lemma core_ok_idle:
  assumes "core_ok rt ps" and "\<not> starter p" "\<not> closer p" "\<And>c. proc_ok c p"
  shows "core_ok rt (ps @ [p])"
  using assms control_ok_idle binding_over_add unfolding core_ok_def by blast

lemma runtime_ok_idle:
  assumes "runtime_ok rt ps" and "\<not> starter p" "\<not> closer p" "\<And>c. proc_ok c p"
  shows "runtime_ok rt (ps @ [p])"
  using assms core_ok_idle unfolding runtime_ok_def by blast

text \<open>A process moving between blocks that do not touch the runtime.\<close>

lemma core_ok_replace:
  assumes "core_ok rt ps" and "k < length ps" and "early (ps ! k)" "early q"
  shows "core_ok rt (ps[k := q])"
proof -
  have roles: "\<not> starter p \<and> \<not> closer p \<and> \<not> unwinder p \<and> proc_ok c p" if "early p" for p :: "'a proc" and c
    using that by (cases p) auto
  have mem: "\<forall>p \<in> set (ps[k := q]). p = q \<or> p \<in> set ps" using set_update_subset_insert by fastforce
  have "count starter (ps[k := q]) = count starter ps" "count closer (ps[k := q]) = count closer ps"
    using count_update [OF assms(2), of starter q] count_update [OF assms(2), of closer q] roles assms(3,4) by auto
  then have "control_ok (control_of rt) (ps[k := q])"
    using assms(1) roles [OF assms(4)] mem by (auto simp: core_ok_def control_ok_def)
  moreover have "binding_over h (ps[k := q]) \<Longrightarrow> binding_over h ps" for h
  proof -
    have "ps ! k \<noteq> ShutUnwind" "ps ! k \<noteq> RunUnwind e" for e using assms(3) by auto
    then have "ShutUnwind \<in> set ps \<Longrightarrow> ShutUnwind \<in> set (ps[k := q])"
      "RunUnwind e \<in> set ps \<Longrightarrow> RunUnwind e \<in> set (ps[k := q])" for e
      using set_update_keeps by metis+
    then show "binding_over h (ps[k := q]) \<Longrightarrow> binding_over h ps" by (auto simp: binding_over_def)
  qed
  ultimately show ?thesis using assms(1) by (auto simp: core_ok_def)
qed

lemma runtime_ok_replace:
  assumes "runtime_ok rt ps" and "k < length ps" and "early (ps ! k)" "early q"
  shows "runtime_ok rt (ps[k := q])"
  using assms core_ok_replace unfolding runtime_ok_def by blast

lemma bootRuntime_cases:
  assumes "bootRuntime i n = (r, i')"
  obtains "rtOnce i" "r = None" "i' = i"
  | err where "\<not> rtOnce i" "r = Some err" "rtPtr i' = rtPtr i" "imp_spec i' = imp_spec i"
  | "\<not> rtOnce i" "r = None" "rtPtr i' = Some (new_runtime i n)" "rtOnce i'" "imp_spec i' = imp_spec i"
  using assms by (auto simp: bootRuntime_def Let_def split: if_splits)

lemma on_runtime_cases:
  assumes "on_runtime f i = Some (Returned (q, i'))"
  obtains rt rt' where "rtPtr i = Some rt" "f rt = Some (Returned (q, rt'))" "i' = i\<lparr>rtPtr := Some rt'\<rparr>"
  using assms by (auto simp: on_runtime_def split: option.splits outcome.splits prod.splits)

lemma early_update: "\<forall>p \<in> set ps. early p \<Longrightarrow> early q \<Longrightarrow> \<forall>p \<in> set (ps[k := q]). early p"
  using set_update_subset_insert by fastforce

lemma proc_step_on_runtime:
  "p \<noteq> RunBoot \<Longrightarrow> (\<forall>r. p \<noteq> Finished r) \<Longrightarrow> p \<noteq> ShutEnter \<or> rtPtr i \<noteq> None \<Longrightarrow>
   proc_step cn f n p i = on_runtime (run_block i cn f p) i"
  by (cases p) (auto simp: proc_step_def)

lemma proc_step_cases:
  assumes "proc_step cn f n p i = Some (Returned (q, i'))"
  obtains (boot) r where "p = RunBoot" "bootRuntime i n = (r, i')" "q = (case r of Some e \<Rightarrow> Finished (Some e) | None \<Rightarrow> RunSwap)"
  | (unbooted) "p = ShutEnter" "rtPtr i = None" "q = Finished None" "i' = i"
  | (block) rt rt' where "rtPtr i = Some rt" "run_block i cn f p rt = Some (Returned (q, rt'))" "i' = i\<lparr>rtPtr := Some rt'\<rparr>"
proof -
  consider "p = RunBoot" | "p = ShutEnter \<and> rtPtr i = None"
    | "p \<noteq> RunBoot" "\<forall>r. p \<noteq> Finished r" "p \<noteq> ShutEnter \<or> rtPtr i \<noteq> None"
  proof -
    have "p \<noteq> Finished r" for r using assms by (auto simp: proc_step_def)
    then show ?thesis using that by blast
  qed
  then show ?thesis
  proof cases
    case 1
    then show ?thesis using assms boot
      by (cases "bootRuntime i n") (auto simp: proc_step_def split: option.splits)
  next
    case 2
    then have "q = Finished None" "i' = i" using assms by (simp_all add: proc_step_def)
    then show ?thesis using 2 unbooted by simp
  next
    case 3
    from assms [unfolded proc_step_on_runtime [OF 3]] show ?thesis
      by (rule on_runtime_cases) (rule block)
  qed
qed

lemma proc_step_ok:
  assumes ok: "world_ok w" and k: "k < length (procs w)"
    and step: "proc_step cn f (boot_net w) (procs w ! k) (the_imp w) = Some (Returned (q, i'))"
  shows "world_ok (w\<lparr>the_imp := i', procs := (procs w)[k := q]\<rparr>)"
  using step
proof (cases rule: proc_step_cases)
  case (boot r)
  have eq: "early (procs w ! k)" "early q" using boot by (auto split: option.split)
  show ?thesis using boot(2)
  proof (cases rule: bootRuntime_cases)
    case 1
    then show ?thesis using ok eq k early_update runtime_ok_replace
      by (auto simp: world_ok_def split: option.splits)
  next
    case (2 err)
    then have "rtPtr (the_imp w) = None" using ok by (auto simp: world_ok_def split: option.splits)
    then show ?thesis using 2 ok early_update [OF _ eq(2), of "procs w" k] by (simp add: world_ok_def)
  next
    case 3
    then have "rtPtr (the_imp w) = None" using ok by (auto simp: world_ok_def split: option.splits)
    then have "\<forall>p \<in> set ((procs w)[k := q]). early p"
      using ok early_update [OF _ eq(2), of "procs w" k] by (simp add: world_ok_def)
    then show ?thesis using 3 new_runtime_ok by (auto simp: world_ok_def)
  qed
next
  case unbooted
  then show ?thesis using ok early_update [of "procs w" q k] by (simp add: world_ok_def)
next
  case (block rt rt')
  then show ?thesis using ok run_block_ok [OF _ k refl block(2)] by (auto simp: world_ok_def)
qed

lemma move_stepE:
  assumes "move (Step k f) w = Some (Returned w')"
  obtains q i' where "k < length (procs w)"
    and "proc_step (k \<in> set (cancelled_runs w)) f (boot_net w) (procs w ! k) (the_imp w) = Some (Returned (q, i'))"
    and "w' = w\<lparr>the_imp := i', procs := (procs w)[k := q]\<rparr>"
  using assms by (auto simp: move_def split: if_splits option.splits outcome.splits)

lemma move_ok:
  assumes "world_ok w" and "move m w = Some (Returned w')"
  shows "world_ok w'"
proof (cases m)
  case CallRun
  then show ?thesis using assms runtime_ok_idle [of _ "procs w" RunBoot]
    by (auto simp: move_def world_ok_def split: option.splits)
next
  case CallShutdown
  then show ?thesis using assms runtime_ok_idle [of _ "procs w" ShutEnter]
    by (auto simp: move_def world_ok_def split: option.splits)
next
  case (Cancel k)
  then show ?thesis using assms by (auto simp: move_def world_ok_def split: option.splits)
next
  case (Step k f)
  then show ?thesis using assms proc_step_ok
    by (auto simp: move_def split: if_splits option.splits outcome.splits)
next
  case (Event ev)
  then show ?thesis using assms handle_ok
    by (fastforce simp: move_def world_ok_def split: option.splits)
qed

definition fresh :: "('a, 'n) Imp \<Rightarrow> bool" where
  "fresh i \<longleftrightarrow> rtPtr i = None \<and> \<not> rtOnce i"

lemma reachable_world_ok:
  assumes "reachable_from (new_world i n) w" and "fresh i"
  shows "world_ok w"
  using assms
proof (induction rule: reachable_from.induct)
  case start_world
  then show ?case by (simp add: world_ok_def new_world_def fresh_def)
qed (blast intro: move_ok)

end
