(* ===== verification/Harness_Properties.thy ===== *)
theory Harness_Properties
  imports Harness_Run
begin

text \<open>
  What the calls of \<open>Run\<close> and \<open>Shutdown\<close> guarantee in every interleaving, and the
  interleavings in which the documented lifecycle is not respected.
\<close>

section \<open>Consequences of the invariant\<close>

definition running_world :: "('a, 'n) Imp \<Rightarrow> 'n \<Rightarrow> ('a, 'n) world \<Rightarrow> ('a, 'n) runtime \<Rightarrow> bool" where
  "running_world i n w rt \<longleftrightarrow> fresh i \<and> reachable_from (new_world i n) w \<and> rtPtr (the_imp w) = Some rt"

lemma running_world_ok:
  assumes "running_world i n w rt"
  shows "control_ok (control_of rt) (procs w)" and "handles_ok rt" and "ledger_ok rt"
    and "binding_over (history rt) (procs w) \<Longrightarrow> released rt"
  using reachable_world_ok [of i n w] assms
  by (auto simp: running_world_def world_ok_def runtime_ok_def core_ok_def)

lemma control_facts:
  assumes "control_ok (control_of rt) ps"
  shows "rt_state rt = last (StateCreated # history rt)"
    and "startup_states (history rt) \<in> {[], [StateStarting], [StateStarting, StateRunning], [StateStarting, StateFailed]}"
    and "shutdown_states (history rt) \<in> {[], [StateDraining], [StateDraining, StateStopped]}"
    and "stopped rt \<Longrightarrow> shutdown_states (history rt) = [StateDraining, StateStopped]"
    and "StateCreated \<notin> set (history rt)"
    and "count starter ps \<le> 1" and "count closer ps \<le> 1"
    and "stopped rt \<Longrightarrow> count closer ps = 0"
    and "p \<in> set ps \<Longrightarrow> proc_ok (control_of rt) p"
  using assms by (auto simp: control_ok_def rt_state_def Get_def split: if_splits)

lemma history_partition:
  "StateCreated \<notin> set h \<Longrightarrow> h \<in> shuffles (startup_states h) (shutdown_states h)"
proof (induction h)
  case (Cons s h)
  then have "h \<in> shuffles (startup_states h) (shutdown_states h)" by simp
  then show ?case using Cons.prems
    by (cases s) (auto simp: startup_states_def shutdown_states_def
        intro: Cons_in_shuffles_leftI Cons_in_shuffles_rightI)
qed (simp add: startup_states_def shutdown_states_def)

text \<open>In the states a history can consist of, legality is about where Draining comes.\<close>

lemma shuffled_legal:
  assumes "h \<in> shuffles xs ys"
    and "xs \<in> {[], [StateStarting], [StateStarting, StateRunning], [StateStarting, StateFailed]}"
    and "ys \<in> {[], [StateDraining], [StateDraining, StateStopped]}"
  shows "legal_path StateCreated h \<longleftrightarrow>
    (StateDraining \<in> set h \<longrightarrow> takeWhile (\<lambda>s. s \<noteq> StateDraining) h = [StateStarting, StateRunning])"
    and "distinct h"
  using assms by (auto simp: legal_paths)

lemma running_history:
  assumes "running_world i n w rt"
  shows "history rt \<in> shuffles (startup_states (history rt)) (shutdown_states (history rt))"
  using history_partition control_facts(5) [OF running_world_ok(1) [OF assms]] by blast

lemma legal_startup:
  assumes "control_ok (control_of rt) ps" and "stopped rt" and "legal_path StateCreated (history rt)"
  shows "startup_states (history rt) = [StateStarting, StateRunning]" and "StateDraining \<in> set (history rt)"
proof -
  let ?h = "history rt"
  note c = control_facts [OF assms(1)]
  have st: "shutdown_states ?h = [StateDraining, StateStopped]" using c(4) assms(2) by blast
  then have "StateDraining \<in> set (shutdown_states ?h)" by simp
  then show d: "StateDraining \<in> set ?h" by (simp add: shutdown_states_def)
  have "?h \<in> shuffles (startup_states ?h) (shutdown_states ?h)" using history_partition c(5) by blast
  from shuffled_legal(1) [OF this c(2,3)] d assms(3)
  have tw: "takeWhile (\<lambda>s. s \<noteq> StateDraining) ?h = [StateStarting, StateRunning]" by blast
  have "startup_states ?h = startup_states (takeWhile (\<lambda>s. s \<noteq> StateDraining) ?h) @
      startup_states (dropWhile (\<lambda>s. s \<noteq> StateDraining) ?h)"
    unfolding startup_states_def by (metis filter_append takeWhile_dropWhile_id)
  then have "startup_states ?h = [StateStarting, StateRunning] @ startup_states (dropWhile (\<lambda>s. s \<noteq> StateDraining) ?h)"
    by (simp add: tw startup_states_def)
  then show "startup_states ?h = [StateStarting, StateRunning]" using c(2) by auto
qed

lemma core_released:
  assumes "core_ok rt ps" and "stopped rt" and "legal_path StateCreated (history rt)"
  shows "released rt"
proof -
  have c: "control_ok (control_of rt) ps" using assms(1) by (simp add: core_ok_def)
  have "ShutUnwind \<notin> set ps"
    using control_facts(9) [OF c, of ShutUnwind] control_facts(4) [OF c assms(2)] by auto
  then have "binding_over (history rt) ps"
    using legal_startup(2) [OF c assms(2,3)] assms(3) by (simp add: binding_over_def)
  then show ?thesis using assms(1) by (simp add: core_ok_def)
qed

lemma stopped_handles:
  assumes "running_world i n w rt" and "stopped rt" and "legal_path StateCreated (history rt)"
  shows "released rt"
proof -
  have "core_ok rt (procs w)"
    using reachable_world_ok [of i n w] assms(1) by (auto simp: running_world_def world_ok_def runtime_ok_def)
  then show ?thesis using core_released assms(2,3) by blast
qed

section \<open>Shutting down takes a bounded number of blocks\<close>

lemma move_block:
  assumes "k < length (procs w)" and "procs w ! k = p" and "rtPtr (the_imp w) = Some rt"
    and "run_block (the_imp w) (k \<in> set (cancelled_runs w)) False p rt = Some (Returned (q, rt'))"
    and "p \<noteq> RunBoot" "\<forall>r. p \<noteq> Finished r"
  shows "\<exists>w'. move (Step k False) w = Some (Returned w') \<and> k < length (procs w') \<and> procs w' ! k = q \<and>
    rtPtr (the_imp w') = Some rt'"
  using assms by (simp add: move_def proc_step_on_runtime on_runtime_def)

fun closing_rank :: "'a proc \<Rightarrow> nat" where
  "closing_rank ShutBegin = 7" | "closing_rank ShutUnwind = 6" | "closing_rank ShutCancel = 5"
| "closing_rank ShutDrain = 4" | "closing_rank ShutStop = 3" | "closing_rank ShutClose = 2"
| "closing_rank ShutWait = 1" | "closing_rank _ = 0"

lemma closing_block:
  assumes "closing_rank p = Suc r" and "p = ShutWait \<Longrightarrow> stopped rt"
  shows "\<exists>q rt'. run_block i c False p rt = Some (Returned (q, rt')) \<and>
    closing_rank q = r \<and> (q = ShutWait \<longrightarrow> stopped rt') \<and> (r = 0 \<longrightarrow> (\<exists>e. q = Finished e)) \<and>
    p \<noteq> RunBoot \<and> (\<forall>e. p \<noteq> Finished e)"
  using assms by (cases p) (auto simp: waitDrain_def)

lemma closing_finishes:
  assumes "closing_rank (procs w ! k) = r" and "r > 0" and "k < length (procs w)"
    and "rtPtr (the_imp w) = Some rt" and "procs w ! k = ShutWait \<Longrightarrow> stopped rt"
  shows "\<exists>w' e. play (replicate r (Step k False)) w = Returned w' \<and> procs w' ! k = Finished e"
  using assms
proof (induction r arbitrary: w rt)
  case (Suc r)
  obtain q rt' where b: "run_block (the_imp w) (k \<in> set (cancelled_runs w)) False (procs w ! k) rt = Some (Returned (q, rt'))"
    and q: "closing_rank q = r" "q = ShutWait \<longrightarrow> stopped rt'" "r = 0 \<longrightarrow> (\<exists>e. q = Finished e)"
    and p: "procs w ! k \<noteq> RunBoot" "\<forall>e. procs w ! k \<noteq> Finished e"
    using closing_block [OF Suc.prems(1) Suc.prems(5)] by blast
  obtain w1 where w1: "move (Step k False) w = Some (Returned w1)" "k < length (procs w1)" "procs w1 ! k = q"
    "rtPtr (the_imp w1) = Some rt'"
    using move_block [OF Suc.prems(3) refl Suc.prems(4) b p] by blast
  show ?case
  proof (cases r)
    case 0
    then show ?thesis using w1 q(3) by auto
  next
    case (Suc r')
    then show ?thesis using Suc.IH [OF _ _ w1(2,4)] q w1 by auto
  qed
qed simp

section \<open>The result of a shutdown is final\<close>

lemma block_final:
  assumes "control_ok (control_of rt) ps" and "p \<in> set ps" and "stopped rt"
    and "run_block i c f p rt = Some (Returned (q, rt'))"
  shows "stopped rt' \<and> shutdownErr rt' = shutdownErr rt"
proof -
  have "filter closer ps = []" using control_facts(8) [OF assms(1,3)] by simp
  then have nc: "\<not> closer p" using assms(2) by (auto simp: filter_empty_conv)
  have b: "stopped rt2 = stopped rt \<and> shutdownErr rt2 = shutdownErr rt" if "bound rt rt2" for rt2
    using that by (simp add: bound_def untouched_def)
  show ?thesis
    using assms(3,4) nc b [OF bind_channel_bound] b [OF unwind_bound]
  proof (cases "(i, c, f, p, rt)" rule: run_block.cases)
    case (3 i cancelled first ch chs rt)
    then show ?thesis using assms(3,4) b [OF bind_channel_bound, of i ch]
      by (auto split: prod.splits outcome.splits option.splits)
  qed (auto simp: CompareAndSwap_def set_state_def log_def emit_def split: if_splits)
qed

lemma move_final:
  assumes "world_ok w" and "move m w = Some (Returned w')" and "rtPtr (the_imp w) = Some rt" and "stopped rt"
  shows "\<exists>rt'. rtPtr (the_imp w') = Some rt' \<and> stopped rt' \<and> shutdownErr rt' = shutdownErr rt"
proof (cases m)
  case (Step k f)
  obtain q i' where k: "k < length (procs w)"
    and st: "proc_step (k \<in> set (cancelled_runs w)) f (boot_net w) (procs w ! k) (the_imp w) = Some (Returned (q, i'))"
    and w': "w' = w\<lparr>the_imp := i', procs := (procs w)[k := q]\<rparr>"
    using move_stepE [OF assms(2) [unfolded Step]] .
  have i': "the_imp w' = i'" by (simp add: w')
  have ok: "control_ok (control_of rt) (procs w)" "rtOnce (the_imp w)"
    using assms(1,3) by (auto simp: world_ok_def runtime_ok_def core_ok_def)
  show ?thesis using st
  proof (cases rule: proc_step_cases)
    case (boot r)
    then show ?thesis using ok(2) assms(3,4) i' by (auto simp: bootRuntime_def)
  next
    case unbooted
    then show ?thesis using assms(3) by simp
  next
    case (block rt1 rt2)
    then have "rt1 = rt" using assms(3) by simp
    then show ?thesis
      using block_final [OF ok(1) nth_mem [OF k] assms(4)] block(2,3) i' by auto
  qed
next
  case (Event ev)
  then obtain rt' where h: "handle (imp_env (the_imp w)) ev rt = Some rt'" and w': "rtPtr (the_imp w') = Some rt'"
    using assms(2,3) by (auto simp: move_def split: option.splits)
  have "rt.more rt' = rt.more rt" using handle_ledger [OF h] by (simp add: ledger_step_def)
  from rt_more_fields(5,6) [OF this] show ?thesis using w' assms(4) by simp
qed (use assms in \<open>auto simp: move_def\<close>)

lemma reachable_final:
  assumes "reachable_from w w'" and "world_ok w" and "rtPtr (the_imp w) = Some rt" and "stopped rt"
  shows "\<exists>rt'. rtPtr (the_imp w') = Some rt' \<and> stopped rt' \<and> shutdownErr rt' = shutdownErr rt"
proof -
  have "world_ok w' \<and> (\<exists>rt'. rtPtr (the_imp w') = Some rt' \<and> stopped rt' \<and> shutdownErr rt' = shutdownErr rt)"
    using assms
  proof (induction rule: reachable_from.induct)
    case (next_world w1 m w2)
    then show ?case using move_ok move_final by metis
  qed auto
  then show ?thesis by blast
qed

section \<open>Durable channels\<close>

definition binds_declared :: "('a, 'n) world \<Rightarrow> bool" where
  "binds_declared w \<longleftrightarrow>
     (\<forall>chs. RunBind chs \<in> set (procs w) \<longrightarrow> set chs \<subseteq> set (Channels (imp_spec (the_imp w))))"

definition all_durable :: "('a, 'n) ImpSpec \<Rightarrow> bool" where
  "all_durable sp \<longleftrightarrow> list_all (\<lambda>ch. durable_source (ch_Source ch)) (Channels sp)"

definition durable_ok :: "('a, 'n) ImpSpec \<Rightarrow> ('a, 'n) world \<Rightarrow> bool" where
  "durable_ok sp w \<longleftrightarrow> imp_spec (the_imp w) = sp \<and> binds_declared w \<and>
     (case rtPtr (the_imp w) of None \<Rightarrow> True | Some rt \<Rightarrow> nothing_deleted rt)"

lemma nothing_deleted_same: "same_resources rt rt' \<Longrightarrow> nothing_deleted rt' = nothing_deleted rt"
  by (simp add: same_resources_def nothing_deleted_def count_calls_def)

lemma run_block_binds:
  assumes "run_block i c f p rt = Some (Returned (q, rt'))" and "q = RunBind chs"
  shows "chs = Channels (imp_spec i) \<or> (\<exists>ch. p = RunBind (ch # chs))"
  using assms
proof (cases "(i, c, f, p, rt)" rule: run_block.cases)
  case (3 i cancelled first ch chs rt)
  then show ?thesis using assms by (auto split: prod.splits outcome.splits option.splits)
qed (auto split: prod.splits bool.splits option.splits if_splits)

lemma run_block_deletes:
  assumes "run_block i c f p rt = Some (Returned (q, rt'))" and "nothing_deleted rt"
    and "\<forall>chs. p = RunBind chs \<longrightarrow> (\<forall>ch \<in> set chs. durable_source (ch_Source ch))"
  shows "nothing_deleted rt'"
proof -
  have r: "(\<exists>ch chs. p = RunBind (ch # chs) \<and> rt' = snd (bind_channel i ch rt)) \<or>
      rt' = unwind (imp_nc i) rt \<or> same_resources rt rt'"
    using assms(1)
  proof (cases "(i, c, f, p, rt)" rule: run_block.cases)
    case (3 i cancelled first ch chs rt)
    then show ?thesis using assms(1)
      by (auto split: prod.splits outcome.splits option.splits)
  qed (auto simp: waitDrain_def split: prod.splits bool.splits if_splits)
  then show ?thesis
    using assms(2,3) bind_channel_keeps [OF assms(2), of _ i] unwind_keeps [OF assms(2)]
      nothing_deleted_same [of rt rt']
    by auto
qed

lemma binds_update:
  assumes "binds_declared w" and "imp_spec i' = imp_spec (the_imp w)"
    and "\<forall>chs. q = RunBind chs \<longrightarrow> set chs \<subseteq> set (Channels (imp_spec (the_imp w)))"
  shows "binds_declared (w\<lparr>the_imp := i', procs := (procs w)[k := q]\<rparr>)"
proof -
  have "p = q \<or> p \<in> set (procs w)" if "p \<in> set ((procs w)[k := q])" for p
    using that set_update_subset_insert by fastforce
  then show ?thesis using assms unfolding binds_declared_def by (simp add: assms(2)) blast
qed

lemma binds_more:
  "binds_declared w \<Longrightarrow> (\<forall>chs. p \<noteq> RunBind chs) \<Longrightarrow> binds_declared (w\<lparr>procs := procs w @ [p]\<rparr>)"
  "binds_declared w \<Longrightarrow> binds_declared (w\<lparr>cancelled_runs := c\<rparr>)"
  unfolding binds_declared_def by (auto dest: not_sym)

lemma durable_move:
  assumes "durable_ok sp w" and "all_durable sp" and "move m w = Some (Returned w')"
  shows "durable_ok sp w'"
proof (cases m)
  case (Step k f)
  then have k: "k < length (procs w)" using assms(3) by (auto simp: move_def split: if_splits)
  obtain q i' where st: "proc_step (k \<in> set (cancelled_runs w)) f (boot_net w) (procs w ! k) (the_imp w)
      = Some (Returned (q, i'))" and w': "w' = w\<lparr>the_imp := i', procs := (procs w)[k := q]\<rparr>"
    using assms(3) Step by (auto simp: move_def split: if_splits option.splits outcome.splits)
  have d: "imp_spec (the_imp w) = sp" "binds_declared w" using assms(1) by (auto simp: durable_ok_def)
  show ?thesis using st
  proof (cases rule: proc_step_cases)
    case (boot r)
    have "q \<noteq> RunBind chs" for chs using boot(3) by (auto split: option.splits)
    moreover have "imp_spec i' = sp \<and> (case rtPtr i' of None \<Rightarrow> True | Some rt \<Rightarrow> nothing_deleted rt)"
      using boot(2) assms(1)
      by (cases rule: bootRuntime_cases)
         (auto simp: durable_ok_def nothing_deleted_def new_runtime_def new_rt_def count_calls_def rt.defs split: option.splits)
    ultimately show ?thesis using d w' binds_update [OF d(2), of i' q k] by (auto simp: durable_ok_def)
  next
    case unbooted
    then show ?thesis using d w' assms(1) binds_update [OF d(2), of i' q k] by (auto simp: durable_ok_def)
  next
    case (block rt rt')
    have pm: "procs w ! k \<in> set (procs w)" using k by simp
    have sub: "\<forall>chs. procs w ! k = RunBind chs \<longrightarrow> set chs \<subseteq> set (Channels sp)"
      using d pm by (auto simp: binds_declared_def)
    have nd: "nothing_deleted rt'"
      using run_block_deletes [OF block(2)] block(1) assms(1,2) sub
      by (fastforce simp: durable_ok_def all_durable_def list_all_iff)
    have "\<forall>chs. q = RunBind chs \<longrightarrow> set chs \<subseteq> set (Channels sp)"
      using run_block_binds [OF block(2)] sub d(1) by fastforce
    then show ?thesis using d w' nd block(3) binds_update [OF d(2), of i' q k] by (auto simp: durable_ok_def)
  qed
next
  case (Event ev)
  then obtain rt rt' where h: "handle (imp_env (the_imp w)) ev rt = Some rt'" and rt: "rtPtr (the_imp w) = Some rt"
    and w': "w' = w\<lparr>the_imp := (the_imp w)\<lparr>rtPtr := Some rt'\<rparr>\<rparr>"
    using assms(3) by (auto simp: move_def split: option.splits)
  have st: "ledger_step rt rt'" using handle_ledger [OF h] .
  obtain cs where cs: "calls (effects rt') = calls (effects rt) @ cs" "balanced cs"
    using st by (auto simp: ledger_step_def)
  have "rt.more rt' = rt.more rt" using st by (simp add: ledger_step_def)
  from rt_more_fields(1) [OF this] have "nothing_deleted rt \<Longrightarrow> nothing_deleted rt'"
    by (simp add: nothing_deleted_def count_calls_def cs(1) balanced_counts [OF cs(2)])
  then show ?thesis using assms(1) rt w' by (auto simp: durable_ok_def binds_declared_def)
qed (use assms binds_more in \<open>auto simp: move_def durable_ok_def\<close>)

lemma durable_reachable:
  assumes "running_world i n w rt" and "all_durable (imp_spec i)"
  shows "count_calls is_delete rt = 0"
proof -
  have r: "reachable_from (new_world i n) w" "fresh i" using assms(1) by (auto simp: running_world_def)
  have "durable_ok (imp_spec i) w"
    using r(1)
  proof (induction rule: reachable_from.induct)
    case start_world
    then show ?case using r(2) by (simp add: durable_ok_def new_world_def binds_declared_def fresh_def)
  qed (use durable_move assms(2) in blast)
  then show ?thesis using assms(1) by (simp add: durable_ok_def running_world_def nothing_deleted_def)
qed

section \<open>Binding one channel at a time\<close>

text \<open>The blocks of one call, run without interruption for at most \<open>fuel\<close> blocks of binding.\<close>

fun bind_blocks :: "nat \<Rightarrow> ('a, 'n) Imp \<Rightarrow> 'a proc \<Rightarrow> ('a, 'n) runtime \<Rightarrow> ('a proc \<times> ('a, 'n) runtime) outcome option" where
  "bind_blocks 0 i p rt = goto p rt"
| "bind_blocks (Suc fuel) i p rt =
     (case p of
        RunBind chs \<Rightarrow>
          (case run_block i False False p rt of
             None \<Rightarrow> None
           | Some Panicked \<Rightarrow> Some Panicked
           | Some (Returned (q, rt')) \<Rightarrow> bind_blocks fuel i q rt')
      | _ \<Rightarrow> goto p rt)"

lemma bind_blocks_done: "(\<forall>chs. p \<noteq> RunBind chs) \<Longrightarrow> bind_blocks fuel i p rt = goto p rt"
  by (cases fuel) (auto split: proc.split)

lemma bind_blocks_start:
  "length chs < fuel \<Longrightarrow>
   bind_blocks fuel i (RunBind chs) rt =
    (case start i chs rt of
       (Returned None, rt') \<Rightarrow> goto RunReady rt'
     | (Returned (Some err), rt') \<Rightarrow> goto (RunFail err) rt'
     | (Panicked, rt') \<Rightarrow> Some Panicked)"
proof (induction chs arbitrary: fuel rt)
  case Nil
  then show ?case by (cases fuel) (auto simp: bind_blocks_done)
next
  case (Cons ch chs)
  then obtain fuel' where "fuel = Suc fuel'" "length chs < fuel'" by (cases fuel) auto
  then show ?case using Cons.IH
    by (cases "bind_channel i ch rt") (auto simp: bind_blocks_done split: outcome.split option.split)
qed

section \<open>A world to run\<close>

definition demo_imp :: "(string, loop) Imp" where
  "demo_imp = \<lparr>imp_spec = demo_spec, imp_nc = loop_conn, imp_js = loop_js,
               opts = defaultRuntimeOptions, rtOnce = False, rtPtr = None\<rparr>"

definition demo_world :: "string list \<Rightarrow> (string, loop) world" where
  "demo_world bad = new_world demo_imp (loop0\<lparr>refused := bad\<rparr>)"

definition runtime_of :: "('a, 'n) world outcome \<Rightarrow> ('a, 'n) runtime option" where
  "runtime_of r = (case r of Returned w \<Rightarrow> rtPtr (the_imp w) | Panicked \<Rightarrow> None)"

text \<open>What each call has returned: \<open>None\<close> for one that has not.\<close>

fun result_of :: "'a proc \<Rightarrow> gerr option option" where
  "result_of (Finished e) = Some e"
| "result_of _ = None"

definition results :: "('a, 'n) world outcome \<Rightarrow> gerr option option list" where
  "results r = (case r of Returned w \<Rightarrow> map result_of (procs w) | Panicked \<Rightarrow> [])"

text \<open>Start up, then shut down; and a start that fails on its second channel.\<close>

definition clean_run :: "string move list" where
  "clean_run = [CallRun] @ replicate 6 (Step 0 True) @ [CallShutdown] @ replicate 8 (Step 1 True)"

definition failing_run :: "string move list" where
  "failing_run = [CallRun] @ replicate 6 (Step 0 True)"

lemma clean_run_ends:
  "map_option (\<lambda>rt. (history rt, stopped rt)) (runtime_of (play clean_run (demo_world [])))
   = Some ([StateStarting, StateRunning, StateDraining, StateStopped], True) \<and>
   results (play clean_run (demo_world [])) = [None, Some None]"
  by code_simp

lemma runtime_of_running:
  assumes "runtime_of (play ms (new_world i n)) = Some rt" and "fresh i"
  obtains w where "play ms (new_world i n) = Returned w" and "running_world i n w rt"
proof (cases "play ms (new_world i n)")
  case (Returned w)
  then show ?thesis
    using that assms play_reachable [OF start_world Returned]
    by (auto simp: runtime_of_def running_world_def)
qed (use assms in \<open>simp add: runtime_of_def\<close>)

lemma demo_fresh [simp]: "fresh demo_imp"
  by (simp add: fresh_def demo_imp_def)

lemma clean_runtime:
  obtains rt w where "play clean_run (demo_world []) = Returned w"
    and "running_world demo_imp (loop0\<lparr>refused := []\<rparr>) w rt"
    and "history rt = [StateStarting, StateRunning, StateDraining, StateStopped]" and "stopped rt"
proof -
  obtain rt where rt: "runtime_of (play clean_run (demo_world [])) = Some rt"
    "history rt = [StateStarting, StateRunning, StateDraining, StateStopped]" "stopped rt"
    using clean_run_ends by auto
  from runtime_of_running [OF rt(1) [unfolded demo_world_def] demo_fresh] that rt(2,3) show ?thesis
    by (metis demo_world_def)
qed

section \<open>Properties\<close>

text \<open>
  C15. The lifecycle in every interleaving of any number of \<open>Run\<close> and \<open>Shutdown\<close> calls,
  messages and thinking goroutines: starting up sets Starting and then Running or Failed,
  shutting down sets Draining and then Stopped, each of them at most once, and the current
  state is the last one set. The history is one of the documented paths exactly if Draining,
  when it was set, was set right after Running.
\<close>

theorem lifecycle_histories:
  assumes "running_world i n w rt"
  shows "rt_state rt = last (StateCreated # history rt) \<and> distinct (history rt) \<and>
    startup_states (history rt) \<in> {[], [StateStarting], [StateStarting, StateRunning], [StateStarting, StateFailed]} \<and>
    shutdown_states (history rt) \<in> {[], [StateDraining], [StateDraining, StateStopped]} \<and>
    (legal_path StateCreated (history rt) \<longleftrightarrow>
       (StateDraining \<in> set (history rt) \<longrightarrow>
          takeWhile (\<lambda>s. s \<noteq> StateDraining) (history rt) = [StateStarting, StateRunning]))"
  using control_facts(1-3) [OF running_world_ok(1) [OF assms]] shuffled_legal [OF running_history [OF assms]]
  by blast

lemma lifecycle_histories_witness:
  "\<exists>w rt. running_world demo_imp (loop0\<lparr>refused := []\<rparr>) w rt \<and> rt_state rt = StateStopped"
proof -
  obtain rt w where rt: "running_world demo_imp (loop0\<lparr>refused := []\<rparr>) w rt"
    "history rt = [StateStarting, StateRunning, StateDraining, StateStopped]"
    by (rule clean_runtime)
  with lifecycle_histories [OF rt(1)] show ?thesis by auto
qed

text \<open>
  In every interleaving at most one call of \<open>Run\<close> is starting the imp up, and at most one
  call, of \<open>Run\<close> or of \<open>Shutdown\<close>, is executing the body of the shutdown.
\<close>

theorem one_starts_one_stops:
  assumes "running_world i n w rt"
  shows "count starter (procs w) \<le> 1 \<and> count closer (procs w) \<le> 1"
  using control_facts(6,7) [OF running_world_ok(1) [OF assms]] by blast

lemma one_starts_one_stops_witness:
  "\<exists>w. play clean_run (demo_world []) = Returned w \<and> count starter (procs w) \<le> 1"
proof -
  obtain rt w where rt: "play clean_run (demo_world []) = Returned w"
    "running_world demo_imp (loop0\<lparr>refused := []\<rparr>) w rt"
    by (rule clean_runtime)
  with one_starts_one_stops [OF rt(2)] show ?thesis by auto
qed




lemma failing_run_ends:
  "map_option history (runtime_of (play failing_run (demo_world [''ORDERS'']))) = Some [StateStarting, StateFailed] \<and>
   results (play failing_run (demo_world [''ORDERS''])) = [Some (Some (ErrStreamNotFound ''ORDERS''))]"
  by code_simp




text \<open>
  C26. A shutdown always ends. From wherever the call executing the shutdown stands, at most
  seven of its own blocks take it to its return, whatever the other goroutines have done: the
  drain waits for thinking only until the window closes.
\<close>

theorem shutdown_ends:
  assumes "closer (procs w ! k)" and "k < length (procs w)" and "rtPtr (the_imp w) = Some rt"
  shows "\<exists>r w' e. r \<le> 7 \<and> play (replicate r (Step k False)) w = Returned w' \<and> procs w' ! k = Finished e"
proof -
  have r: "0 < closing_rank (procs w ! k)" "closing_rank (procs w ! k) \<le> 7" "procs w ! k \<noteq> ShutWait"
    using assms(1) by (cases "procs w ! k"; auto)+
  from closing_finishes [OF refl r(1) assms(2,3)] r show ?thesis by blast
qed

definition half_shut :: "string move list" where
  "half_shut = [CallRun] @ replicate 6 (Step 0 True) @ [CallShutdown] @ replicate 3 (Step 1 True)"

fun at_cancel :: "'a proc \<Rightarrow> bool" where
  "at_cancel ShutCancel = True" | "at_cancel _ = False"

lemma half_shut_at:
  "case play half_shut (demo_world []) of
     Panicked \<Rightarrow> False
   | Returned w \<Rightarrow> length (procs w) = 2 \<and> at_cancel (procs w ! 1) \<and> rtPtr (the_imp w) \<noteq> None"
  by code_simp

lemma shutdown_ends_witness:
  "\<exists>w r w' e. play half_shut (demo_world []) = Returned w \<and>
     play (replicate r (Step 1 False)) w = Returned w' \<and> procs w' ! 1 = Finished e"
proof -
  obtain w where w: "play half_shut (demo_world []) = Returned w" "length (procs w) = 2" "at_cancel (procs w ! 1)"
    "rtPtr (the_imp w) \<noteq> None"
    using half_shut_at by (cases "play half_shut (demo_world [])") auto
  have "closer (procs w ! 1)" using w(3) by (cases "procs w ! 1") auto
  moreover obtain rt where "rtPtr (the_imp w) = Some rt" using w(4) by auto
  ultimately show ?thesis using shutdown_ends [of w 1 rt] w(1,2) by auto
qed

text \<open>
  The drain reports success only if thinking is over: in every reachable world, the wait
  for the drain can return nil exactly when no thinking goroutine is alive and the in-flight
  gauge is zero; otherwise it returns only by its timer, with an error that is
  \<open>context.DeadlineExceeded\<close>.
\<close>

theorem drain_nil_means_done:
  assumes "running_world i n w rt"
  shows "waitDrain False rt = (if tasks rt = [] then Some (None, rt) else None) \<and>
    (tasks rt = [] \<longrightarrow> InflightThinking (mtr rt) = 0) \<and>
    waitDrain True rt = Some (Some drain_error, log Warn ''drain deadline exceeded'' rt) \<and>
    errors_Is drain_error Context_DeadlineExceeded"
  using running_world_ok(3) [OF assms] by (auto simp: waitDrain_def ledger_ok_def drain_error_def)

lemma drain_nil_means_done_witness:
  "\<exists>w rt. play clean_run (demo_world []) = Returned w \<and> rtPtr (the_imp w) = Some rt \<and>
     waitDrain False rt = (if tasks rt = [] then Some (None, rt) else None)"
proof -
  obtain rt w where rt: "play clean_run (demo_world []) = Returned w"
    "running_world demo_imp (loop0\<lparr>refused := []\<rparr>) w rt"
    by (rule clean_runtime)
  from drain_nil_means_done [OF rt(2)] rt show ?thesis by (auto simp: running_world_def)
qed

text \<open>
  C27. An imp whose stream channels are all durable never deletes a consumer, in no
  interleaving of starting, failing, dispatching and shutting down.
\<close>

theorem durable_consumers_survive:
  assumes "running_world i n w rt" and "all_durable (imp_spec i)"
  shows "count_calls is_delete rt = 0"
  using durable_reachable [OF assms] .

lemma durable_consumers_survive_witness:
  "\<exists>w rt. play clean_run (demo_world []) = Returned w \<and> rtPtr (the_imp w) = Some rt \<and> count_calls is_delete rt = 0"
proof -
  obtain rt w where rt: "play clean_run (demo_world []) = Returned w"
    "running_world demo_imp (loop0\<lparr>refused := []\<rparr>) w rt"
    by (rule clean_runtime)
  have "all_durable (imp_spec demo_imp)"
    by (simp add: all_durable_def demo_imp_def demo_defs)
  from durable_consumers_survive [OF rt(2) this] rt show ?thesis by (auto simp: running_world_def)
qed

text \<open>
  The blocks in which a \<open>Run\<close> call binds its channels, one after another, do what
  \<open>start\<close> does: they end ready for the state Running when every channel binds, and at the
  failure branch with the first error otherwise, in the same runtime.
\<close>

theorem blocks_implement_start:
  "bind_blocks (Suc (length chs)) i (RunBind chs) rt =
    (case start i chs rt of
       (Returned None, rt') \<Rightarrow> goto RunReady rt'
     | (Returned (Some err), rt') \<Rightarrow> goto (RunFail err) rt'
     | (Panicked, rt') \<Rightarrow> Some Panicked)"
  by (rule bind_blocks_start) simp

section \<open>Where the documented lifecycle is not kept\<close>

text \<open>
  A shutdown that runs while the imp is still starting is overtaken: the start goes on
  after it, subscribes what the shutdown can no longer release, and sets Running over Stopped,
  so the imp reports ready after its shutdown has returned nil, with a consume loop live.
\<close>

definition overtaken :: "string move list" where
  "overtaken = [CallRun] @ replicate 3 (Step 0 True) @ [CallShutdown] @ replicate 8 (Step 1 True) @
               replicate 3 (Step 0 True)"

theorem shutdown_during_start_is_lost:
  "map_option (\<lambda>rt. (history rt, stopped rt, map cs_streamConsume (channels rt),
       count_calls (is_consume 1) rt, count_calls (is_consume_stop 1) rt))
     (runtime_of (play overtaken (demo_world [])))
   = Some ([StateStarting, StateDraining, StateStopped, StateRunning], True, [None, Some 1], 1, 0) \<and>
   results (play overtaken (demo_world [])) = [None, Some None]"
  by code_simp

text \<open>
  Failed is not terminal: a shutdown after a failed start moves the lifecycle on to
  Draining and Stopped.
\<close>

theorem failed_is_not_terminal:
  "map_option history (runtime_of (play (failing_run @ [CallShutdown] @ replicate 8 (Step 1 True)) (demo_world [''ORDERS''])))
   = Some [StateStarting, StateFailed, StateDraining, StateStopped]"
  by code_simp

text \<open>
  After \<open>Run\<close> has rejected a non-positive default timeout, calling it again brings the
  process down: the runtime is never created, and its nil handle is used.
\<close>

definition misconfigured :: "(string, loop) world" where
  "misconfigured = new_world (demo_imp\<lparr>opts := apply_Options [WithDefaultRequestTimeout 0]\<rparr>) loop0"

theorem run_after_config_error_panics:
  "results (play [CallRun, Step 0 True] misconfigured) =
     [Some (Some (ErrConfigInvalid ''default_request_timeout'' ''non-positive''))] \<and>
   (case play ([CallRun, Step 0 True, CallRun] @ replicate 2 (Step 1 True)) misconfigured of
      Panicked \<Rightarrow> True | Returned _ \<Rightarrow> False)"
  by code_simp

end
