(* ===== verification/Registry_Concurrent.thy ===== *)
theory Registry_Concurrent
  imports Registry
begin

text \<open>
  \<open>registry.ref\<close> under concurrency (\<open>registry.go\<close>, lines 50 to 73). Several goroutines
  call \<open>ref\<close> on one shape; each atomic operation of the body (the \<open>sync.Map\<close> loads and
  the \<open>LoadOrStore\<close>, the counter's \<open>Load\<close>, \<open>CompareAndSwap\<close> and \<open>Add\<close>) is one step, and
  any goroutine may take the next step.
\<close>

section \<open>One goroutine\<close>

text \<open>Where a goroutine is inside \<open>ref\<close>.\<close>

datatype pc =
    LoadSlot
  | LoadCount
  | CasCount int
  | CallFactory
  | StoreSlot nat
  | GiveBack nat
  | Done "gerr + nat"
  | Crashed

fun ref_step :: "entity \<Rightarrow> pc \<Rightarrow> 'v shape \<Rightarrow> 'v list \<Rightarrow> pc \<times> 'v shape \<times> 'v list" where
  "ref_step e LoadSlot sh hp =
     (case sh_slots sh e of Some a \<Rightarrow> (Done (Inr a), sh, hp) | None \<Rightarrow> (LoadCount, sh, hp))"
| "ref_step e LoadCount sh hp =
     (if sh_count sh \<ge> sh_cap sh then (Done (Inl (ErrCapExceeded (sh_name sh) (sh_cap sh))), sh, hp)
      else (CasCount (sh_count sh), sh, hp))"
| "ref_step e (CasCount current) sh hp =
     (if sh_count sh = current then (CallFactory, sh\<lparr>sh_count := current + 1\<rparr>, hp)
      else (LoadCount, sh, hp))"
| "ref_step e CallFactory sh hp =
     (case call_factory (sh_factory sh) of
        Panicked \<Rightarrow> (Crashed, sh, hp)
      | Returned v \<Rightarrow> (StoreSlot (length hp), sh, hp @ [v]))"
| "ref_step e (StoreSlot fresh) sh hp =
     (case sh_slots sh e of
        Some actual \<Rightarrow> (GiveBack actual, sh, hp)
      | None \<Rightarrow> (Done (Inr fresh), sh\<lparr>sh_slots := (sh_slots sh)(e \<mapsto> fresh)\<rparr>, hp))"
| "ref_step e (GiveBack actual) sh hp =
     (Done (Inr actual), sh\<lparr>sh_count := sh_count sh - 1\<rparr>, hp)"
| "ref_step e (Done r) sh hp = (Done r, sh, hp)"
| "ref_step e Crashed sh hp = (Crashed, sh, hp)"

fun running :: "pc \<Rightarrow> bool" where
  "running (Done _) = False"
| "running Crashed = False"
| "running _ = True"

section \<open>The system\<close>

text \<open>
  \<open>wants ! i\<close> is the entity goroutine \<open>i\<close> asks for and \<open>pcs ! i\<close> where it is.
\<close>

record 'v sys =
  sys_shape :: "'v shape"
  sys_heap :: "'v list"
  wants :: "entity list"
  pcs :: "pc list"

definition sys_move :: "nat \<Rightarrow> 'v sys \<Rightarrow> 'v sys" where
  "sys_move i s =
     (let (p, sh, hp) = ref_step (wants s ! i) (pcs s ! i) (sys_shape s) (sys_heap s)
      in s\<lparr>sys_shape := sh, sys_heap := hp, pcs := (pcs s)[i := p]\<rparr>)"

inductive sys_step :: "'v sys \<Rightarrow> 'v sys \<Rightarrow> bool" where
  move: "i < length (pcs s) \<Longrightarrow> running (pcs s ! i) \<Longrightarrow> sys_step s (sys_move i s)"

inductive_cases sys_stepE: "sys_step s t"

definition initial :: "'v shape \<Rightarrow> entity list \<Rightarrow> 'v sys \<Rightarrow> bool" where
  "initial sh0 es s \<longleftrightarrow>
     s = \<lparr>sys_shape = sh0, sys_heap = [], wants = es, pcs = map (\<lambda>_. LoadSlot) es\<rparr> \<and>
     sh_count sh0 = 0 \<and> sh_slots sh0 = Map.empty \<and> 0 \<le> sh_cap sh0"

inductive reachable :: "'v shape \<Rightarrow> entity list \<Rightarrow> 'v sys \<Rightarrow> bool" where
  start: "initial sh0 es s \<Longrightarrow> reachable sh0 es s"
| step: "reachable sh0 es s \<Longrightarrow> sys_step s t \<Longrightarrow> reachable sh0 es t"

text \<open>A schedule is the list of goroutines that move; those that are done stay put.\<close>

fun run_schedule :: "nat list \<Rightarrow> 'v sys \<Rightarrow> 'v sys" where
  "run_schedule [] s = s"
| "run_schedule (i # is) s =
     run_schedule is (if i < length (pcs s) \<and> running (pcs s ! i) then sys_move i s else s)"

lemma run_schedule_reachable:
  "reachable sh0 es s \<Longrightarrow> reachable sh0 es (run_schedule is s)"
  by (induction "is" arbitrary: s) (auto intro: reachable.step sys_step.move)

section \<open>Counting reservations\<close>

text \<open>Goroutines that hold a unit of the counter without a slot to show for it.\<close>

fun reserved :: "pc \<Rightarrow> nat" where
  "reserved CallFactory = 1"
| "reserved (StoreSlot _) = 1"
| "reserved (GiveBack _) = 1"
| "reserved Crashed = 1"
| "reserved _ = 0"

definition reservations :: "pc list \<Rightarrow> nat" where
  "reservations ps = sum_list (map reserved ps)"

lemma reservations_update:
  "i < length ps \<Longrightarrow> reservations (ps[i := p]) + reserved (ps ! i) = reservations ps + reserved p"
proof (induction ps arbitrary: i)
  case (Cons q ps)
  then show ?case by (cases i) (auto simp: reservations_def)
qed simp

lemma reservations_zero:
  "\<forall>p \<in> set ps. reserved p = 0 \<Longrightarrow> reservations ps = 0"
  by (induction ps) (auto simp: reservations_def)

lemma reserved_le_reservations: "i < length ps \<Longrightarrow> reserved (ps ! i) \<le> reservations ps"
proof (induction ps arbitrary: i)
  case (Cons q ps)
  then show ?case by (cases i) (auto simp: reservations_def intro: le_SucI trans_le_add2)
qed simp

section \<open>Invariant\<close>

text \<open>
  The counter is the number of slots plus the reservations in progress, and never passes
  the cap; a goroutine about to store has a fresh heap cell nobody else points at; one
  that has a result, or is giving its reservation back, holds the slot of its entity.
\<close>

fun pc_ok :: "entity \<Rightarrow> pc \<Rightarrow> 'v shape \<Rightarrow> 'v list \<Rightarrow> bool" where
  "pc_ok e (CasCount current) sh hp = (current < sh_cap sh)"
| "pc_ok e (StoreSlot a) sh hp = (a < length hp)"
| "pc_ok e (GiveBack a) sh hp = (sh_slots sh e = Some a)"
| "pc_ok e (Done (Inr a)) sh hp = (sh_slots sh e = Some a)"
| "pc_ok e (Done (Inl err)) sh hp = (err = ErrCapExceeded (sh_name sh) (sh_cap sh))"
| "pc_ok e _ sh hp = True"

definition sys_ok :: "'v sys \<Rightarrow> bool" where
  "sys_ok s \<longleftrightarrow>
     length (wants s) = length (pcs s) \<and>
     finite (dom (sh_slots (sys_shape s))) \<and>
     sh_count (sys_shape s) = int (card (dom (sh_slots (sys_shape s))) + reservations (pcs s)) \<and>
     sh_count (sys_shape s) \<le> sh_cap (sys_shape s) \<and>
     ran (sh_slots (sys_shape s)) \<subseteq> {..< length (sys_heap s)} \<and>
     (\<forall>i < length (pcs s). pc_ok (wants s ! i) (pcs s ! i) (sys_shape s) (sys_heap s))"

lemma sys_okD:
  assumes "sys_ok s"
  shows "length (wants s) = length (pcs s)"
    and "sh_count (sys_shape s) = int (card (dom (sh_slots (sys_shape s))) + reservations (pcs s))"
    and "sh_count (sys_shape s) \<le> sh_cap (sys_shape s)"
    and "i < length (pcs s) \<Longrightarrow> pc_ok (wants s ! i) (pcs s ! i) (sys_shape s) (sys_heap s)"
  using assms unfolding sys_ok_def by blast+

lemma initial_ok: "initial sh0 es s \<Longrightarrow> sys_ok s"
  by (auto simp: initial_def sys_ok_def reservations_zero)

text \<open>
  What one step does to the shape and the heap: slots and heap only grow, the cap and the
  name are constant, and the counter moves with slots and reservations.
\<close>

lemma ref_step_effect:
  assumes "ref_step e p sh hp = (p', sh', hp')"
    and "pc_ok e p sh hp" and "finite (dom (sh_slots sh))"
    and "ran (sh_slots sh) \<subseteq> {..< length hp}"
    and "int (card (dom (sh_slots sh))) + int (reserved p) \<le> sh_count sh"
    and "sh_count sh \<le> sh_cap sh"
  shows "sh_slots sh \<subseteq>\<^sub>m sh_slots sh'"
    and "length hp \<le> length hp'"
    and "sh_cap sh' = sh_cap sh \<and> sh_name sh' = sh_name sh"
    and "finite (dom (sh_slots sh'))"
    and "ran (sh_slots sh') \<subseteq> {..< length hp'}"
    and "sh_count sh' - int (card (dom (sh_slots sh'))) - int (reserved p')
         = sh_count sh - int (card (dom (sh_slots sh))) - int (reserved p)"
    and "sh_count sh' \<le> sh_cap sh'"
    and "pc_ok e p' sh' hp'"
proof -
  have dom_new: "sh_slots sh e = None \<Longrightarrow>
      card (dom ((sh_slots sh)(e \<mapsto> a))) = Suc (card (dom (sh_slots sh)))" for a
    using assms(3) by (simp add: domIff)
  have ran_new: "sh_slots sh e = None \<Longrightarrow> ran ((sh_slots sh)(e \<mapsto> a)) = insert a (ran (sh_slots sh))" for a
    by simp
  note facts = assms dom_new ran_new
  show "sh_slots sh \<subseteq>\<^sub>m sh_slots sh'"
    using facts by (cases p) (auto simp: map_le_def dom_def split: option.splits outcome.splits if_splits)
  show "length hp \<le> length hp'"
    using facts by (cases p) (auto split: option.splits outcome.splits if_splits)
  show "sh_cap sh' = sh_cap sh \<and> sh_name sh' = sh_name sh"
    using facts by (cases p) (auto split: option.splits outcome.splits if_splits)
  show "finite (dom (sh_slots sh'))"
    using facts by (cases p) (auto split: option.splits outcome.splits if_splits)
  show "ran (sh_slots sh') \<subseteq> {..< length hp'}"
    using facts by (cases p) (force split: option.splits outcome.splits if_splits)+
  show "sh_count sh' - int (card (dom (sh_slots sh'))) - int (reserved p')
      = sh_count sh - int (card (dom (sh_slots sh))) - int (reserved p)"
    using facts by (cases p) (auto simp del: dom_fun_upd split: option.splits outcome.splits if_splits)
  show "sh_count sh' \<le> sh_cap sh'"
    using facts by (cases p) (auto split: option.splits outcome.splits if_splits)
  show "pc_ok e p' sh' hp'"
    using facts by (cases p) (auto split: option.splits outcome.splits if_splits)
qed

lemma pc_ok_mono:
  assumes "pc_ok e p sh hp" and "sh_slots sh \<subseteq>\<^sub>m sh_slots sh'" and "length hp \<le> length hp'"
    and "sh_cap sh' = sh_cap sh \<and> sh_name sh' = sh_name sh"
  shows "pc_ok e p sh' hp'"
proof -
  have "sh_slots sh e = Some a \<Longrightarrow> sh_slots sh' e = Some a" for a
    using assms(2) by (metis map_le_def domI)
  then show ?thesis
    using assms by (cases "(e, p, sh, hp)" rule: pc_ok.cases) auto
qed

lemma sys_move_ok:
  assumes "sys_ok s" and i: "i < length (pcs s)"
  shows "sys_ok (sys_move i s)"
proof -
  let ?sh = "sys_shape s" and ?hp = "sys_heap s" and ?p = "pcs s ! i"
  obtain p' sh' hp' where st: "ref_step (wants s ! i) ?p ?sh ?hp = (p', sh', hp')"
    by (metis prod_cases3)
  have "reserved ?p \<le> reservations (pcs s)"
    by (rule reserved_le_reservations [OF i])
  then have room: "int (card (dom (sh_slots ?sh))) + int (reserved ?p) \<le> sh_count ?sh"
    using sys_okD(2) [OF assms(1)] by simp
  have ok: "pc_ok (wants s ! i) ?p ?sh ?hp" "finite (dom (sh_slots ?sh))"
    "ran (sh_slots ?sh) \<subseteq> {..< length ?hp}"
    using assms unfolding sys_ok_def by blast+
  note eff = ref_step_effect [OF st ok room sys_okD(3) [OF assms(1)]]
  have "pc_ok (wants s ! j) ((pcs s)[i := p'] ! j) sh' hp'" if "j < length (pcs s)" for j
    using that eff(8) pc_ok_mono [OF sys_okD(4) [OF assms(1) that] eff(1-3)]
    by (cases "j = i") auto
  moreover have "reservations ((pcs s)[i := p']) + reserved ?p = reservations (pcs s) + reserved p'"
    by (rule reservations_update [OF i])
  ultimately show ?thesis
    using assms(1) eff(4-7) unfolding sys_ok_def sys_move_def by (simp add: st)
qed

lemma reachable_ok: "reachable sh0 es s \<Longrightarrow> sys_ok s"
  by (induction rule: reachable.induct) (auto intro: initial_ok sys_move_ok elim: sys_stepE)

lemma reachable_constants:
  "reachable sh0 es s \<Longrightarrow> wants s = es \<and> sh_cap (sys_shape s) = sh_cap sh0"
proof (induction rule: reachable.induct)
  case (start sh0 es s)
  then show ?case by (simp add: initial_def)
next
  case (step sh0 es s t)
  have "sh_cap (fst (snd (ref_step e p sh hp))) = sh_cap sh" for e p and sh :: "'a shape" and hp
    by (cases p) (auto split: option.split outcome.split)
  with step show ?case
    by (auto elim!: sys_stepE simp: sys_move_def split: prod.split) (metis fst_conv snd_conv)
qed

section \<open>What the invariant gives\<close>

lemma same_entity_same_slot:
  assumes "sys_ok s" and "i < length (pcs s)" and "j < length (pcs s)"
    and "pcs s ! i = Done (Inr a)" and "pcs s ! j = Done (Inr b)" and "wants s ! i = wants s ! j"
  shows "a = b"
  using sys_okD(4) [OF assms(1,2)] sys_okD(4) [OF assms(1,3)] assms(4-6) by simp

lemma quiescent_count:
  assumes "sys_ok s" and "\<forall>p \<in> set (pcs s). \<exists>r. p = Done r"
  shows "sh_count (sys_shape s) = int (card (dom (sh_slots (sys_shape s))))"
proof -
  have "reservations (pcs s) = 0"
    using assms(2) by (intro reservations_zero) auto
  then show ?thesis using sys_okD(2) [OF assms(1)] by simp
qed

section \<open>A goroutine running alone\<close>

text \<open>
  Five steps without interference take a call from its start to its result, and do what
  \<open>ref\<close> of \<open>Registry\<close> does to the shape, the heap and the result.
\<close>

fun solo :: "nat \<Rightarrow> entity \<Rightarrow> pc \<Rightarrow> 'v shape \<Rightarrow> 'v list \<Rightarrow> pc \<times> 'v shape \<times> 'v list" where
  "solo 0 e p sh hp = (p, sh, hp)"
| "solo (Suc n) e p sh hp = (let (p', sh', hp') = ref_step e p sh hp in solo n e p' sh' hp')"

fun pc_outcome :: "pc \<Rightarrow> (gerr + nat) outcome" where
  "pc_outcome (Done r) = Returned r"
| "pc_outcome _ = Panicked"

lemma solo_refines_ref:
  assumes "shapes r name = Some sh"
  shows "(let (p, sh', hp') = solo 5 e LoadSlot sh (heap r)
          in (\<not> running p, pc_outcome p, r\<lparr>shapes := (shapes r)(name \<mapsto> sh'), heap := hp'\<rparr>))
         = (True, ref name e r)"
proof -
  have five: "solo 5 e p sh hp = solo (Suc (Suc (Suc (Suc (Suc 0))))) e p sh hp" for p and sh :: "'a shape" and hp
    by (simp add: eval_nat_numeral)
  show ?thesis
    using assms
    by (cases rule: ref_cases [where r = r and name = name and e = e])
      (auto simp: five ref_branches fun_upd_idem Let_def)
qed

section \<open>Bounded work\<close>

text \<open>
  A failed compare-and-swap makes a goroutine read the counter again, so a call may loop.
  The counter changes at most twice per call, though, and only a change can make a pending
  compare-and-swap stale: \<open>changes\<close> counts the changes a goroutine can still make, \<open>rank\<close>
  the steps it has left if nobody interferes.
\<close>

fun changes :: "pc \<Rightarrow> nat" where
  "changes LoadSlot = 2" | "changes LoadCount = 2" | "changes (CasCount _) = 2"
| "changes CallFactory = 1" | "changes (StoreSlot _) = 1" | "changes (GiveBack _) = 1"
| "changes (Done _) = 0" | "changes Crashed = 0"

fun rank :: "int \<Rightarrow> pc \<Rightarrow> nat" where
  "rank c LoadSlot = 7" | "rank c LoadCount = 6" | "rank c (CasCount x) = (if x = c then 5 else 7)"
| "rank c CallFactory = 3" | "rank c (StoreSlot _) = 2" | "rank c (GiveBack _) = 1"
| "rank c (Done _) = 0" | "rank c Crashed = 0"

definition potential :: "'v sys \<Rightarrow> nat" where
  "potential s =
     (2 * length (pcs s) + 1) * sum_list (map changes (pcs s)) +
     sum_list (map (rank (sh_count (sys_shape s))) (pcs s))"

lemma rank_stale: "rank c' p \<le> rank c p + 2"
  by (cases p) auto

lemma ranks_stale: "sum_list (map (rank c') ps) \<le> sum_list (map (rank c) ps) + 2 * length ps"
proof (induction ps)
  case (Cons p ps)
  then show ?case using rank_stale [of c' p c] by simp
qed simp

lemma ref_step_progress:
  assumes "ref_step e p sh hp = (p', sh', hp')" and "running p"
  shows "(sh_count sh' = sh_count sh \<and> changes p' \<le> changes p \<and> rank (sh_count sh) p' < rank (sh_count sh) p) \<or>
    (changes p' < changes p \<and> rank (sh_count sh) p' < rank (sh_count sh) p)"
  using assms by (cases p) (auto split: option.splits outcome.splits if_splits)

lemma potential_decreases:
  assumes "sys_step s t"
  shows "potential t < potential s" and "length (pcs t) = length (pcs s)"
proof -
  obtain i where i: "i < length (pcs s)" "running (pcs s ! i)" and t: "t = sys_move i s"
    using assms by (auto elim: sys_stepE)
  let ?p = "pcs s ! i" and ?c = "sh_count (sys_shape s)" and ?N = "length (pcs s)"
  obtain p' sh' hp' where st: "ref_step (wants s ! i) ?p (sys_shape s) (sys_heap s) = (p', sh', hp')"
    by (metis prod_cases3)
  have t': "pcs t = (pcs s)[i := p']" "sys_shape t = sh'" by (simp_all add: t sys_move_def st)
  then show "length (pcs t) = length (pcs s)" by simp
  note C = sum_list_replace [OF i(1), of changes p'] and R = sum_list_replace [OF i(1), of "rank ?c" p']
  have S: "sum_list (map (rank (sh_count sh')) ((pcs s)[i := p'])) \<le> sum_list (map (rank ?c) ((pcs s)[i := p'])) + 2 * ?N"
    using ranks_stale [of "sh_count sh'" "(pcs s)[i := p']" ?c] by simp
  from ref_step_progress [OF st i(2)] show "potential t < potential s"
  proof
    assume same: "sh_count sh' = ?c \<and> changes p' \<le> changes ?p \<and> rank ?c p' < rank ?c ?p"
    then have "(2 * ?N + 1) * sum_list (map changes ((pcs s)[i := p'])) \<le> (2 * ?N + 1) * sum_list (map changes (pcs s))"
      using C by (intro mult_le_mono2) linarith
    moreover have "sum_list (map (rank ?c) ((pcs s)[i := p'])) < sum_list (map (rank ?c) (pcs s))"
      using R same by linarith
    ultimately show ?thesis using same by (simp add: potential_def t')
  next
    assume ch: "changes p' < changes ?p \<and> rank ?c p' < rank ?c ?p"
    then have "Suc (sum_list (map changes ((pcs s)[i := p']))) \<le> sum_list (map changes (pcs s))"
      using C by linarith
    then have "(2 * ?N + 1) * Suc (sum_list (map changes ((pcs s)[i := p']))) \<le> (2 * ?N + 1) * sum_list (map changes (pcs s))"
      by (rule mult_le_mono2)
    moreover have "sum_list (map (rank (sh_count sh')) ((pcs s)[i := p'])) < sum_list (map (rank ?c) (pcs s)) + 2 * ?N + 1"
      using R S ch by linarith
    ultimately show ?thesis unfolding potential_def t' by simp
  qed
qed

lemma initial_potential:
  "initial sh0 es s \<Longrightarrow> potential s = (2 * length es + 1) * (2 * length es) + 7 * length es"
  by (simp add: initial_def potential_def comp_def sum_list_triv)

lemma steps_bounded: "(sys_step ^^ k) s t \<Longrightarrow> k + potential t \<le> potential s"
proof (induction k arbitrary: t)
  case (Suc k)
  then obtain u where "(sys_step ^^ k) s u" "sys_step u t" by auto
  then show ?case using Suc.IH potential_decreases(1) by fastforce
qed simp

section \<open>Properties\<close>

text \<open>
  C10. However the steps of the goroutines calling \<open>ref\<close> on one shape interleave, the number
  of slots never exceeds the counter and the counter never exceeds the cap.
\<close>

theorem registry_cap_bound:
  assumes "reachable sh0 es s"
  shows "int (card (dom (sh_slots (sys_shape s)))) \<le> sh_count (sys_shape s) \<and>
    sh_count (sys_shape s) \<le> sh_cap sh0"
  using sys_okD(2,3) [OF reachable_ok [OF assms]] reachable_constants [OF assms] by simp

text \<open>
  C18. Two calls for the same entity that both succeed, in any interleaving, return the same
  slot, and a call that fails fails with the typed cap error of its shape.
\<close>

theorem registry_same_slot:
  assumes "reachable sh0 es s" and "i < length (pcs s)" and "j < length (pcs s)"
    and "pcs s ! i = Done (Inr a)" and "wants s ! i = wants s ! j"
    and "pcs s ! j = Done r"
  shows "r = Inr a \<or> r = Inl (ErrCapExceeded (sh_name (sys_shape s)) (sh_cap (sys_shape s)))"
proof (cases r)
  case (Inl err)
  then show ?thesis using sys_okD(4) [OF reachable_ok [OF assms(1)] assms(3)] assms(6) by simp
next
  case (Inr b)
  then show ?thesis
    using same_entity_same_slot [OF reachable_ok [OF assms(1)] assms(2,3,4) _ assms(5), of b] assms(6) by simp
qed

text \<open>
  Once every call has returned, the counter is exactly the number of slots: no
  reservation is lost and none is kept, whatever races took place.
\<close>

theorem registry_quiescent:
  assumes "reachable sh0 es s" and "\<forall>p \<in> set (pcs s). \<exists>r. p = Done r"
  shows "sh_count (sys_shape s) = int (card (dom (sh_slots (sys_shape s))))"
  using quiescent_count [OF reachable_ok [OF assms(1)] assms(2)] .

text \<open>
  C28. The retry loop is bounded: \<open>n\<close> concurrent calls take at most \<open>2 n (2 n + 1) + 7 n\<close>
  steps in all, so every call returns however the scheduler picks.
\<close>

theorem registry_terminates:
  assumes "initial sh0 es s" and "(sys_step ^^ k) s t"
  shows "k \<le> (2 * length es + 1) * (2 * length es) + 7 * length es"
  using steps_bounded [OF assms(2)] initial_potential [OF assms(1)] by simp

text \<open>
  The operation of \<open>Registry\<close> is what one goroutine does undisturbed: five steps of the
  concurrent model take a call on a declared shape to the result, the shape and the heap
  that \<open>ref\<close> gives.
\<close>

theorem registry_solo:
  assumes "shapes r name = Some sh"
  shows "(let (p, sh', hp') = solo 5 e LoadSlot sh (heap r)
          in (\<not> running p, pc_outcome p, r\<lparr>shapes := (shapes r)(name \<mapsto> sh'), heap := hp'\<rparr>))
         = (True, ref name e r)"
  using assms by (rule solo_refines_ref)

text \<open>
  The cap can be reported exceeded while there is room: with a cap of two, one goroutine
  asking for \<open>a\<close> twice and one for \<open>b\<close>, the two that race for \<open>a\<close> hold both units of the
  counter for a moment, \<open>b\<close> fails, and when all have returned one slot is in use.
\<close>

definition cap_two :: "nat shape" where
  "cap_two = \<lparr>sh_name = ''counter'', sh_cap = 2, sh_factory = Some (\<lambda>_. Returned 0),
              sh_count = 0, sh_slots = Map.empty\<rparr>"

definition three_calls :: "nat sys" where
  "three_calls = \<lparr>sys_shape = cap_two, sys_heap = [], wants = [''a'', ''a'', ''b''],
                  pcs = [LoadSlot, LoadSlot, LoadSlot]\<rparr>"

definition racy :: "nat list" where
  "racy = [0, 1, 0, 0, 1, 1, 2, 2, 0, 1, 0, 1, 1]"

theorem registry_spurious_cap:
  "let s = run_schedule racy three_calls
   in pcs s = [Done (Inr 0), Done (Inr 0), Done (Inl (ErrCapExceeded ''counter'' 2))] \<and>
      dom (sh_slots (sys_shape s)) = {''a''} \<and> sh_count (sys_shape s) = 1"
  by (simp add: racy_def three_calls_def cap_two_def sys_move_def call_factory_def Let_def)

section \<open>Examples\<close>

lemma three_calls_reachable: "reachable cap_two [''a'', ''a'', ''b''] (run_schedule sch three_calls)"
  by (rule run_schedule_reachable, rule reachable.start)
     (simp add: initial_def three_calls_def cap_two_def)

lemma racy_pcs:
  "pcs (run_schedule racy three_calls) = [Done (Inr 0), Done (Inr 0), Done (Inl (ErrCapExceeded ''counter'' 2))]"
  by (simp add: racy_def three_calls_def cap_two_def sys_move_def call_factory_def Let_def)

lemma racy_wants: "wants (run_schedule racy three_calls) = [''a'', ''a'', ''b'']"
  using reachable_constants [OF three_calls_reachable] by simp

lemma registry_cap_bound_witness:
  "sh_count (sys_shape (run_schedule [0, 1, 0, 0, 1, 1] three_calls)) \<le> 2"
  using registry_cap_bound [OF three_calls_reachable, of "[0, 1, 0, 0, 1, 1]"]
  by (simp add: cap_two_def)

lemma registry_same_slot_witness:
  "pcs (run_schedule racy three_calls) ! 1 = Done (Inr 0) \<and>
   (Inr 0 = (Inr 0 :: gerr + nat) \<or>
    (Inr 0 :: gerr + nat) = Inl (ErrCapExceeded (sh_name (sys_shape (run_schedule racy three_calls)))
      (sh_cap (sys_shape (run_schedule racy three_calls)))))"
  using registry_same_slot [OF three_calls_reachable, of 0 racy 1 0 "Inr 0"]
  by (simp add: racy_pcs racy_wants)

lemma registry_quiescent_witness:
  "sh_count (sys_shape (run_schedule racy three_calls)) =
   int (card (dom (sh_slots (sys_shape (run_schedule racy three_calls)))))"
  by (rule registry_quiescent [OF three_calls_reachable]) (simp add: racy_pcs)

lemma registry_terminates_witness:
  "initial cap_two [''a'', ''a'', ''b''] three_calls \<and>
   (sys_step ^^ 1) three_calls (sys_move 0 three_calls) \<and> (1::nat) \<le> (2 * 3 + 1) * (2 * 3) + 7 * 3"
proof -
  have init: "initial cap_two [''a'', ''a'', ''b''] three_calls"
    by (simp add: initial_def three_calls_def cap_two_def)
  have "sys_step three_calls (sys_move 0 three_calls)"
    by (rule sys_step.move) (simp_all add: three_calls_def)
  then have step: "(sys_step ^^ 1) three_calls (sys_move 0 three_calls)" by (simp only: relpowp_1)
  from registry_terminates [OF init this] init step show ?thesis by simp
qed

lemma registry_solo_witness:
  "(let r = \<lparr>shapes = [''c'' \<mapsto> cap_two], heap = []\<rparr>
    in fst (ref ''c'' ''a'' r) = Returned (Inr 0) \<and> running (fst (solo 5 ''a'' LoadSlot cap_two [])) = False)"
  using registry_solo [of "\<lparr>shapes = [''c'' \<mapsto> cap_two], heap = []\<rparr>" "''c''" cap_two "''a''"]
  by (auto simp: Let_def cap_two_def ref_def call_factory_def split: prod.splits)

end
