(* ===== verification/Persist_Backend.thy ===== *)
theory Persist_Backend
  imports Imp_Errors
begin

text \<open>
  The storage contract of the \<open>persist\<close> package (\<open>persist/backend.go\<close>): the \<open>Backend\<close>
  interface, its implementation over a JetStream key-value bucket, and the in-memory
  implementation of the package's tests. \<open>'w\<close> is the world the calls act on: the network,
  the server, the clock.
\<close>

section \<open>The interface\<close>

record 'w Backend =
  b_Get :: "string \<Rightarrow> 'w \<Rightarrow> (gerr + bytes) \<times> 'w"
  b_Put :: "string \<Rightarrow> bytes \<Rightarrow> 'w \<Rightarrow> gerr option \<times> 'w"
  b_Delete :: "string \<Rightarrow> 'w \<Rightarrow> gerr option \<times> 'w"

text \<open>
  What the interface documents, over the contents \<open>content w\<close> of the backend: a read changes
  nothing and returns what is stored, \<open>ErrNotFound\<close> says nothing is stored, a write or a
  delete that succeeds has happened, and one that fails may or may not have; other keys are
  not touched.
\<close>

locale durable_backend =
  fixes b :: "'w Backend" and content :: "'w \<Rightarrow> string \<Rightarrow> bytes option"
  assumes get_keeps: "b_Get b k w = (r, w') \<Longrightarrow> content w' = content w"
    and get_value: "b_Get b k w = (Inr v, w') \<Longrightarrow> content w k = Some v"
    and get_missing: "b_Get b k w = (Inl e, w') \<Longrightarrow> errors_Is e Persist_ErrNotFound \<Longrightarrow> content w k = None"
    and put_done: "b_Put b k v w = (None, w') \<Longrightarrow> content w' = (content w)(k \<mapsto> v)"
    and put_failed: "b_Put b k v w = (Some e, w') \<Longrightarrow> content w' = content w \<or> content w' = (content w)(k \<mapsto> v)"
    and delete_done: "b_Delete b k w = (None, w') \<Longrightarrow> content w' = (content w)(k := None)"
    and delete_failed: "b_Delete b k w = (Some e, w') \<Longrightarrow> content w' = content w \<or> content w' = (content w)(k := None)"
begin

lemma put_grows: "b_Put b k v w = (r, w') \<Longrightarrow> dom (content w) \<subseteq> dom (content w')"
  using put_done [of k v w w'] put_failed [of k v w _ w'] by (cases r) auto

lemma put_elsewhere: "b_Put b k v w = (r, w') \<Longrightarrow> k' \<noteq> k \<Longrightarrow> content w' k' = content w k'"
  using put_done [of k v w w'] put_failed [of k v w _ w'] by (cases r) auto

lemma delete_elsewhere: "b_Delete b k w = (r, w') \<Longrightarrow> k' \<noteq> k \<Longrightarrow> content w' k' = content w k'"
  using delete_done [of k w w'] delete_failed [of k w _ w'] by (cases r) auto

lemma read_back: "b_Put b k v w = (None, w1) \<Longrightarrow> b_Get b k w1 = (Inr v', w2) \<Longrightarrow> v' = v"
  using put_done get_value by fastforce

end

section \<open>The key-value bucket\<close>

text \<open>\<open>jetstream.KeyValue\<close>, as far as the code uses it.\<close>

record 'w KeyValue =
  kv_Get :: "string \<Rightarrow> 'w \<Rightarrow> (gerr + bytes) \<times> 'w"
  kv_Put :: "string \<Rightarrow> bytes \<Rightarrow> 'w \<Rightarrow> gerr option \<times> 'w"
  kv_Delete :: "string \<Rightarrow> 'w \<Rightarrow> gerr option \<times> 'w"

definition KVBackend :: "'w KeyValue \<Rightarrow> 'w Backend" where
  "KVBackend kv =
     \<lparr>b_Get = (\<lambda>key w.
        case kv_Get kv key w of
          (Inl err, w') \<Rightarrow>
            (if errors_Is err Js_ErrKeyNotFound then (Inl (Sentinel Persist_ErrNotFound), w')
             else (Inl (Wrapped (''persist: kv get '' @ key) err), w'))
        | (Inr v, w') \<Rightarrow> (Inr v, w')),
      b_Put = (\<lambda>key v w.
        case kv_Put kv key v w of
          (Some err, w') \<Rightarrow> (Some (Wrapped (''persist: kv put '' @ key) err), w')
        | (None, w') \<Rightarrow> (None, w')),
      b_Delete = (\<lambda>key w.
        case kv_Delete kv key w of
          (Some err, w') \<Rightarrow>
            (if errors_Is err Js_ErrKeyNotFound then (None, w')
             else (Some (Wrapped (''persist: kv delete '' @ key) err), w'))
        | (None, w') \<Rightarrow> (None, w'))\<rparr>"

text \<open>
  The documented behaviour of a bucket. No error of the client wraps the package's own
  \<open>ErrNotFound\<close>.
\<close>

locale kv_bucket =
  fixes kv :: "'w KeyValue" and content :: "'w \<Rightarrow> string \<Rightarrow> bytes option"
  assumes kv_get_keeps: "kv_Get kv k w = (r, w') \<Longrightarrow> content w' = content w"
    and kv_get_value: "kv_Get kv k w = (Inr v, w') \<Longrightarrow> content w k = Some v"
    and kv_get_missing: "kv_Get kv k w = (Inl e, w') \<Longrightarrow> errors_Is e Js_ErrKeyNotFound \<Longrightarrow> content w k = None"
    and kv_own_errors: "kv_Get kv k w = (Inl e, w') \<Longrightarrow> \<not> errors_Is e Persist_ErrNotFound"
    and kv_put_done: "kv_Put kv k v w = (None, w') \<Longrightarrow> content w' = (content w)(k \<mapsto> v)"
    and kv_put_failed: "kv_Put kv k v w = (Some e, w') \<Longrightarrow> content w' = content w \<or> content w' = (content w)(k \<mapsto> v)"
    and kv_delete_done: "kv_Delete kv k w = (None, w') \<Longrightarrow> content w' = (content w)(k := None)"
    and kv_delete_missing: "kv_Delete kv k w = (Some e, w') \<Longrightarrow> errors_Is e Js_ErrKeyNotFound \<Longrightarrow>
          content w' = content w \<and> content w k = None"
    and kv_delete_failed: "kv_Delete kv k w = (Some e, w') \<Longrightarrow>
          content w' = content w \<or> content w' = (content w)(k := None)"

sublocale kv_bucket \<subseteq> over_kv: durable_backend "KVBackend kv" content
proof (unfold_locales, goal_cases)
  case (1 k w r w')
  then show ?case using kv_get_keeps by (fastforce simp: KVBackend_def split: prod.splits sum.splits if_splits)
next
  case (2 k w v w')
  then show ?case using kv_get_value by (fastforce simp: KVBackend_def split: prod.splits sum.splits if_splits)
next
  case (3 k w e w')
  then show ?case using kv_get_missing kv_own_errors
    by (fastforce simp: KVBackend_def split: prod.splits sum.splits if_splits)
next
  case (4 k v w w')
  then show ?case using kv_put_done by (fastforce simp: KVBackend_def split: prod.splits option.splits)
next
  case (5 k v w e w')
  then show ?case using kv_put_failed by (fastforce simp: KVBackend_def split: prod.splits option.splits)
next
  case (6 k w w')
  then show ?case using kv_delete_done kv_delete_missing
    by (fastforce simp: KVBackend_def fun_upd_idem_iff split: prod.splits option.splits if_splits)
next
  case (7 k w e w')
  then show ?case using kv_delete_failed by (fastforce simp: KVBackend_def split: prod.splits option.splits if_splits)
qed

text \<open>A bucket whose contents are a map, and which deletes an absent key with an error.\<close>

definition map_bucket :: "(string \<rightharpoonup> bytes) KeyValue" where
  "map_bucket =
     \<lparr>kv_Get = (\<lambda>k m. case m k of None \<Rightarrow> (Inl (Sentinel Js_ErrKeyNotFound), m) | Some v \<Rightarrow> (Inr v, m)),
      kv_Put = (\<lambda>k v m. (None, m(k \<mapsto> v))),
      kv_Delete = (\<lambda>k m. if m k = None then (Some (Sentinel Js_ErrKeyNotFound), m) else (None, m(k := None)))\<rparr>"

interpretation bucket: kv_bucket map_bucket "\<lambda>m. m"
  by unfold_locales (auto simp: map_bucket_def split: option.splits if_splits)

section \<open>The in-memory backend\<close>

text \<open>\<open>memBackend\<close> of the package's tests: a map, and counters of the operations.\<close>

record mem =
  stored :: "string \<rightharpoonup> bytes"
  gets :: nat
  puts :: nat
  deletes :: nat

definition newMemBackend :: mem where
  "newMemBackend = \<lparr>stored = Map.empty, gets = 0, puts = 0, deletes = 0\<rparr>"

definition memBackend :: "mem Backend" where
  "memBackend =
     \<lparr>b_Get = (\<lambda>key w.
        let w1 = w\<lparr>gets := gets w + 1\<rparr>
        in case stored w key of None \<Rightarrow> (Inl (Sentinel Persist_ErrNotFound), w1) | Some v \<Rightarrow> (Inr v, w1)),
      b_Put = (\<lambda>key v w. (None, w\<lparr>puts := puts w + 1, stored := (stored w)(key \<mapsto> v)\<rparr>)),
      b_Delete = (\<lambda>key w. (None, w\<lparr>deletes := deletes w + 1, stored := (stored w)(key := None)\<rparr>))\<rparr>"

interpretation membackend: durable_backend memBackend stored
  by unfold_locales (auto simp: memBackend_def Let_def split: option.splits)

end
