(* ===== verification/Persist_Store.thy ===== *)
theory Persist_Store
  imports Persist_Backend
begin

text \<open>
  The durable tier of one kind of per-entity state (\<open>persist/store.go\<close>): a bounded set of
  resident entries in least-recently-used order over a backend, with write-through and
  rehydration. Operations hold the store's mutex from start to end, so each is one step.
\<close>

section \<open>Values\<close>

text \<open>
  A codec returns a value even with an error. \<open>json\<close> is \<open>encoding/json\<close> on the envelope,
  \<open>now\<close> the injectable clock, \<open>zero\<close> Go's zero value of \<open>'t\<close>.
\<close>

record 't Codec =
  c_Marshal :: "'t \<Rightarrow> gerr + bytes"
  c_Unmarshal :: "bytes \<Rightarrow> 't \<times> gerr option"

text \<open>The default codec is \<open>encoding/json\<close> at the state's type, \<open>jm\<close> and \<open>ju\<close>.\<close>

definition JSONCodec :: "('t \<Rightarrow> gerr + bytes) \<Rightarrow> (bytes \<Rightarrow> 't \<times> gerr option) \<Rightarrow> 't Codec" where
  "JSONCodec jm ju = \<lparr>c_Marshal = jm, c_Unmarshal = ju\<rparr>"

record envelope =
  env_State :: bytes
  env_LastActive :: instant

record envelope_json =
  j_Marshal :: "envelope \<Rightarrow> gerr + bytes"
  j_Unmarshal :: "bytes \<Rightarrow> gerr + envelope"

type_synonym 't WakeFn = "entity \<Rightarrow> duration \<Rightarrow> 't \<Rightarrow> 't outcome"

record 't entry =
  en_entity :: entity
  en_state :: 't

text \<open>
  \<open>container/list\<close> elements have identity: \<open>cells\<close> holds every element ever pushed, \<open>lru\<close>
  the list's elements by their position in \<open>cells\<close>, hottest first, and \<open>resident\<close> the map
  from entities to elements.
\<close>

record ('t, 'w) Store =
  s_name :: string
  s_b :: "'w Backend"
  s_bound :: int
  s_wake :: "'t WakeFn option"
  s_codec :: "'t Codec"
  s_json :: envelope_json
  s_now :: "'w \<Rightarrow> instant"
  s_zero :: 't
  resident :: "entity \<rightharpoonup> nat"
  lru :: "nat list"
  cells :: "'t entry list"

definition MoveToFront :: "nat \<Rightarrow> nat list \<Rightarrow> nat list" where
  "MoveToFront el l = (if el \<in> set l then el # remove1 el l else l)"

section \<open>Construction\<close>

definition DefaultBound :: int where
  "DefaultBound = 256"

datatype 't StoreOption = WithBound int | WithWake "'t WakeFn" | WithCodec "'t Codec"

record 't config =
  cfg_bound :: int
  cfg_wake :: "'t WakeFn option"
  cfg_codec :: "'t Codec"

text \<open>\<open>WithBound\<close> panics when it is called, before there is an option to apply.\<close>

fun apply_StoreOption :: "'t StoreOption \<Rightarrow> 't config \<Rightarrow> 't config outcome" where
  "apply_StoreOption (WithBound n) c = (if n \<le> 0 then Panicked else Returned (c\<lparr>cfg_bound := n\<rparr>))"
| "apply_StoreOption (WithWake fn) c = Returned (c\<lparr>cfg_wake := Some fn\<rparr>)"
| "apply_StoreOption (WithCodec cd) c = Returned (c\<lparr>cfg_codec := cd\<rparr>)"

fun apply_StoreOptions :: "'t StoreOption list \<Rightarrow> 't config \<Rightarrow> 't config outcome" where
  "apply_StoreOptions [] c = Returned c"
| "apply_StoreOptions (x # xs) c =
     (case apply_StoreOption x c of Panicked \<Rightarrow> Panicked | Returned c' \<Rightarrow> apply_StoreOptions xs c')"

text \<open>\<open>jcodec\<close> is the default \<open>JSONCodec\<close> at the type \<open>'t\<close>.\<close>

definition NewStore ::
  "string \<Rightarrow> 'w Backend \<Rightarrow> 't StoreOption list \<Rightarrow> 't Codec \<Rightarrow> envelope_json \<Rightarrow> ('w \<Rightarrow> instant) \<Rightarrow> 't \<Rightarrow>
   ('t, 'w) Store outcome" where
  "NewStore name b opts jcodec json now zero =
     (if name = [] then Panicked
      else
        case apply_StoreOptions opts \<lparr>cfg_bound = DefaultBound, cfg_wake = None, cfg_codec = jcodec\<rparr> of
          Panicked \<Rightarrow> Panicked
        | Returned cfg \<Rightarrow>
            Returned \<lparr>s_name = name, s_b = b, s_bound = cfg_bound cfg, s_wake = cfg_wake cfg,
                      s_codec = cfg_codec cfg, s_json = json, s_now = now, s_zero = zero,
                      resident = Map.empty, lru = [], cells = []\<rparr>)"

section \<open>Residency\<close>

definition store_key :: "('t, 'w) Store \<Rightarrow> entity \<Rightarrow> string" where
  "store_key st e = s_name st @ ''.'' @ e"

text \<open>
  The loop of \<open>insert\<close>: drop the coldest entry while the list is at the bound. With a bound
  that is not positive it would reach \<open>Back()\<close> of an empty list, which is nil.
\<close>

function evict :: "('t, 'w) Store \<Rightarrow> unit outcome \<times> ('t, 'w) Store" where
  "evict st =
     (if int (length (lru st)) \<ge> s_bound st then
        (if lru st = [] then (Panicked, st)
         else
           let coldest = last (lru st)
           in evict (st\<lparr>lru := butlast (lru st),
                        resident := (resident st)(en_entity (cells st ! coldest) := None)\<rparr>))
      else (Returned (), st))"
  by auto

termination
  by (relation "measure (\<lambda>st. length (lru st))") auto

declare evict.simps [simp del]

definition insert_entry :: "entity \<Rightarrow> 't \<Rightarrow> ('t, 'w) Store \<Rightarrow> unit outcome \<times> ('t, 'w) Store" where
  "insert_entry e v st =
     (case evict st of
        (Panicked, st1) \<Rightarrow> (Panicked, st1)
      | (Returned _, st1) \<Rightarrow>
          (let el = length (cells st1)
           in (Returned (), st1\<lparr>cells := cells st1 @ [\<lparr>en_entity = e, en_state = v\<rparr>],
                                lru := el # lru st1, resident := (resident st1)(e \<mapsto> el)\<rparr>)))"

section \<open>Operations\<close>

text \<open>A result is the value and the error the Go function returns, or a panic.\<close>

type_synonym ('t, 'w) store_result = "('t \<times> gerr option) outcome \<times> ('t, 'w) Store \<times> 'w"

definition admit :: "entity \<Rightarrow> 't \<Rightarrow> ('t, 'w) Store \<Rightarrow> 'w \<Rightarrow> ('t, 'w) store_result" where
  "admit e v st w =
     (case insert_entry e v st of
        (Panicked, st1) \<Rightarrow> (Panicked, st1, w)
      | (Returned _, st1) \<Rightarrow> (Returned (v, None), st1, w))"

definition rehydrate :: "('t, 'w) Store \<Rightarrow> entity \<Rightarrow> bytes \<Rightarrow> 'w \<Rightarrow> ('t \<times> gerr option) outcome" where
  "rehydrate st e raw w =
     (case j_Unmarshal (s_json st) raw of
        Inl err \<Rightarrow> Returned (s_zero st, Some (Wrapped (''persist: decode envelope '' @ e) err))
      | Inr env \<Rightarrow>
          (case c_Unmarshal (s_codec st) (env_State env) of
             (v, Some err) \<Rightarrow> Returned (v, Some (Wrapped (''persist: decode state '' @ e) err))
           | (v, None) \<Rightarrow>
               (case s_wake st of
                  None \<Rightarrow> Returned (v, None)
                | Some f \<Rightarrow>
                    (case f e (time_Sub (s_now st w) (env_LastActive env)) v of
                       Panicked \<Rightarrow> Panicked | Returned v' \<Rightarrow> Returned (v', None)))))"

definition getLocked :: "entity \<Rightarrow> ('t, 'w) Store \<Rightarrow> 'w \<Rightarrow> ('t, 'w) store_result" where
  "getLocked e st w =
     (case resident st e of
        Some el \<Rightarrow> (Returned (en_state (cells st ! el), None), st\<lparr>lru := MoveToFront el (lru st)\<rparr>, w)
      | None \<Rightarrow>
          (case b_Get (s_b st) (store_key st e) w of
             (Inl err, w1) \<Rightarrow>
               if errors_Is err Persist_ErrNotFound then admit e (s_zero st) st w1
               else (Returned (s_zero st, Some err), st, w1)
           | (Inr raw, w1) \<Rightarrow>
               (case rehydrate st e raw w1 of
                  Panicked \<Rightarrow> (Panicked, st, w1)
                | Returned (v, Some err) \<Rightarrow> (Returned (v, Some err), st, w1)
                | Returned (v, None) \<Rightarrow> admit e v st w1)))"

definition store_Get :: "entity \<Rightarrow> ('t, 'w) Store \<Rightarrow> 'w \<Rightarrow> ('t, 'w) store_result" where
  "store_Get e st w = getLocked e st w"

definition reflect :: "entity \<Rightarrow> 't \<Rightarrow> ('t, 'w) Store \<Rightarrow> 'w \<Rightarrow> ('t, 'w) store_result" where
  "reflect e v st w =
     (case resident st e of
        Some el \<Rightarrow>
          (Returned (v, None),
           st\<lparr>cells := (cells st)[el := (cells st ! el)\<lparr>en_state := v\<rparr>], lru := MoveToFront el (lru st)\<rparr>, w)
      | None \<Rightarrow> admit e v st w)"

definition store_Update :: "entity \<Rightarrow> ('t \<Rightarrow> 't outcome) \<Rightarrow> ('t, 'w) Store \<Rightarrow> 'w \<Rightarrow> ('t, 'w) store_result" where
  "store_Update e fn st w =
     (case getLocked e st w of
        (Panicked, st1, w1) \<Rightarrow> (Panicked, st1, w1)
      | (Returned (cur, Some err), st1, w1) \<Rightarrow> (Returned (cur, Some err), st1, w1)
      | (Returned (cur, None), st1, w1) \<Rightarrow>
          (case fn cur of
             Panicked \<Rightarrow> (Panicked, st1, w1)
           | Returned nxt \<Rightarrow>
               (case c_Marshal (s_codec st1) nxt of
                  Inl err \<Rightarrow> (Returned (nxt, Some (Wrapped (''persist: encode state '' @ e) err)), st1, w1)
                | Inr stateRaw \<Rightarrow>
                    (case j_Marshal (s_json st1) \<lparr>env_State = stateRaw, env_LastActive = s_now st1 w1\<rparr> of
                       Inl err \<Rightarrow> (Returned (nxt, Some (Wrapped (''persist: encode envelope '' @ e) err)), st1, w1)
                     | Inr envRaw \<Rightarrow>
                         (case b_Put (s_b st1) (store_key st1 e) envRaw w1 of
                            (Some err, w2) \<Rightarrow> (Returned (nxt, Some err), st1, w2)
                          | (None, w2) \<Rightarrow> reflect e nxt st1 w2)))))"

definition store_Delete :: "entity \<Rightarrow> ('t, 'w) Store \<Rightarrow> 'w \<Rightarrow> gerr option \<times> ('t, 'w) Store \<times> 'w" where
  "store_Delete e st w =
     (case b_Delete (s_b st) (store_key st e) w of
        (Some err, w1) \<Rightarrow> (Some err, st, w1)
      | (None, w1) \<Rightarrow>
          (None,
           case resident st e of
             Some el \<Rightarrow> st\<lparr>lru := remove1 el (lru st), resident := (resident st)(e := None)\<rparr>
           | None \<Rightarrow> st, w1))"

definition Resident :: "('t, 'w) Store \<Rightarrow> int" where
  "Resident st = int (length (lru st))"

end
