(* ===== verification/Persist_Cache.thy ===== *)
theory Persist_Cache
  imports Persist_Store
begin

text \<open>
  What the residency of a \<open>Store\<close> is: the invariant that ties the map of residents, the
  list and its elements together, and the equivalence of the store with a
  least-recently-used cache kept as one association list.
\<close>

section \<open>The invariant\<close>

definition store_ok :: "('t, 'w) Store \<Rightarrow> bool" where
  "store_ok st \<longleftrightarrow>
     0 < s_bound st \<and> int (length (lru st)) \<le> s_bound st \<and> distinct (lru st) \<and>
     (\<forall>el \<in> set (lru st). el < length (cells st) \<and> resident st (en_entity (cells st ! el)) = Some el) \<and>
     (\<forall>e el. resident st e = Some el \<longrightarrow> el \<in> set (lru st) \<and> en_entity (cells st ! el) = e)"

lemma store_okI [intro?]:
  assumes "0 < s_bound st" and "int (length (lru st)) \<le> s_bound st" and "distinct (lru st)"
    and "\<And>el. el \<in> set (lru st) \<Longrightarrow> el < length (cells st)"
    and "\<And>el. el \<in> set (lru st) \<Longrightarrow> resident st (en_entity (cells st ! el)) = Some el"
    and "\<And>e el. resident st e = Some el \<Longrightarrow> el \<in> set (lru st) \<and> en_entity (cells st ! el) = e"
  shows "store_ok st"
  using assms by (simp add: store_ok_def)

lemma store_ok_facts:
  assumes "store_ok st"
  shows ok_bound: "0 < s_bound st"
    and ok_length: "int (length (lru st)) \<le> s_bound st"
    and ok_distinct: "distinct (lru st)"
    and ok_cell: "el \<in> set (lru st) \<Longrightarrow> el < length (cells st)"
    and ok_listed: "el \<in> set (lru st) \<Longrightarrow> resident st (en_entity (cells st ! el)) = Some el"
    and ok_resident: "resident st e = Some el \<Longrightarrow> el \<in> set (lru st) \<and> en_entity (cells st ! el) = e"
  using assms by (auto simp: store_ok_def)

text \<open>What the operations leave alone: everything but the residency.\<close>

definition config_of :: "('t, 'w) Store \<Rightarrow> ('t, 'w) Store" where
  "config_of st = st\<lparr>resident := Map.empty, lru := [], cells := []\<rparr>"

lemma config_of_simps [frame_simps]:
  "config_of (st\<lparr>lru := l\<rparr>) = config_of st"
  "config_of (st\<lparr>resident := r\<rparr>) = config_of st"
  "config_of (st\<lparr>cells := c\<rparr>) = config_of st"
  by (simp_all add: config_of_def)

lemma config_of_fields:
  assumes "config_of st' = config_of st"
  shows "s_name st' = s_name st" and "s_b st' = s_b st" and "s_bound st' = s_bound st"
    and "s_wake st' = s_wake st" and "s_codec st' = s_codec st" and "s_json st' = s_json st"
    and "s_now st' = s_now st" and "s_zero st' = s_zero st"
  using arg_cong [OF assms, of s_name] arg_cong [OF assms, of s_b] arg_cong [OF assms, of s_bound]
    arg_cong [OF assms, of s_wake] arg_cong [OF assms, of s_codec] arg_cong [OF assms, of s_json]
    arg_cong [OF assms, of s_now] arg_cong [OF assms, of s_zero]
  by (simp_all add: config_of_def)

section \<open>The residents as an association list\<close>

definition cell_pair :: "'t entry \<Rightarrow> entity \<times> 't" where
  "cell_pair en = (en_entity en, en_state en)"

definition view :: "('t, 'w) Store \<Rightarrow> (entity \<times> 't) list" where
  "view st = map (\<lambda>el. cell_pair (cells st ! el)) (lru st)"

abbreviation without :: "entity \<Rightarrow> (entity \<times> 't) list \<Rightarrow> (entity \<times> 't) list" where
  "without e c \<equiv> filter (\<lambda>p. fst p \<noteq> e) c"

lemma filter_to_remove1:
  "distinct l \<Longrightarrow> \<forall>x \<in> set l. P x \<longleftrightarrow> x \<noteq> a \<Longrightarrow> filter P l = remove1 a l"
  by (induction l) (auto simp: remove1_idem intro!: filter_True)

lemma ok_same_entity:
  "store_ok st \<Longrightarrow> resident st e = Some el \<Longrightarrow> x \<in> set (lru st) \<Longrightarrow>
     en_entity (cells st ! x) = e \<longleftrightarrow> x = el"
  by (metis ok_listed ok_resident option.inject)

lemma view_without:
  assumes "store_ok st" and "resident st e = Some el"
  shows "map (\<lambda>el. cell_pair (cells st ! el)) (remove1 el (lru st)) = without e (view st)"
proof -
  have "filter (\<lambda>x. fst (cell_pair (cells st ! x)) \<noteq> e) (lru st) = remove1 el (lru st)"
    using assms by (intro filter_to_remove1) (auto simp: ok_distinct ok_same_entity cell_pair_def)
  then show ?thesis by (simp add: view_def filter_map o_def)
qed

lemma map_of_view:
  assumes "store_ok st"
  shows "map_of (view st) e = map_option (\<lambda>el. en_state (cells st ! el)) (resident st e)"
proof (cases "resident st e")
  case None
  then have "e \<notin> fst ` set (view st)"
    using ok_listed [OF assms] by (auto simp: view_def cell_pair_def)
  then show ?thesis using None by (simp add: map_of_eq_None_iff)
next
  case (Some el)
  have "inj_on (\<lambda>x. en_entity (cells st ! x)) (set (lru st))"
    by (rule inj_onI) (metis ok_listed [OF assms] option.inject)
  then have "distinct (map fst (view st))"
    using ok_distinct [OF assms] by (simp add: view_def distinct_map cell_pair_def o_def)
  moreover have "(e, en_state (cells st ! el)) \<in> set (view st)"
    using ok_resident [OF assms Some] by (force simp: view_def cell_pair_def)
  ultimately show ?thesis using Some by simp
qed

lemma view_distinct:
  assumes "store_ok st"
  shows "distinct (map fst (view st))"
proof -
  have "inj_on (\<lambda>x. en_entity (cells st ! x)) (set (lru st))"
    by (rule inj_onI) (metis ok_listed [OF assms] option.inject)
  then show ?thesis
    using ok_distinct [OF assms] by (simp add: view_def distinct_map cell_pair_def o_def)
qed

lemma view_length: "length (view st) = length (lru st)"
  by (simp add: view_def)

section \<open>Touching, evicting and inserting\<close>

lemma touch_ok:
  assumes "store_ok st" and "resident st e = Some el"
  shows "store_ok (st\<lparr>lru := MoveToFront el (lru st)\<rparr>)"
    and "view (st\<lparr>lru := MoveToFront el (lru st)\<rparr>) = (e, en_state (cells st ! el)) # without e (view st)"
proof -
  have el: "el \<in> set (lru st)" "en_entity (cells st ! el) = e"
    using ok_resident [OF assms] by auto
  have len: "int (Suc (length (lru st) - Suc 0)) \<le> s_bound st"
    using ok_length [OF assms(1)] el(1) by (cases "lru st") auto
  show "store_ok (st\<lparr>lru := MoveToFront el (lru st)\<rparr>)"
    using assms(1) el len by (auto simp: store_ok_def MoveToFront_def length_remove1 set_remove1_eq)
  show "view (st\<lparr>lru := MoveToFront el (lru st)\<rparr>) = (e, en_state (cells st ! el)) # without e (view st)"
    unfolding view_without [OF assms, symmetric] using el by (simp add: view_def MoveToFront_def cell_pair_def)
qed

lemma drop_coldest_ok:
  assumes "store_ok st" and "lru st \<noteq> []"
    and "st' = st\<lparr>lru := butlast (lru st),
                  resident := (resident st)(en_entity (cells st ! last (lru st)) := None)\<rparr>"
  shows "store_ok st'" and "view st' = butlast (view st)"
proof -
  let ?c = "last (lru st)"
  have split: "lru st = butlast (lru st) @ [?c]"
    using assms(2) by simp
  have out: "?c \<notin> set (butlast (lru st))"
    using ok_distinct [OF assms(1)] by (subst (asm) split) simp
  have sub: "x \<in> set (butlast (lru st)) \<Longrightarrow> x \<in> set (lru st)" for x
    by (rule in_set_butlastD)
  have inv: "x \<in> set (lru st) \<Longrightarrow> x \<noteq> ?c \<Longrightarrow> x \<in> set (butlast (lru st))" for x
    by (subst (asm) split) simp
  have c: "?c \<in> set (lru st)" using assms(2) by simp
  show "store_ok st'"
  proof (rule store_okI)
    show "0 < s_bound st'" using ok_bound [OF assms(1)] by (simp add: assms(3))
    show "int (length (lru st')) \<le> s_bound st'" using ok_length [OF assms(1)] by (simp add: assms(3))
    show "distinct (lru st')" using ok_distinct [OF assms(1)] by (simp add: assms(3) distinct_butlast)
    show "el < length (cells st')" if "el \<in> set (lru st')" for el
      using that ok_cell [OF assms(1) sub] by (simp add: assms(3))
    show "resident st' (en_entity (cells st' ! el)) = Some el" if "el \<in> set (lru st')" for el
    proof -
      have el: "el \<in> set (butlast (lru st))" using that by (simp add: assms(3))
      have listed: "resident st (en_entity (cells st ! el)) = Some el"
        using ok_listed [OF assms(1) sub [OF el]] .
      have "en_entity (cells st ! el) \<noteq> en_entity (cells st ! ?c)"
      proof
        assume "en_entity (cells st ! el) = en_entity (cells st ! ?c)"
        then have "Some el = Some ?c" using listed ok_listed [OF assms(1) c] by (simp only:)
        then show False using el out by simp
      qed
      then show ?thesis using listed by (simp add: assms(3))
    qed
    show "el \<in> set (lru st') \<and> en_entity (cells st' ! el) = e" if "resident st' e = Some el" for e el
      using that ok_resident [OF assms(1), of e el] inv by (auto simp: assms(3) split: if_splits)
  qed
  show "view st' = butlast (view st)"
    by (simp add: assms(3) view_def map_butlast)
qed

lemma evict_ok:
  assumes "store_ok st"
  obtains st1 where "evict st = (Returned (), st1)" and "store_ok st1" and "config_of st1 = config_of st"
    and "view st1 = take (nat (s_bound st - 1)) (view st)" and "int (length (lru st1)) < s_bound st1"
    and "resident st1 \<subseteq>\<^sub>m resident st"
proof (cases "int (length (lru st)) \<ge> s_bound st")
  case True
  then have full: "int (length (lru st)) = s_bound st" and ne: "lru st \<noteq> []"
    using ok_length [OF assms] ok_bound [OF assms] by auto
  define st1 where "st1 = st\<lparr>lru := butlast (lru st),
                  resident := (resident st)(en_entity (cells st ! last (lru st)) := None)\<rparr>"
  have room: "int (length (lru st1)) < s_bound st1"
    using full ne ok_bound [OF assms] by (simp add: st1_def)
  show thesis
  proof (rule that)
    have "evict st = evict st1"
      using True ne by (subst evict.simps) (simp add: st1_def Let_def)
    also have "\<dots> = (Returned (), st1)"
      using room by (subst evict.simps) simp
    finally show "evict st = (Returned (), st1)" .
    show "store_ok st1" by (rule drop_coldest_ok(1) [OF assms ne st1_def])
    show "config_of st1 = config_of st" by (simp add: st1_def frame_simps)
    have "nat (s_bound st - 1) = length (view st) - 1" using full by (simp add: view_length)
    then show "view st1 = take (nat (s_bound st - 1)) (view st)"
      using drop_coldest_ok(2) [OF assms ne st1_def] by (simp add: butlast_conv_take)
    show "int (length (lru st1)) < s_bound st1" by (rule room)
    show "resident st1 \<subseteq>\<^sub>m resident st" by (auto simp: st1_def map_le_def)
  qed
next
  case False
  show thesis
    using False assms by (intro that [of st]) (auto simp: evict.simps view_length)
qed

lemma insert_entry_ok:
  assumes "store_ok st" and "resident st e = None"
  obtains st1 where "insert_entry e v st = (Returned (), st1)" and "store_ok st1"
    and "config_of st1 = config_of st" and "view st1 = (e, v) # take (nat (s_bound st - 1)) (view st)"
proof (rule evict_ok [OF assms(1)])
  fix st0
  assume ev: "evict st = (Returned (), st0)" and ok: "store_ok st0" and cfg: "config_of st0 = config_of st"
    and vw: "view st0 = take (nat (s_bound st - 1)) (view st)" and room: "int (length (lru st0)) < s_bound st0"
    and sub: "resident st0 \<subseteq>\<^sub>m resident st"
  define st1 where "st1 = st0\<lparr>cells := cells st0 @ [\<lparr>en_entity = e, en_state = v\<rparr>],
                               lru := length (cells st0) # lru st0, resident := (resident st0)(e \<mapsto> length (cells st0))\<rparr>"
  have absent: "resident st0 e = None"
    using sub assms(2) by (metis domIff map_le_implies_dom_le subsetD)
  note old = ok_cell [OF ok] ok_listed [OF ok] ok_resident [OF ok]
  show thesis
  proof (rule that)
    show "insert_entry e v st = (Returned (), st1)" by (simp add: insert_entry_def ev st1_def Let_def)
    show "store_ok st1"
    proof (rule store_okI)
      show "0 < s_bound st1" "int (length (lru st1)) \<le> s_bound st1"
        using ok_bound [OF ok] room by (simp_all add: st1_def)
      show "distinct (lru st1)" using ok_distinct [OF ok] old(1) by (auto simp: st1_def)
      show "el < length (cells st1)" if "el \<in> set (lru st1)" for el
        using that old(1) by (force simp: st1_def)
      show "resident st1 (en_entity (cells st1 ! el)) = Some el" if "el \<in> set (lru st1)" for el
        using that old(1,2) absent by (fastforce simp: st1_def nth_append)
      show "el \<in> set (lru st1) \<and> en_entity (cells st1 ! el) = x" if "resident st1 x = Some el" for x el
        using that old(1) [of el] old(3) [of x el] by (auto simp: st1_def nth_append split: if_splits)
    qed
    show "config_of st1 = config_of st" by (simp add: st1_def frame_simps cfg)
    have "view st1 = (e, v) # view st0"
      using old(1) by (auto simp: st1_def view_def cell_pair_def nth_append)
    then show "view st1 = (e, v) # take (nat (s_bound st - 1)) (view st)" by (simp add: vw)
  qed
qed

section \<open>The reference cache\<close>

text \<open>
  The store as one would specify it: the residents are an association list, hottest first,
  a new resident pushes the coldest out when the list is full. \<open>fetch\<close> is what an access
  that misses gets from the backend, the codec and the wake hook, \<open>save\<close> what an update
  sends to the backend; only the configuration of \<open>cfg\<close> is used.
\<close>

type_synonym 't lru_cache = "(entity \<times> 't) list"

definition fetch :: "('t, 'w) Store \<Rightarrow> entity \<Rightarrow> 'w \<Rightarrow> ('t \<times> gerr option) outcome \<times> 'w" where
  "fetch cfg e w =
     (case b_Get (s_b cfg) (store_key cfg e) w of
        (Inl err, w1) \<Rightarrow>
          (Returned (s_zero cfg, if errors_Is err Persist_ErrNotFound then None else Some err), w1)
      | (Inr raw, w1) \<Rightarrow> (rehydrate cfg e raw w1, w1))"

definition save :: "('t, 'w) Store \<Rightarrow> entity \<Rightarrow> 't \<Rightarrow> 'w \<Rightarrow> gerr option \<times> 'w" where
  "save cfg e v w =
     (case c_Marshal (s_codec cfg) v of
        Inl err \<Rightarrow> (Some (Wrapped (''persist: encode state '' @ e) err), w)
      | Inr stateRaw \<Rightarrow>
          (case j_Marshal (s_json cfg) \<lparr>env_State = stateRaw, env_LastActive = s_now cfg w\<rparr> of
             Inl err \<Rightarrow> (Some (Wrapped (''persist: encode envelope '' @ e) err), w)
           | Inr envRaw \<Rightarrow> b_Put (s_b cfg) (store_key cfg e) envRaw w))"

definition ref_Get ::
  "('t, 'w) Store \<Rightarrow> entity \<Rightarrow> 't lru_cache \<Rightarrow> 'w \<Rightarrow> ('t \<times> gerr option) outcome \<times> 't lru_cache \<times> 'w" where
  "ref_Get cfg e c w =
     (case map_of c e of
        Some v \<Rightarrow> (Returned (v, None), (e, v) # without e c, w)
      | None \<Rightarrow>
          (case fetch cfg e w of
             (Returned (v, None), w1) \<Rightarrow> (Returned (v, None), (e, v) # take (nat (s_bound cfg - 1)) c, w1)
           | (r, w1) \<Rightarrow> (r, c, w1)))"

definition ref_Update ::
  "('t, 'w) Store \<Rightarrow> entity \<Rightarrow> ('t \<Rightarrow> 't outcome) \<Rightarrow> 't lru_cache \<Rightarrow> 'w \<Rightarrow>
   ('t \<times> gerr option) outcome \<times> 't lru_cache \<times> 'w" where
  "ref_Update cfg e fn c w =
     (case ref_Get cfg e c w of
        (Returned (cur, None), c1, w1) \<Rightarrow>
          (case fn cur of
             Panicked \<Rightarrow> (Panicked, c1, w1)
           | Returned nxt \<Rightarrow>
               (case save cfg e nxt w1 of
                  (Some err, w2) \<Rightarrow> (Returned (nxt, Some err), c1, w2)
                | (None, w2) \<Rightarrow> (Returned (nxt, None), (e, nxt) # without e c1, w2)))
      | r \<Rightarrow> r)"

definition ref_Delete ::
  "('t, 'w) Store \<Rightarrow> entity \<Rightarrow> 't lru_cache \<Rightarrow> 'w \<Rightarrow> gerr option \<times> 't lru_cache \<times> 'w" where
  "ref_Delete cfg e c w =
     (case b_Delete (s_b cfg) (store_key cfg e) w of
        (Some err, w1) \<Rightarrow> (Some err, c, w1)
      | (None, w1) \<Rightarrow> (None, without e c, w1))"

definition abs_step :: "('r \<times> ('t, 'w) Store \<times> 'w) \<Rightarrow> 'r \<times> 't lru_cache \<times> 'w" where
  "abs_step = (\<lambda>(r, st, w). (r, view st, w))"

definition keeps :: "('t, 'w) Store \<Rightarrow> ('r \<times> ('t, 'w) Store \<times> 'w) \<Rightarrow> bool" where
  "keeps st = (\<lambda>(r, st', w). store_ok st' \<and> config_of st' = config_of st)"

lemma keeps_simp [simp]: "keeps st (r, st', w) \<longleftrightarrow> store_ok st' \<and> config_of st' = config_of st"
  by (simp add: keeps_def)

lemma abs_step_simp [simp]: "abs_step (r, st, w) = (r, view st, w)"
  by (simp add: abs_step_def)

lemma getLocked_hit:
  "resident st e = Some el \<Longrightarrow>
     getLocked e st w = (Returned (en_state (cells st ! el), None), st\<lparr>lru := MoveToFront el (lru st)\<rparr>, w)"
  by (simp add: getLocked_def)

lemma getLocked_miss:
  "resident st e = None \<Longrightarrow>
     getLocked e st w =
       (case fetch st e w of
          (Returned (v, None), w1) \<Rightarrow> admit e v st w1
        | (r, w1) \<Rightarrow> (r, st, w1))"
  by (auto simp: getLocked_def fetch_def split: prod.split sum.split outcome.split option.split)

lemma admit_is_ref:
  assumes "store_ok st" and "resident st e = None"
  shows "keeps st (admit e v st w)"
    and "abs_step (admit e v st w) = (Returned (v, None), (e, v) # take (nat (s_bound st - 1)) (view st), w)"
  by (rule insert_entry_ok [OF assms, of v]; simp add: admit_def)+

lemma getLocked_is_ref:
  assumes "store_ok st"
  shows "keeps st (getLocked e st w)" and "abs_step (getLocked e st w) = ref_Get st e (view st) w"
proof (atomize (full), cases "resident st e")
  case None
  note adm = admit_is_ref [OF assms None]
  have "map_of (view st) e = None" using None assms by (simp add: map_of_view)
  then show "keeps st (getLocked e st w) \<and> abs_step (getLocked e st w) = ref_Get st e (view st) w"
    using assms by (simp add: getLocked_miss [OF None] ref_Get_def adm split: prod.split outcome.split option.split)
next
  case (Some el)
  then show "keeps st (getLocked e st w) \<and> abs_step (getLocked e st w) = ref_Get st e (view st) w"
    using assms touch_ok [OF assms Some]
    by (simp add: getLocked_hit ref_Get_def map_of_view frame_simps)
qed

lemma rehydrate_cong:
  assumes "config_of st' = config_of st"
  shows "rehydrate st' = rehydrate st"
  by (intro ext) (simp only: rehydrate_def config_of_fields [OF assms])

lemma save_cong:
  assumes "config_of st' = config_of st"
  shows "save st' = save st"
  by (intro ext) (simp only: save_def store_key_def config_of_fields [OF assms])

lemma fetch_cong:
  assumes "config_of st' = config_of st"
  shows "fetch st' = fetch st"
  by (intro ext) (simp only: fetch_def rehydrate_cong [OF assms] store_key_def config_of_fields [OF assms])

lemma ref_cong:
  assumes "config_of st' = config_of st"
  shows "ref_Get st' = ref_Get st" and "ref_Update st' = ref_Update st" and "ref_Delete st' = ref_Delete st"
proof -
  show get: "ref_Get st' = ref_Get st"
    unfolding ref_Get_def fetch_cong [OF assms] config_of_fields [OF assms] ..
  show "ref_Update st' = ref_Update st"
    unfolding ref_Update_def get save_cong [OF assms] ..
  show "ref_Delete st' = ref_Delete st"
    unfolding ref_Delete_def store_key_def config_of_fields [OF assms] ..
qed

lemma store_Update_save:
  "store_Update e fn st w =
     (case getLocked e st w of
        (Returned (cur, None), st1, w1) \<Rightarrow>
          (case fn cur of
             Panicked \<Rightarrow> (Panicked, st1, w1)
           | Returned nxt \<Rightarrow>
               (case save st1 e nxt w1 of
                  (Some err, w2) \<Rightarrow> (Returned (nxt, Some err), st1, w2)
                | (None, w2) \<Rightarrow> reflect e nxt st1 w2))
      | r \<Rightarrow> r)"
  by (auto simp: store_Update_def save_def split: prod.split sum.split outcome.split option.split)

lemma reflect_is_ref:
  assumes ok: "store_ok st" and el: "resident st e = Some el"
  shows "keeps st (reflect e v st w)"
    and "abs_step (reflect e v st w) = (Returned (v, None), (e, v) # without e (view st), w)"
proof -
  define st1 where "st1 = st\<lparr>cells := (cells st)[el := (cells st ! el)\<lparr>en_state := v\<rparr>]\<rparr>"
  have cell: "el \<in> set (lru st)" "en_entity (cells st ! el) = e" "el < length (cells st)"
    using ok_resident [OF ok el] ok_cell [OF ok] by auto
  have ent: "en_entity (cells st1 ! x) = en_entity (cells st ! x)" for x
    using cell by (cases "x = el") (simp_all add: st1_def)
  have ok1: "store_ok st1"
    using ok ent unfolding store_ok_def by (simp add: st1_def)
  have el1: "resident st1 e = Some el" and at: "en_state (cells st1 ! el) = v"
    using el cell by (simp_all add: st1_def)
  have cfg: "config_of st1 = config_of st" by (simp add: st1_def frame_simps)
  have vw: "without e (view st1) = without e (view st)"
    unfolding view_without [OF ok el, symmetric] view_without [OF ok1 el1, symmetric]
    using ok_distinct [OF ok] by (auto simp: st1_def cell_pair_def nth_list_update)
  have step: "reflect e v st w = (Returned (v, None), st1\<lparr>lru := MoveToFront el (lru st1)\<rparr>, w)"
    by (simp add: reflect_def el st1_def)
  show "keeps st (reflect e v st w)"
    "abs_step (reflect e v st w) = (Returned (v, None), (e, v) # without e (view st), w)"
    using touch_ok [OF ok1 el1] by (simp_all add: step frame_simps cfg at vw)
qed

lemma getLocked_success:
  assumes "store_ok st" and "getLocked e st w = (Returned (v, None), st1, w1)"
  shows "store_ok st1" and "config_of st1 = config_of st" and "map_of (view st1) e = Some v"
    and "ref_Get st e (view st) w = (Returned (v, None), view st1, w1)"
proof -
  show "store_ok st1" "config_of st1 = config_of st"
    and r: "ref_Get st e (view st) w = (Returned (v, None), view st1, w1)"
    using getLocked_is_ref [OF assms(1), of e w] by (simp_all add: assms(2))
  have "\<exists>c. (e, v) # c = view st1"
    using r by (auto simp: ref_Get_def split: option.splits outcome.splits prod.splits)
  then obtain c where "view st1 = (e, v) # c" by metis
  then show "map_of (view st1) e = Some v" by simp
qed

lemma Update_is_ref:
  assumes "store_ok st"
  shows "keeps st (store_Update e fn st w)"
    and "abs_step (store_Update e fn st w) = ref_Update st e fn (view st) w"
proof -
  have "keeps st (store_Update e fn st w) \<and>
        abs_step (store_Update e fn st w) = ref_Update st e fn (view st) w"
  proof (cases "\<exists>cur st1 w1. getLocked e st w = (Returned (cur, None), st1, w1)")
    case False
    with getLocked_is_ref [OF assms, of e w] show ?thesis
      by (auto simp: store_Update_save ref_Update_def keeps_def abs_step_def
          split: prod.splits outcome.splits option.splits)
  next
    case True
    then obtain cur st1 w1 where get: "getLocked e st w = (Returned (cur, None), st1, w1)" by blast
    note st1 = getLocked_success [OF assms get]
    obtain el where el: "resident st1 e = Some el"
      using st1(1,3) by (auto simp: map_of_view)
    have refl: "keeps st (reflect e v st1 w')"
      "abs_step (reflect e v st1 w') = (Returned (v, None), (e, v) # without e (view st1), w')" for v w'
      using reflect_is_ref [OF st1(1) el] st1(2) by (auto simp: keeps_def)
    with st1(1,2) show ?thesis
      by (simp add: store_Update_save get ref_Update_def st1(4) save_cong [OF st1(2)]
          split: outcome.split prod.split option.split)
  qed
  then show "keeps st (store_Update e fn st w)"
    and "abs_step (store_Update e fn st w) = ref_Update st e fn (view st) w" by auto
qed

lemma drop_ok:
  assumes "store_ok st" and "resident st e = Some el"
  shows "store_ok (st\<lparr>lru := remove1 el (lru st), resident := (resident st)(e := None)\<rparr>)"
proof -
  have el: "el \<in> set (lru st)" "en_entity (cells st ! el) = e"
    using ok_resident [OF assms] by auto
  have other: "en_entity (cells st ! x) \<noteq> e" if "x \<in> set (lru st)" "x \<noteq> el" for x
    using ok_same_entity [OF assms that(1)] that(2) by simp
  note ok = assms(1)
  show ?thesis
  proof (rule store_okI, goal_cases)
    case 1
    then show ?case using ok_bound [OF ok] by simp
  next
    case 2
    then show ?case using ok_length [OF ok] el(1) by (simp add: length_remove1)
  next
    case 3
    then show ?case using ok_distinct [OF ok] by simp
  next
    case (4 x)
    then show ?case using ok_cell [OF ok, of x] by (simp add: ok_distinct [OF ok])
  next
    case (5 x)
    then show ?case using ok_listed [OF ok, of x] other [of x] by (simp add: ok_distinct [OF ok])
  next
    case (6 x y)
    then show ?case using ok_resident [OF ok, of x y] el(2)
      by (auto simp: ok_distinct [OF ok] split: if_splits)
  qed
qed

lemma Delete_is_ref:
  assumes "store_ok st"
  shows "keeps st (store_Delete e st w)" and "abs_step (store_Delete e st w) = ref_Delete st e (view st) w"
proof -
  have "without e (view st) = view st" if "resident st e = None"
    using map_of_view [OF assms, of e] that by (auto simp: filter_id_conv map_of_eq_None_iff)
  then show "keeps st (store_Delete e st w)" and "abs_step (store_Delete e st w) = ref_Delete st e (view st) w"
    using assms view_without [OF assms, of e] drop_ok [OF assms, of e]
    by (auto simp: store_Delete_def ref_Delete_def frame_simps view_def split: prod.split option.split)
qed

end
