(* ===== verification/Go_Time.thy ===== *)
theory Go_Time
  imports Go_Std "HOL-Library.Monad_Syntax"
begin

text \<open>
  The standard library's calendar, as far as the program uses it: rendering an instant with
  \<open>time.RFC3339Nano\<close> in UTC, and parsing that format, with a zone offset; the round trip
  holds for the years 0 to 9999 that the format can express. Instants count nanoseconds from 1970-01-01T00:00:00Z.
\<close>

section \<open>Days and civil dates\<close>

text \<open>
  Years are counted from March, so that the leap day is the last of its year: a cycle of 400
  years splits into centuries, these into four-year groups, these into years, the last of
  each taking the extra day.
\<close>

definition year_split :: "int \<Rightarrow> int \<times> int \<times> int \<times> int" where
  "year_split doe =
     (let c = min 3 (doe div 36524); r = doe - c * 36524;
          q = r div 1461; r4 = r mod 1461;
          n = min 3 (r4 div 365)
      in (c, q, n, r4 - n * 365))"

definition civil_from_days :: "int \<Rightarrow> int \<times> int \<times> int" where
  "civil_from_days d =
     (let z = d + 719468; era = z div 146097;
          (c, q, n, doy) = year_split (z mod 146097);
          yoe = 100 * c + 4 * q + n;
          mp = (5 * doy + 2) div 153;
          day = doy - (153 * mp + 2) div 5 + 1;
          m = (if mp < 10 then mp + 3 else mp - 9)
      in (era * 400 + yoe + (if m \<le> 2 then 1 else 0), m, day))"

definition days_from_civil :: "int \<Rightarrow> int \<Rightarrow> int \<Rightarrow> int" where
  "days_from_civil y m d =
     (let y' = (if m \<le> 2 then y - 1 else y); era = y' div 400; yoe = y' mod 400;
          mp = (if m > 2 then m - 3 else m + 9);
          doy = (153 * mp + 2) div 5 + d - 1
      in era * 146097 + (yoe * 365 + yoe div 4 - yoe div 100 + doy) - 719468)"

definition leap :: "int \<Rightarrow> bool" where
  "leap y \<longleftrightarrow> (y mod 4 = 0 \<and> y mod 100 \<noteq> 0) \<or> y mod 400 = 0"

definition days_in :: "int \<Rightarrow> int \<Rightarrow> int" where
  "days_in y m = (if m = 2 then (if leap y then 29 else 28) else if m \<in> {4, 6, 9, 11} then 30 else 31)"

lemma year_split_bounds:
  assumes "year_split doe = (c, q, n, doy)" and "0 \<le> doe" and "doe < 146097"
  shows "0 \<le> c" "c \<le> 3" "0 \<le> q" "q \<le> 24" "0 \<le> n" "n \<le> 3" "0 \<le> doy" "doy \<le> 365"
    and "doe = c * 36524 + q * 1461 + n * 365 + doy"
    and "doy = 365 \<Longrightarrow> n = 3 \<and> (q = 24 \<longrightarrow> c = 3)"
proof -
  define r where "r = doe - c * 36524"
  define r4 where "r4 = r mod 1461"
  have c: "c = min 3 (doe div 36524)" and q: "q = r div 1461" and n: "n = min 3 (r4 div 365)"
    and doy: "doy = r4 - n * 365"
    using assms(1) by (auto simp: year_split_def r_def r4_def Let_def)
  show c0: "0 \<le> c" and c3: "c \<le> 3" using c assms(2) by auto
  have cle: "c \<le> doe div 36524" using c by simp
  then have r0: "0 \<le> r" using assms(2) unfolding r_def by linarith
  have r1: "r \<le> 36524"
  proof (cases "doe div 36524 \<le> 3")
    case True
    then have "c = doe div 36524" using c by simp
    then show ?thesis unfolding r_def by linarith
  next
    case False
    then have "c = 3" using c by simp
    then show ?thesis using assms(3) unfolding r_def by linarith
  qed
  show "0 \<le> q" "q \<le> 24" using q r0 r1 by linarith+
  have r4: "0 \<le> r4" "r4 < 1461" by (simp_all add: r4_def)
  show n0: "0 \<le> n" and n3: "n \<le> 3" using n r4 by auto
  have nle: "n \<le> r4 div 365" using n by simp
  then show "0 \<le> doy" using doy r4 by linarith
  show le: "doy \<le> 365"
  proof (cases "r4 div 365 \<le> 3")
    case True
    then have "n = r4 div 365" using n by simp
    then show ?thesis using doy by linarith
  next
    case False
    then have "n = 3" using n by simp
    then show ?thesis using doy r4 by linarith
  qed
  have rq: "r = q * 1461 + r4" using q r4_def by (simp add: mult.commute)
  then show "doe = c * 36524 + q * 1461 + n * 365 + doy" using doy r_def by linarith
  assume last: "doy = 365"
  have "n = 3"
  proof (rule ccontr)
    assume "n \<noteq> 3"
    then have "n = r4 div 365" using n by auto
    then show False using doy last r4 by linarith
  qed
  moreover have "q = 24 \<Longrightarrow> c = 3"
  proof -
    assume "q = 24"
    then have "r = 36524" using rq doy last \<open>n = 3\<close> by linarith
    then have "doe = (c + 1) * 36524" by (simp add: r_def algebra_simps)
    then have "doe div 36524 = c + 1" by simp
    then show "c = 3" using c by auto
  qed
  ultimately show "n = 3 \<and> (q = 24 \<longrightarrow> c = 3)" by blast
qed

lemma month_bounds:
  assumes "0 \<le> doy" and "doy \<le> (365::int)"
  shows "0 \<le> (5 * doy + 2) div 153" and "(5 * doy + 2) div 153 \<le> 11"
  using assms by linarith+

lemma month_day:
  fixes doy :: int
  assumes "0 \<le> doy" and "doy \<le> 365" and "mp = (5 * doy + 2) div 153"
  shows "1 \<le> doy - (153 * mp + 2) div 5 + 1"
    and "doy - (153 * mp + 2) div 5 + 1 \<le>
         (if mp = 11 then (if doy = 365 then 29 else 28) else if mp \<in> {1, 3, 6, 8} then 30 else 31)"
proof -
  have "mp = 0 \<or> mp = 1 \<or> mp = 2 \<or> mp = 3 \<or> mp = 4 \<or> mp = 5 \<or> mp = 6 \<or> mp = 7 \<or> mp = 8 \<or> mp = 9 \<or> mp = 10 \<or> mp = 11"
    using month_bounds [OF assms(1,2)] unfolding assms(3) [symmetric] by presburger
  then show "1 \<le> doy - (153 * mp + 2) div 5 + 1"
    and "doy - (153 * mp + 2) div 5 + 1 \<le>
         (if mp = 11 then (if doy = 365 then 29 else 28) else if mp \<in> {1, 3, 6, 8} then 30 else 31)"
    using assms by (elim disjE; simp; linarith)+
qed

lemma days_civil:
  assumes "civil_from_days d = (y, m, dd)"
  shows "days_from_civil y m dd = d" and "1 \<le> m" and "m \<le> 12" and "1 \<le> dd" and "dd \<le> days_in y m"
proof -
  define z where "z = d + 719468"
  define era where "era = z div 146097"
  define doe where "doe = z mod 146097"
  obtain c q n doy where sp: "year_split doe = (c, q, n, doy)" by (metis prod_cases4)
  define yoe where "yoe = 100 * c + 4 * q + n"
  define mp where "mp = (5 * doy + 2) div 153"
  have eqs: "m = (if mp < 10 then mp + 3 else mp - 9)" "dd = doy - (153 * mp + 2) div 5 + 1"
    "y = era * 400 + yoe + (if m \<le> 2 then 1 else 0)"
    using assms sp by (auto simp: civil_from_days_def Let_def z_def era_def doe_def yoe_def mp_def)
  have doe: "0 \<le> doe" "doe < 146097" by (simp_all add: doe_def)
  note b = year_split_bounds [OF sp doe]
  have mp: "0 \<le> mp" "mp \<le> 11" using month_bounds [OF b(7,8)] by (simp_all add: mp_def)
  show m: "1 \<le> m" "m \<le> 12" using eqs(1) mp by auto
  note md = month_day [OF b(7,8) mp_def]
  show "1 \<le> dd" using md(1) eqs(2) by simp
  have yoe: "0 \<le> yoe" "yoe < 400" using b by (simp_all add: yoe_def)
  have y': "(if m \<le> 2 then y - 1 else y) = era * 400 + yoe" using eqs(3) by simp
  have parts: "(era * 400 + yoe) div 400 = era" "(era * 400 + yoe) mod 400 = yoe" using yoe by simp_all
  have mp': "(if m > 2 then m - 3 else m + 9) = mp" using eqs(1) mp by auto
  have "yoe div 4 = 25 * c + q" using b by (simp add: yoe_def) 
  moreover have "yoe div 100 = c" using b by (simp add: yoe_def)
  ultimately have "yoe * 365 + yoe div 4 - yoe div 100 + doy = doe"
    using b(9) by (simp add: yoe_def)
  then show "days_from_civil y m dd = d"
    using eqs(2) unfolding days_from_civil_def Let_def y' parts mp'
    by (simp add: z_def era_def doe_def) 
  show "dd \<le> days_in y m"
  proof (cases "mp = 11 \<and> doy = 365")
    case True
    then have m2: "m = 2" and n3: "n = 3" and q24: "q = 24 \<Longrightarrow> c = 3" using eqs(1) b(10) by auto
    have yy: "y = era * 400 + 100 * c + 4 * (q + 1)" using eqs(3) m2 n3 by (simp add: yoe_def)
    have "leap y"
    proof (cases "q = 24")
      case True
      then have "y = (era + 1) * 400" using yy q24 by simp
      then show ?thesis by (simp add: leap_def)
    next
      case False
      have "y = 4 * (era * 100 + 25 * c + q + 1)" using yy by simp
      then have "y mod 4 = 0" by simp
      moreover have "y mod 100 = 4 * (q + 1)"
      proof -
        have "y = 4 * (q + 1) + 100 * (era * 4 + c)" using yy by simp
        moreover have "(4 * (q + 1) + 100 * k) mod 100 = 4 * (q + 1)" for k
          using b(3,4) False by (simp only: mod_mult_self2 mod_pos_pos_trivial) simp
        ultimately show ?thesis by (simp only:)
      qed
      ultimately show ?thesis using b(3) by (simp add: leap_def)
    qed
    then show ?thesis using md(2) eqs(2) m2 True by (simp add: days_in_def)
  next
    case False
    then show ?thesis using md(2) eqs(1,2) mp by (auto simp: days_in_def split: if_splits)
  qed
qed

section \<open>Fixed-width numerals\<close>

fun digits :: "nat \<Rightarrow> nat \<Rightarrow> string" where
  "digits 0 n = []"
| "digits (Suc k) n = digits k (n div 10) @ [digit (n mod 10)]"

lemma digits_length [simp]: "length (digits k n) = k"
  by (induction k n rule: digits.induct) auto

definition is_digit :: "char \<Rightarrow> bool" where
  "is_digit c \<longleftrightarrow> 48 \<le> (of_char c :: nat) \<and> (of_char c :: nat) \<le> 57"

lemma is_digit_digit [simp]: "d < 10 \<Longrightarrow> is_digit (digit d)"
  by (simp add: is_digit_def digit_def)

lemma digits_are_digits: "list_all is_digit (digits k n)"
  by (induction k n rule: digits.induct) auto

lemma dec_parse_append: "dec_parse a (xs @ [c]) = dec_parse a xs * 10 + digit_value c"
  by (induction xs arbitrary: a) auto

lemma dec_parse_digits: "n < 10 ^ k \<Longrightarrow> dec_parse 0 (digits k n) = n"
proof (induction k n rule: digits.induct)
  case (2 k n)
  then have "n div 10 < 10 ^ k" by (simp add: div_less_iff_less_mult mult.commute)
  with 2 show ?case by (simp add: dec_parse_append)
qed simp

text \<open>Reading exactly \<open>k\<close> digits, or one given character, off the front of a string.\<close>

definition num :: "nat \<Rightarrow> string \<Rightarrow> (nat \<times> string) option" where
  "num k s =
     (let ds = take k s
      in if length ds = k \<and> list_all is_digit ds then Some (dec_parse 0 ds, drop k s) else None)"

fun lit :: "char \<Rightarrow> string \<Rightarrow> string option" where
  "lit c [] = None"
| "lit c (x # xs) = (if x = c then Some xs else None)"

lemma num_digits: "n < 10 ^ k \<Longrightarrow> num k (digits k n @ rest) = Some (n, rest)"
  by (simp add: num_def digits_are_digits dec_parse_digits)

section \<open>Fractions of a second\<close>

definition trim_zeros :: "string \<Rightarrow> string" where
  "trim_zeros s = rev (dropWhile (\<lambda>c. c = CHR ''0'') (rev s))"

definition frac :: "nat \<Rightarrow> string" where
  "frac ns = (let t = trim_zeros (digits 9 ns) in if t = [] then [] else CHR ''.'' # t)"

text \<open>The digits after the point, read as nanoseconds; what follows the ninth is dropped.\<close>

definition frac_value :: "string \<Rightarrow> nat" where
  "frac_value ds = dec_parse 0 (take 9 (ds @ replicate 9 (CHR ''0'')))"

definition parse_frac :: "string \<Rightarrow> (nat \<times> string) option" where
  "parse_frac s =
     (case s of
        [] \<Rightarrow> Some (0, s)
      | c # cs \<Rightarrow>
          if c = CHR ''.'' then
            (let ds = takeWhile is_digit cs
             in if ds = [] then None else Some (frac_value ds, dropWhile is_digit cs))
          else Some (0, s))"

lemma trim_zeros_append: "\<exists>k. s = trim_zeros s @ replicate k (CHR ''0'')"
proof -
  define t where "t = takeWhile (\<lambda>c. c = CHR ''0'') (rev s)"
  have all: "\<forall>c \<in> set t. c = CHR ''0''" unfolding t_def by (auto dest: set_takeWhileD)
  have "rev s = t @ dropWhile (\<lambda>c. c = CHR ''0'') (rev s)" by (simp add: t_def)
  then have "s = trim_zeros s @ rev t" unfolding trim_zeros_def by (metis rev_append rev_rev_ident)
  moreover have "rev t = replicate (length t) (CHR ''0'')"
    using all by (metis length_rev replicate_eqI set_rev)
  ultimately show ?thesis by metis
qed

lemma frac_value_trim: "ns < 10 ^ 9 \<Longrightarrow> frac_value (trim_zeros (digits 9 ns)) = ns"
proof -
  assume ns: "ns < 10 ^ 9"
  obtain k where k: "digits 9 ns = trim_zeros (digits 9 ns) @ replicate k (CHR ''0'')"
    using trim_zeros_append by blast
  have len: "length (trim_zeros (digits 9 ns)) + k = 9"
    using arg_cong [OF k, of length] by simp
  have "take 9 (trim_zeros (digits 9 ns) @ replicate 9 (CHR ''0'')) = digits 9 ns"
    by (subst k) (use len in \<open>simp add: take_replicate\<close>)
  then show ?thesis using ns by (simp only: frac_value_def dec_parse_digits)
qed

lemma parse_frac_frac:
  assumes "ns < 10 ^ 9" and "rest \<noteq> []" and "\<not> is_digit (hd rest)" and "hd rest \<noteq> CHR ''.''"
  shows "parse_frac (frac ns @ rest) = Some (ns, rest)"
proof (cases "trim_zeros (digits 9 ns) = []")
  case True
  moreover have "frac_value [] = 0" by code_simp
  ultimately have "ns = 0" using frac_value_trim [OF assms(1)] by simp
  then show ?thesis using True assms by (cases rest) (auto simp: frac_def parse_frac_def)
next
  case False
  let ?t = "trim_zeros (digits 9 ns)"
  obtain k where k: "digits 9 ns = ?t @ replicate k (CHR ''0'')" using trim_zeros_append by blast
  have "list_all is_digit (?t @ replicate k (CHR ''0''))" using digits_are_digits [of 9 ns] k by simp
  then have d: "\<forall>c \<in> set ?t. is_digit c" by (simp add: list_all_iff)
  obtain r rs where r: "rest = r # rs" "\<not> is_digit r" using assms by (cases rest) auto
  have "takeWhile is_digit (?t @ rest) = ?t" "dropWhile is_digit (?t @ rest) = rest"
    using d r by (simp_all add: takeWhile_append2 dropWhile_append2)
  then show ?thesis using False frac_value_trim [OF assms(1)]
    by (simp add: frac_def parse_frac_def Let_def)
qed

section \<open>RFC 3339\<close>

definition nanos_per_second :: int where "nanos_per_second = 1000000000"

definition format_year :: "int \<Rightarrow> string" where
  "format_year y = (if 0 \<le> y \<and> y < 10000 then digits 4 (nat y)
                    else if y < 0 then CHR ''-'' # digits 4 (nat (- y)) else dec (nat y))"

definition format_rfc3339 :: "instant \<Rightarrow> string" where
  "format_rfc3339 t =
     (let secs = t div nanos_per_second; ns = nat (t mod nanos_per_second);
          sod = secs mod 86400; (y, m, d) = civil_from_days (secs div 86400)
      in format_year y @ ''-'' @ digits 2 (nat m) @ ''-'' @ digits 2 (nat d) @ ''T'' @
         digits 2 (nat (sod div 3600)) @ '':'' @ digits 2 (nat (sod div 60 mod 60)) @ '':'' @
         digits 2 (nat (sod mod 60)) @ frac ns @ ''Z'')"

text \<open>The zone: \<open>Z\<close>, or a sign and an offset in hours and minutes; the result is in seconds.\<close>

definition parse_zone :: "string \<Rightarrow> int option" where
  "parse_zone s =
     (case s of
        [] \<Rightarrow> None
      | c # cs \<Rightarrow>
          if c = CHR ''Z'' then (if cs = [] then Some 0 else None)
          else if c = CHR ''+'' \<or> c = CHR ''-'' then
            do {
              (hh, s1) \<leftarrow> num 2 cs;
              s2 \<leftarrow> lit (CHR '':'') s1;
              (mm, s3) \<leftarrow> num 2 s2;
              if s3 = [] \<and> hh < 24 \<and> mm < 60
              then Some ((if c = CHR ''+'' then 1 else -1) * (int hh * 3600 + int mm * 60)) else None
            }
          else None)"

lemma parse_zone_Z: "parse_zone ''Z'' = Some 0"
  by (simp add: parse_zone_def)

text \<open>A numeral after a separator.\<close>

definition field :: "char \<Rightarrow> string \<Rightarrow> (nat \<times> string) option" where
  "field c s = do { s1 \<leftarrow> lit c s; num 2 s1 }"

lemma field_digits: "n < 10 ^ 2 \<Longrightarrow> field c (c # digits 2 n @ rest) = Some (n, rest)"
  by (simp add: field_def num_digits)

definition instant_of :: "nat \<Rightarrow> nat \<Rightarrow> nat \<Rightarrow> nat \<Rightarrow> nat \<Rightarrow> nat \<Rightarrow> nat \<Rightarrow> int \<Rightarrow> instant option" where
  "instant_of y m d hh mm ss ns off =
     (if 1 \<le> m \<and> m \<le> 12 \<and> 1 \<le> d \<and> int d \<le> days_in (int y) (int m) \<and> hh < 24 \<and> mm < 60 \<and> ss < 60
      then Some ((days_from_civil (int y) (int m) (int d) * 86400 +
                  int hh * 3600 + int mm * 60 + int ss - off) * nanos_per_second + int ns)
      else None)"

definition parse_rfc3339 :: "string \<Rightarrow> instant option" where
  "parse_rfc3339 s0 =
     do {
       (y, s1) \<leftarrow> num 4 s0;
       (m, s2) \<leftarrow> field (CHR ''-'') s1;
       (d, s3) \<leftarrow> field (CHR ''-'') s2;
       (hh, s4) \<leftarrow> field (CHR ''T'') s3;
       (mm, s5) \<leftarrow> field (CHR '':'') s4;
       (ss, s6) \<leftarrow> field (CHR '':'') s5;
       (ns, s7) \<leftarrow> parse_frac s6;
       off \<leftarrow> parse_zone s7;
       instant_of y m d hh mm ss ns off
     }"

text \<open>The instants whose year the format can express.\<close>

definition expressible :: "instant \<Rightarrow> bool" where
  "expressible t \<longleftrightarrow>
     (let (y, m, d) = civil_from_days (t div nanos_per_second div 86400) in 0 \<le> y \<and> y < 10000)"

lemma sod_parts:
  fixes sod :: int
  assumes "0 \<le> sod" and "sod < 86400"
  shows "sod div 3600 < 24" and "0 \<le> sod div 3600" and "sod div 3600 * 3600 + sod div 60 mod 60 * 60 + sod mod 60 = sod"
proof -
  show "sod div 3600 < 24" "0 \<le> sod div 3600" using assms by linarith+
  have "sod div 60 div 60 = sod div 3600" using zdiv_zmult2_eq [of 60 sod 60] by simp
  then show "sod div 3600 * 3600 + sod div 60 mod 60 * 60 + sod mod 60 = sod"
    using div_mult_mod_eq [of sod 60] div_mult_mod_eq [of "sod div 60" 60] by linarith
qed

lemma parse_format_rfc3339:
  assumes "expressible t"
  shows "parse_rfc3339 (format_rfc3339 t) = Some t"
proof -
  define secs where "secs = t div nanos_per_second"
  define ns where "ns = nat (t mod nanos_per_second)"
  define sod where "sod = secs mod 86400"
  obtain y m d where c: "civil_from_days (secs div 86400) = (y, m, d)" by (metis prod_cases3)
  note cv = days_civil [OF c]
  have y: "0 \<le> y" "y < 10000" using assms c by (auto simp: expressible_def secs_def)
  have sod: "0 \<le> sod" "sod < 86400" by (simp_all add: sod_def)
  note sp = sod_parts [OF sod]
  have "t mod 1000000000 < 1000000000" by simp
  then have ns: "ns < 10 ^ 9" by (simp add: ns_def nanos_per_second_def nat_less_iff)
  have dd: "d \<le> 31" using cv(5) by (auto simp: days_in_def split: if_splits)
  have fmt: "format_rfc3339 t = digits 4 (nat y) @ ''-'' @ digits 2 (nat m) @ ''-'' @ digits 2 (nat d) @ ''T'' @
         digits 2 (nat (sod div 3600)) @ '':'' @ digits 2 (nat (sod div 60 mod 60)) @ '':'' @
         digits 2 (nat (sod mod 60)) @ frac ns @ ''Z''"
    using y by (simp add: format_rfc3339_def Let_def secs_def [symmetric] ns_def [symmetric] sod_def [symmetric] c format_year_def)
  have mods: "sod div 60 mod 60 < 60" "sod mod 60 < 60" by simp_all
  have small: "nat y < 10 ^ 4" "nat m < 10 ^ 2" "nat d < 10 ^ 2" "nat (sod div 3600) < 10 ^ 2"
    "nat (sod div 60 mod 60) < 10 ^ 2" "nat (sod mod 60) < 10 ^ 2"
  proof -
    show "nat y < 10 ^ 4" using y by simp
    show "nat m < 10 ^ 2" using cv(3) by simp
    show "nat d < 10 ^ 2" using dd by simp
    show "nat (sod div 3600) < 10 ^ 2" using sp(1) by simp
    show "nat (sod div 60 mod 60) < 10 ^ 2" using mods(1) by simp
    show "nat (sod mod 60) < 10 ^ 2" using mods(2) by simp
  qed
  have pf: "parse_frac (frac ns @ ''Z'') = Some (ns, ''Z'')"
    using parse_frac_frac [OF ns, of "''Z''"] by (simp add: is_digit_def)
  have t: "t = secs * nanos_per_second + int ns"
    by (simp add: secs_def ns_def nanos_per_second_def)
  have s: "secs = secs div 86400 * 86400 + sod" by (simp add: sod_def)
  note nd = small [THEN num_digits]
  have valid: "1 \<le> nat m" "nat m \<le> 12" "1 \<le> nat d" "int (nat y) = y" "int (nat m) = m" "int (nat d) = d"
    "int (nat d) \<le> days_in (int (nat y)) (int (nat m))"
    using cv y by simp_all
  have clock: "nat (sod div 3600) < 24" "nat (sod div 60 mod 60) < 60" "nat (sod mod 60) < 60"
    "int (nat (sod div 3600)) = sod div 3600" "int (nat (sod div 60 mod 60)) = sod div 60 mod 60"
    "int (nat (sod mod 60)) = sod mod 60"
    using sp(1,2) mods by simp_all
  have "parse_rfc3339 (format_rfc3339 t) =
      instant_of (nat y) (nat m) (nat d) (nat (sod div 3600)) (nat (sod div 60 mod 60)) (nat (sod mod 60)) ns 0"
    unfolding parse_rfc3339_def fmt nd(1) bind.simps prod.case append.simps
    by (simp only: field_digits [OF small(2)] field_digits [OF small(3)] field_digits [OF small(4)]
        field_digits [OF small(5)] field_digits [OF small(6)] bind.simps prod.case pf parse_zone_Z)
  also have "\<dots> =
      Some ((days_from_civil y m d * 86400 + sod div 3600 * 3600 + sod div 60 mod 60 * 60 + sod mod 60) * nanos_per_second + int ns)"
    unfolding instant_of_def by (simp only: valid cv(5) clock refl if_True simp_thms diff_zero)
  finally have "parse_rfc3339 (format_rfc3339 t) =
      Some ((days_from_civil y m d * 86400 + sod div 3600 * 3600 + sod div 60 mod 60 * 60 + sod mod 60) * nanos_per_second + int ns)" .
  moreover have "days_from_civil y m d * 86400 + sod div 3600 * 3600 + sod div 60 mod 60 * 60 + sod mod 60 = secs"
    using sp(3) s unfolding cv(1) by linarith
  ultimately show ?thesis by (simp only: t)
qed

end
