(* ===== verification/Persist_Wire.thy ===== *)
theory Persist_Wire
  imports Persist_Store Go_Time
begin

text \<open>
  What \<open>encoding/json\<close> does to the \<open>envelope\<close> of \<open>persist/store.go\<close>: an object with the
  state as base64 text and the stamp as RFC 3339 text. The law the store relies on is that
  decoding gives back what was encoded; the encoder here, with a decoder for its output,
  satisfies it.
\<close>

section \<open>The laws\<close>

text \<open>The codec and the JSON package read back what they wrote.\<close>

locale store_codec =
  fixes codec :: "'t Codec" and json :: envelope_json
  assumes codec_reads: "c_Marshal codec v = Inr raw \<Longrightarrow> c_Unmarshal codec raw = (v, None)"
    and json_reads: "j_Marshal json env = Inr out \<Longrightarrow> j_Unmarshal json out = Inr env"

section \<open>Base64\<close>

definition b64_char :: "nat \<Rightarrow> char" where
  "b64_char n =
     char_of (if n < 26 then 65 + n else if n < 52 then 71 + n else if n < 62 then n - 4
              else if n = 62 then 43 else (47 :: nat))"

definition b64_value :: "char \<Rightarrow> nat option" where
  "b64_value c =
     (let n = (of_char c :: nat)
      in if 65 \<le> n \<and> n \<le> 90 then Some (n - 65)
         else if 97 \<le> n \<and> n \<le> 122 then Some (n - 71)
         else if 48 \<le> n \<and> n \<le> 57 then Some (n + 4)
         else if n = 43 then Some 62 else if n = 47 then Some 63 else None)"

lemma b64_value_char: "n < 64 \<Longrightarrow> b64_value (b64_char n) = Some n"
  by (auto simp: b64_value_def b64_char_def Let_def)

definition b64_text :: "char \<Rightarrow> bool" where
  "b64_text c \<longleftrightarrow> b64_value c \<noteq> None \<or> c = CHR ''=''"

fun b64_encode :: "bytes \<Rightarrow> string" where
  "b64_encode [] = []"
| "b64_encode [x] =
     (let a = of_char x :: nat
      in [b64_char (a div 4), b64_char (a mod 4 * 16), CHR ''='', CHR ''=''])"
| "b64_encode [x, y] =
     (let a = of_char x :: nat; b = of_char y :: nat
      in [b64_char (a div 4), b64_char (a mod 4 * 16 + b div 16), b64_char (b mod 16 * 4), CHR ''=''])"
| "b64_encode (x # y # z # rest) =
     (let a = of_char x :: nat; b = of_char y :: nat; c = of_char z :: nat
      in b64_char (a div 4) # b64_char (a mod 4 * 16 + b div 16) # b64_char (b mod 16 * 4 + c div 64) #
         b64_char (c mod 64) # b64_encode rest)"

fun b64_decode :: "string \<Rightarrow> bytes option" where
  "b64_decode [] = Some []"
| "b64_decode (p # q # r # s # rest) =
     (case (b64_value p, b64_value q) of
        (Some i, Some j) \<Rightarrow>
          (let x = char_of (i * 4 + j div 16)
           in if r = CHR ''='' then (if s = CHR ''='' \<and> rest = [] then Some [x] else None)
              else (case b64_value r of
                 None \<Rightarrow> None
               | Some k \<Rightarrow>
                   (let y = char_of (j mod 16 * 16 + k div 4)
                    in if s = CHR ''='' then (if rest = [] then Some [x, y] else None)
                       else (case (b64_value s, b64_decode rest) of
                          (Some l, Some zs) \<Rightarrow> Some (x # y # char_of (k mod 4 * 64 + l) # zs)
                        | _ \<Rightarrow> None))))
      | _ \<Rightarrow> None)"
| "b64_decode _ = None"

lemma b64_char_not_pad: "n < 64 \<Longrightarrow> b64_char n \<noteq> CHR ''=''"
  using b64_value_char [of n] by (auto simp: b64_value_def)

lemma sextets:
  fixes a b c :: nat
  assumes "a < 256" and "b < 256" and "c < 256"
  shows "a div 4 < 64" and "a mod 4 * 16 < 64" and "a mod 4 * 16 + b div 16 < 64"
    and "b mod 16 * 4 < 64" and "b mod 16 * 4 + c div 64 < 64" and "c mod 64 < 64"
    and "a div 4 * 4 + a mod 4 * 16 div 16 = a"
    and "a div 4 * 4 + (a mod 4 * 16 + b div 16) div 16 = a"
    and "(a mod 4 * 16 + b div 16) mod 16 * 16 + b mod 16 * 4 div 4 = b"
    and "(a mod 4 * 16 + b div 16) mod 16 * 16 + (b mod 16 * 4 + c div 64) div 4 = b"
    and "(b mod 16 * 4 + c div 64) mod 4 * 64 + c mod 64 = c"
    and "b div 16 div 16 = 0" and "b div 16 mod 16 = b div 16" and "c div 64 div 4 = 0" and "c div 64 mod 4 = c div 64"
proof -
  have small: "b div 16 < 16" "c div 64 < 4" "a mod 4 < 4" "b mod 16 < 16" using assms by auto
  show "a div 4 < 64" "a mod 4 * 16 < 64" "a mod 4 * 16 + b div 16 < 64" "b mod 16 * 4 < 64"
    "b mod 16 * 4 + c div 64 < 64" "c mod 64 < 64"
    using assms small by linarith+
  have hi: "(a mod 4 * 16 + b div 16) div 16 = a mod 4" "(b mod 16 * 4 + c div 64) div 4 = b mod 16"
    using small by simp_all
  have lo: "(a mod 4 * 16 + b div 16) mod 16 = b div 16" "(b mod 16 * 4 + c div 64) mod 4 = c div 64"
    using small by simp_all
  show "a div 4 * 4 + a mod 4 * 16 div 16 = a" by simp
  show "a div 4 * 4 + (a mod 4 * 16 + b div 16) div 16 = a" by (simp only: hi div_mult_mod_eq)
  show "(a mod 4 * 16 + b div 16) mod 16 * 16 + b mod 16 * 4 div 4 = b"
    by (simp only: lo nonzero_mult_div_cancel_right [OF zero_neq_numeral [symmetric]] div_mult_mod_eq)
  show "(a mod 4 * 16 + b div 16) mod 16 * 16 + (b mod 16 * 4 + c div 64) div 4 = b"
    by (simp only: hi lo div_mult_mod_eq)
  show "(b mod 16 * 4 + c div 64) mod 4 * 64 + c mod 64 = c" by (simp only: lo div_mult_mod_eq)
  show "b div 16 div 16 = 0" "b div 16 mod 16 = b div 16" "c div 64 div 4 = 0" "c div 64 mod 4 = c div 64"
    using small by simp_all
qed

lemma of_char_small: "(of_char c :: nat) < 256"
  by (metis of_char_mod_256 mod_less_divisor zero_less_numeral)

lemma b64_text_char: "n < 64 \<Longrightarrow> b64_text (b64_char n)"
  by (simp add: b64_text_def b64_value_char)

lemma b64_round_trip: "b64_decode (b64_encode bs) = Some bs"
proof (induction bs rule: b64_encode.induct)
  case (2 x)
  note s = sextets [OF of_char_small [of x] of_char_small [of x] of_char_small [of x]]
  show ?case by (simp add: Let_def b64_value_char s)
next
  case (3 x y)
  note s = sextets [OF of_char_small [of x] of_char_small [of y] of_char_small [of y]]
  show ?case by (simp add: Let_def b64_value_char b64_char_not_pad s)
next
  case (4 x y z rest)
  note s = sextets [OF of_char_small [of x] of_char_small [of y] of_char_small [of z]]
  from 4 show ?case by (simp add: Let_def b64_value_char b64_char_not_pad s)
qed simp

lemma b64_encode_text: "list_all b64_text (b64_encode bs)"
proof (induction bs rule: b64_encode.induct)
  case (2 x)
  note s = sextets [OF of_char_small [of x] of_char_small [of x] of_char_small [of x]]
  show ?case by (simp add: Let_def b64_text_char s) (simp add: b64_text_def)
next
  case (3 x y)
  note s = sextets [OF of_char_small [of x] of_char_small [of y] of_char_small [of y]]
  show ?case by (simp add: Let_def b64_text_char s) (simp add: b64_text_def)
next
  case (4 x y z rest)
  note s = sextets [OF of_char_small [of x] of_char_small [of y] of_char_small [of z]]
  from 4 show ?case by (simp add: Let_def b64_text_char s)
qed simp

section \<open>The envelope\<close>

definition dquote :: char where
  "dquote = char_of (34 :: nat)"

lemma not_dquote: "of_char c \<noteq> (34 :: nat) \<Longrightarrow> c \<noteq> dquote" "of_char c \<noteq> (34 :: nat) \<Longrightarrow> dquote \<noteq> c"
  by (auto simp: dquote_def)

definition json_field :: "string \<Rightarrow> string \<Rightarrow> string" where
  "json_field k v = [dquote] @ k @ [dquote] @ '':'' @ [dquote] @ v @ [dquote]"

definition envelope_Marshal :: "envelope \<Rightarrow> gerr + bytes" where
  "envelope_Marshal env =
     (if expressible (env_LastActive env) then
        Inr (''{'' @ json_field ''state'' (b64_encode (env_State env)) @ '','' @
             json_field ''last_active'' (format_rfc3339 (env_LastActive env)) @ ''}'')
      else Inl (Opaque ''Time.MarshalJSON: year outside of range [0,9999]''))"

text \<open>Reading one field: the key, then the text up to the closing quote.\<close>

fun strip :: "string \<Rightarrow> string \<Rightarrow> string option" where
  "strip [] s = Some s"
| "strip (p # ps) [] = None"
| "strip (p # ps) (c # cs) = (if c = p then strip ps cs else None)"

lemma strip_append [simp]: "strip p (p @ s) = Some s"
  by (induction p) auto

definition read_field :: "string \<Rightarrow> string \<Rightarrow> (string \<times> string) option" where
  "read_field k s =
     (case strip ([dquote] @ k @ [dquote] @ '':'' @ [dquote]) s of
        None \<Rightarrow> None
      | Some s1 \<Rightarrow>
          (case dropWhile (\<lambda>c. c \<noteq> dquote) s1 of
             [] \<Rightarrow> None
           | _ # s2 \<Rightarrow> Some (takeWhile (\<lambda>c. c \<noteq> dquote) s1, s2)))"

lemma read_json_field:
  assumes "dquote \<notin> set v"
  shows "read_field k (json_field k v @ rest) = Some (v, rest)"
proof -
  have p: "json_field k v @ rest =
      ([dquote] @ k @ [dquote] @ '':'' @ [dquote]) @ (v @ dquote # rest)"
    by (simp add: json_field_def)
  have "takeWhile (\<lambda>c. c \<noteq> dquote) (v @ dquote # rest) = v"
    "dropWhile (\<lambda>c. c \<noteq> dquote) (v @ dquote # rest) = dquote # rest"
    using assms by (auto simp: takeWhile_append dropWhile_append)
  then show ?thesis unfolding read_field_def p strip_append by simp
qed

definition envelope_Unmarshal :: "bytes \<Rightarrow> gerr + envelope" where
  "envelope_Unmarshal s =
     (let bad = Inl (Opaque ''invalid envelope'')
      in case Option.bind (strip ''{'' s) (read_field ''state'') of
           None \<Rightarrow> bad
         | Some (b, s1) \<Rightarrow>
             (case Option.bind (strip '','' s1) (read_field ''last_active'') of
                None \<Rightarrow> bad
              | Some (t, s2) \<Rightarrow>
                  (case (b64_decode b, parse_rfc3339 t) of
                     (Some raw, Some stamp) \<Rightarrow>
                       if s2 = ''}'' then Inr \<lparr>env_State = raw, env_LastActive = stamp\<rparr> else bad
                   | _ \<Rightarrow> bad)))"

lemma digits_no_quote: "dquote \<notin> set (digits k n)"
  using digits_are_digits [of k n] by (auto simp: list_all_iff is_digit_def dquote_def)

lemma frac_no_quote: "dquote \<notin> set (frac n)"
proof -
  have "set (trim_zeros s) \<subseteq> set s" for s
    by (auto simp: trim_zeros_def dest: set_dropWhileD)
  then show ?thesis using digits_no_quote [of 9 n]
    by (auto simp: frac_def Let_def not_dquote)
qed

lemma rfc3339_no_quote:
  assumes "expressible t"
  shows "dquote \<notin> set (format_rfc3339 t)"
proof -
  obtain y m d where c: "civil_from_days (t div nanos_per_second div 86400) = (y, m, d)"
    by (metis prod_cases3)
  then have y: "0 \<le> y" "y < 10000" using assms by (auto simp: expressible_def)
  have "dquote \<noteq> CHR ''-''" "dquote \<noteq> CHR ''T''" "dquote \<noteq> CHR '':''" "dquote \<noteq> CHR ''Z''"
    by (simp_all add: not_dquote)
  then show ?thesis using y
    by (auto simp: format_rfc3339_def Let_def c format_year_def digits_no_quote frac_no_quote)
qed

lemma b64_no_quote: "dquote \<notin> set (b64_encode bs)"
proof -
  have "\<not> b64_text dquote" by (simp add: b64_text_def b64_value_def not_dquote) (simp add: dquote_def)
  then show ?thesis using b64_encode_text [of bs] by (auto simp: list_all_iff)
qed

lemma envelope_round_trip:
  assumes "envelope_Marshal env = Inr out"
  shows "envelope_Unmarshal out = Inr env"
proof -
  have t: "expressible (env_LastActive env)"
    and out: "out = ''{'' @ (json_field ''state'' (b64_encode (env_State env)) @ ('','' @
        (json_field ''last_active'' (format_rfc3339 (env_LastActive env)) @ ''}'')))"
    using assms by (auto simp: envelope_Marshal_def split: if_splits)
  note fields = read_json_field [OF b64_no_quote] read_json_field [OF rfc3339_no_quote [OF t]]
  show ?thesis
    unfolding envelope_Unmarshal_def out strip_append bind.simps fields option.case prod.case
    by (simp add: b64_round_trip parse_format_rfc3339 [OF t])
qed

definition envelope_wire :: envelope_json where
  "envelope_wire = \<lparr>j_Marshal = envelope_Marshal, j_Unmarshal = envelope_Unmarshal\<rparr>"

text \<open>A codec for a counter, as \<open>strconv.Itoa\<close> and \<open>strconv.Atoi\<close> write it.\<close>

definition counter_codec :: "nat Codec" where
  "counter_codec =
     \<lparr>c_Marshal = (\<lambda>n. Inr (dec n)),
      c_Unmarshal = (\<lambda>s. if s \<noteq> [] \<and> list_all is_digit s then (dec_parse 0 s, None)
                          else (0, Some (Opaque ''strconv.Atoi: invalid syntax'')))\<rparr>"

lemma dec_digits_numeral: "list_all is_digit acc \<Longrightarrow> list_all is_digit (dec_digits n acc)"
  by (induction n acc rule: dec_digits.induct) (subst dec_digits.simps, simp)

lemma dec_not_Nil: "dec n \<noteq> []"
proof -
  have "acc \<noteq> [] \<Longrightarrow> dec_digits n acc \<noteq> []" for n acc
    by (induction n acc rule: dec_digits.induct) (subst dec_digits.simps, simp)
  then show ?thesis by (simp add: dec_def) (subst dec_digits.simps, simp)
qed

lemma dec_is_numeral: "list_all is_digit (dec n)"
  using dec_digits_numeral [of "[]" n] by (simp add: dec_def is_digit_def)

interpretation counters: store_codec counter_codec envelope_wire
proof
  show "c_Unmarshal counter_codec raw = (v, None)" if "c_Marshal counter_codec v = Inr raw" for v raw
  proof -
    have "raw = dec v" using that by (simp add: counter_codec_def)
    then show ?thesis by (simp add: counter_codec_def dec_is_numeral dec_not_Nil)
  qed
  show "j_Unmarshal envelope_wire out = Inr env" if "j_Marshal envelope_wire env = Inr out" for env out
    using that by (simp add: envelope_wire_def envelope_round_trip)
qed

end
