(* ===== verification/Persist_Runs.thy ===== *)
theory Persist_Runs
  imports Persist_Cache Persist_Wire
begin

text \<open>
  Sequences of operations on a \<open>Store\<close>: each step keeps the invariant and is the step of the
  reference cache; over a durable backend, what a sequence does to the contents; over an
  atomic one, the simulation of a plain map from entities to values.
\<close>

section \<open>Sequences of operations\<close>

text \<open>
  The store's mutex makes the calls of all goroutines one sequence. Between two calls the
  rest of the world may move: the clock, other writers of the backend. A call that panics
  (in the caller's function or the wake hook) leaves a usable store, so the sequence goes on.
\<close>

datatype ('t, 'w) store_op =
    OpGet entity
  | OpUpdate entity "'t \<Rightarrow> 't outcome"
  | OpDelete entity
  | OpElsewhere "'w \<Rightarrow> 'w"

datatype 't op_result = Value "('t \<times> gerr option) outcome" | Removed "gerr option" | Passed

fun store_step :: "('t, 'w) store_op \<Rightarrow> ('t, 'w) Store \<Rightarrow> 'w \<Rightarrow> 't op_result \<times> ('t, 'w) Store \<times> 'w" where
  "store_step (OpGet e) st w = (case store_Get e st w of (r, st', w') \<Rightarrow> (Value r, st', w'))"
| "store_step (OpUpdate e fn) st w = (case store_Update e fn st w of (r, st', w') \<Rightarrow> (Value r, st', w'))"
| "store_step (OpDelete e) st w = (case store_Delete e st w of (r, st', w') \<Rightarrow> (Removed r, st', w'))"
| "store_step (OpElsewhere f) st w = (Passed, st, f w)"

fun store_run :: "('t, 'w) store_op list \<Rightarrow> ('t, 'w) Store \<Rightarrow> 'w \<Rightarrow> 't op_result list \<times> ('t, 'w) Store \<times> 'w" where
  "store_run [] st w = ([], st, w)"
| "store_run (x # xs) st w =
     (case store_step x st w of (r, st1, w1) \<Rightarrow>
        (case store_run xs st1 w1 of (rs, st2, w2) \<Rightarrow> (r # rs, st2, w2)))"

fun cache_step :: "('t, 'w) Store \<Rightarrow> ('t, 'w) store_op \<Rightarrow> 't lru_cache \<Rightarrow> 'w \<Rightarrow> 't op_result \<times> 't lru_cache \<times> 'w" where
  "cache_step cfg (OpGet e) c w = (case ref_Get cfg e c w of (r, c', w') \<Rightarrow> (Value r, c', w'))"
| "cache_step cfg (OpUpdate e fn) c w = (case ref_Update cfg e fn c w of (r, c', w') \<Rightarrow> (Value r, c', w'))"
| "cache_step cfg (OpDelete e) c w = (case ref_Delete cfg e c w of (r, c', w') \<Rightarrow> (Removed r, c', w'))"
| "cache_step cfg (OpElsewhere f) c w = (Passed, c, f w)"

fun cache_run :: "('t, 'w) Store \<Rightarrow> ('t, 'w) store_op list \<Rightarrow> 't lru_cache \<Rightarrow> 'w \<Rightarrow> 't op_result list \<times> 't lru_cache \<times> 'w" where
  "cache_run cfg [] c w = ([], c, w)"
| "cache_run cfg (x # xs) c w =
     (case cache_step cfg x c w of (r, c1, w1) \<Rightarrow>
        (case cache_run cfg xs c1 w1 of (rs, c2, w2) \<Rightarrow> (r # rs, c2, w2)))"

lemma store_step_facts:
  assumes "store_ok st" and "store_step x st w = (r, st', w')"
  shows "store_ok st'" and "config_of st' = config_of st" and "cache_step st x (view st) w = (r, view st', w')"
proof (atomize (full), cases x)
  case (OpGet e)
  with assms(2) obtain r1 where "getLocked e st w = (r1, st', w')" "r = Value r1"
    by (auto simp: store_Get_def split: prod.splits)
  then show "store_ok st' \<and> config_of st' = config_of st \<and> cache_step st x (view st) w = (r, view st', w')"
    using getLocked_is_ref(1) [OF assms(1), of e w] getLocked_is_ref(2) [OF assms(1), of e w, symmetric]
    by (simp add: OpGet)
next
  case (OpUpdate e fn)
  with assms(2) obtain r1 where "store_Update e fn st w = (r1, st', w')" "r = Value r1"
    by (auto split: prod.splits)
  then show "store_ok st' \<and> config_of st' = config_of st \<and> cache_step st x (view st) w = (r, view st', w')"
    using Update_is_ref(1) [OF assms(1), of e fn w] Update_is_ref(2) [OF assms(1), of e fn w, symmetric]
    by (simp add: OpUpdate)
next
  case (OpDelete e)
  with assms(2) obtain r1 where "store_Delete e st w = (r1, st', w')" "r = Removed r1"
    by (auto split: prod.splits)
  then show "store_ok st' \<and> config_of st' = config_of st \<and> cache_step st x (view st) w = (r, view st', w')"
    using Delete_is_ref(1) [OF assms(1), of e w] Delete_is_ref(2) [OF assms(1), of e w, symmetric]
    by (simp add: OpDelete)
next
  case (OpElsewhere f)
  then show "store_ok st' \<and> config_of st' = config_of st \<and> cache_step st x (view st) w = (r, view st', w')"
    using assms by auto
qed

lemma cache_run_cong:
  assumes "config_of st' = config_of st"
  shows "cache_run st' xs c w = cache_run st xs c w"
proof -
  have "cache_step st' x c w = cache_step st x c w" for x c w
    by (cases x) (simp_all add: ref_cong [OF assms])
  then show ?thesis by (induction xs arbitrary: c w) simp_all
qed

lemma store_run_facts:
  assumes "store_ok st" and "store_run xs st w = (rs, st', w')"
  shows "store_ok st' \<and> config_of st' = config_of st \<and> cache_run st xs (view st) w = (rs, view st', w')"
  using assms
proof (induction xs arbitrary: st w rs)
  case (Cons x xs)
  obtain r st1 w1 where step: "store_step x st w = (r, st1, w1)" by (metis prod_cases3)
  note s = store_step_facts [OF Cons.prems(1) step]
  obtain rs1 where run: "store_run xs st1 w1 = (rs1, st', w')" "rs = r # rs1"
    using Cons.prems(2) step by (auto split: prod.splits)
  show ?case using Cons.IH [OF s(1) run(1)] s step run by (simp add: cache_run_cong [OF s(2)])
qed (simp add: view_def)

lemma NewStore_ok:
  assumes "NewStore name b opts jcodec json now zero = Returned st"
  shows "store_ok st" and "view st = []" and "s_name st = name" and "s_b st = b" and "name \<noteq> []"
    and "s_json st = json" and "s_zero st = zero" and "s_now st = now"
proof -
  have "apply_StoreOptions os c = Returned c' \<Longrightarrow> 0 < cfg_bound c \<Longrightarrow> 0 < cfg_bound c'"
    for os and c c' :: "'a config"
  proof (induction os arbitrary: c)
    case (Cons x os)
    then show ?case by (cases x) (auto split: if_splits outcome.splits)
  qed simp
  then show "store_ok st" "view st = []" "s_name st = name" "s_b st = b" "name \<noteq> []"
    "s_json st = json" "s_zero st = zero" "s_now st = now"
    using assms by (force simp: NewStore_def DefaultBound_def store_ok_def view_def split: if_splits outcome.splits)+
qed

lemma ref_Get_residents:
  assumes "ref_Get cfg e c w = (r, c', w')"
  shows "(\<exists>v c0. r = Returned (v, None) \<and> c' = (e, v) # c0 \<and> set c0 \<subseteq> set c) \<or>
    (\<nexists>v. r = Returned (v, None)) \<and> c' = c"
  using assms
  by (auto simp: ref_Get_def dest: in_set_takeD split: option.splits prod.splits outcome.splits)

section \<open>The contents of the backend\<close>

context durable_backend begin

lemma getLocked_content:
  assumes "s_b st = b" and "getLocked e st w = (r, st', w')"
  shows "content w' = content w"
proof (cases "resident st e")
  case None
  obtain f w1 where f: "fetch st e w = (f, w1)" by fastforce
  have "content w1 = content w"
    using f by (auto simp: fetch_def assms(1) split: prod.splits sum.splits dest: get_keeps)
  moreover have "w' = w1"
    using assms(2) f
    by (auto simp: getLocked_miss [OF None] admit_def split: outcome.splits option.splits prod.splits)
  ultimately show ?thesis by simp
qed (use assms in \<open>simp add: getLocked_hit\<close>)

lemma Update_content:
  assumes "store_ok st" and "s_b st = b" and "store_Update e fn st w = (r, st', w')"
  shows "content w' = content w \<or> (\<exists>v. content w' = (content w)(store_key st e \<mapsto> v))"
proof -
  obtain r1 st1 w1 where get: "getLocked e st w = (r1, st1, w1)" by (metis prod_cases3)
  have same: "content w1 = content w" by (rule getLocked_content [OF assms(2) get])
  have cfg: "config_of st1 = config_of st" using getLocked_is_ref(1) [OF assms(1), of e w] get by simp
  have "content w2 = content w1 \<or> (\<exists>v. content w2 = (content w1)(store_key st e \<mapsto> v))"
    if "save st e nxt w1 = (x, w2)" for nxt x w2
  proof (cases x)
    case None
    then show ?thesis using that put_done by (fastforce simp: save_def assms(2) split: sum.splits)
  next
    case (Some err)
    then show ?thesis using that put_failed by (fastforce simp: save_def assms(2) split: sum.splits)
  qed
  moreover have "w' = w1 \<or> (\<exists>nxt x. save st e nxt w1 = (x, w'))"
    using assms(3) get
    by (auto simp: store_Update_save save_cong [OF cfg] reflect_def admit_def
        split: outcome.splits option.splits prod.splits)
  ultimately show ?thesis using same by metis
qed

lemma Delete_content:
  assumes "s_b st = b" and "store_Delete e st w = (r, st', w')"
  shows "content w' = content w \<or> content w' = (content w)(store_key st e := None)"
  using assms(2) delete_done delete_failed
  by (fastforce simp: store_Delete_def assms(1) split: prod.splits option.splits)

lemma Get_outcome:
  assumes "store_ok st" and "s_b st = b" and "getLocked e st w = (Returned (v, None), st', w')"
  shows "map_of (view st) e = Some v \<and> w' = w \<or>
    map_of (view st) e = None \<and> content w (store_key st e) = None \<and> v = s_zero st \<or>
    map_of (view st) e = None \<and>
      (\<exists>raw. content w (store_key st e) = Some raw \<and> rehydrate st e raw w' = Returned (v, None))"
proof -
  have r: "ref_Get st e (view st) w = (Returned (v, None), view st', w')"
    by (rule getLocked_success(4) [OF assms(1,3)])
  show ?thesis
  proof (cases "map_of (view st) e")
    case None
    then have "fetch st e w = (Returned (v, None), w')"
      using r by (auto simp: ref_Get_def split: prod.splits outcome.splits option.splits)
    then show ?thesis using None
      by (auto simp: fetch_def assms(2) split: prod.splits sum.splits if_splits dest: get_missing get_value)
  qed (use r in \<open>simp add: ref_Get_def\<close>)
qed

lemma Update_success:
  assumes "store_ok st" and "s_b st = b" and "store_Update e fn st w = (Returned (v, None), st', w')"
  shows "\<exists>cur st1 w1 raw out. getLocked e st w = (Returned (cur, None), st1, w1) \<and> fn cur = Returned v \<and>
    c_Marshal (s_codec st) v = Inr raw \<and>
    j_Marshal (s_json st) \<lparr>env_State = raw, env_LastActive = s_now st w1\<rparr> = Inr out \<and>
    content w' = (content w)(store_key st e \<mapsto> out) \<and>
    view st' = (e, v) # without e (view st1)"
proof -
  obtain r1 st1 w1 where get: "getLocked e st w = (r1, st1, w1)" by (metis prod_cases3)
  have same: "content w1 = content w" by (rule getLocked_content [OF assms(2) get])
  have upd: "ref_Update st e fn (view st) w = (Returned (v, None), view st', w')"
    using Update_is_ref(2) [OF assms(1), of e fn w] by (simp add: assms(3))
  have get': "ref_Get st e (view st) w = (r1, view st1, w1)"
    using getLocked_is_ref(2) [OF assms(1), of e w] by (simp add: get)
  obtain cur where cur: "r1 = Returned (cur, None)" "fn cur = Returned v" "save st e v w1 = (None, w')"
    and vw: "view st' = (e, v) # without e (view st1)"
    using upd by (auto simp: ref_Update_def get' split: outcome.splits option.splits prod.splits)
  from cur(3) obtain raw out where enc: "c_Marshal (s_codec st) v = Inr raw"
    "j_Marshal (s_json st) \<lparr>env_State = raw, env_LastActive = s_now st w1\<rparr> = Inr out"
    and put: "b_Put b (store_key st e) out w1 = (None, w')"
    by (auto simp: save_def assms(2) split: sum.splits)
  have "content w' = (content w)(store_key st e \<mapsto> out)"
    using put_done [OF put] same by simp
  with get [unfolded cur(1)] cur(2) enc vw show ?thesis by blast
qed

end

section \<open>Eviction cannot be seen\<close>

text \<open>
  What the backend holds for an entity, read through the codec: the zero value when there is
  nothing, and nothing when it does not decode.
\<close>

definition stored_value :: "('t, 'w) Store \<Rightarrow> (string \<Rightarrow> bytes option) \<Rightarrow> entity \<Rightarrow> 't option" where
  "stored_value cfg m e =
     (case m (store_key cfg e) of
        None \<Rightarrow> Some (s_zero cfg)
      | Some raw \<Rightarrow>
          (case j_Unmarshal (s_json cfg) raw of
             Inl _ \<Rightarrow> None
           | Inr env \<Rightarrow> (case c_Unmarshal (s_codec cfg) (env_State env) of (v, None) \<Rightarrow> Some v | _ \<Rightarrow> None)))"

text \<open>
  The specification of a durable store is a map from entities to values. A read that
  succeeds returns the entity's value, an update that succeeds applies its function to it, a
  delete that succeeds resets it, and nothing else changes it: neither failures nor panics
  nor the accesses that evict.
\<close>

fun spec_step :: "'t \<Rightarrow> ('t, 'w) store_op \<Rightarrow> 't op_result \<Rightarrow> (entity \<Rightarrow> 't option) \<Rightarrow> (entity \<Rightarrow> 't option) \<Rightarrow> bool" where
  "spec_step zero (OpGet e) (Value r) m m' \<longleftrightarrow> m' = m \<and> (\<forall>v. r = Returned (v, None) \<longrightarrow> m e = Some v)"
| "spec_step zero (OpUpdate e fn) (Value r) m m' \<longleftrightarrow>
     (case r of
        Returned (v, None) \<Rightarrow> (\<exists>cur. m e = Some cur \<and> fn cur = Returned v) \<and> m' = m(e \<mapsto> v)
      | _ \<Rightarrow> m' = m)"
| "spec_step zero (OpDelete e) (Removed r) m m' \<longleftrightarrow> m' = (if r = None then m(e \<mapsto> zero) else m)"
| "spec_step zero (OpElsewhere f) Passed m m' \<longleftrightarrow> m' = m"
| "spec_step zero x r m m' \<longleftrightarrow> False"

fun spec_run :: "'t \<Rightarrow> ('t, 'w) store_op list \<Rightarrow> 't op_result list \<Rightarrow> (entity \<Rightarrow> 't option) \<Rightarrow> (entity \<Rightarrow> 't option) \<Rightarrow> bool" where
  "spec_run zero [] [] m m' \<longleftrightarrow> m' = m"
| "spec_run zero (x # xs) (r # rs) m m' \<longleftrightarrow> (\<exists>m1. spec_step zero x r m m1 \<and> spec_run zero xs rs m1 m')"
| "spec_run zero xs rs m m' \<longleftrightarrow> False"

text \<open>A backend whose failed writes and deletes have no effect.\<close>

locale atomic_backend = durable_backend +
  assumes put_atomic: "b_Put b k v w = (Some e, w') \<Longrightarrow> content w' = content w"
    and delete_atomic: "b_Delete b k w = (Some e, w') \<Longrightarrow> content w' = content w"

locale plain_store = atomic_backend b content + store_codec codec json
  for b :: "'w Backend" and content and codec :: "'t Codec" and json
begin

text \<open>The stores the specification is for: on this backend and codec, without a wake hook.\<close>

definition plain :: "('t, 'w) Store \<Rightarrow> bool" where
  "plain st \<longleftrightarrow> store_ok st \<and> s_b st = b \<and> s_codec st = codec \<and> s_json st = json \<and> s_wake st = None"

definition fresh :: "('t, 'w) Store \<Rightarrow> 'w \<Rightarrow> bool" where
  "fresh st w \<longleftrightarrow> (\<forall>(e, v) \<in> set (view st). stored_value st (content w) e = Some v)"

lemma stored_value_cong:
  assumes "config_of st' = config_of st"
  shows "stored_value st' = stored_value st"
  by (intro ext) (simp only: stored_value_def store_key_def config_of_fields [OF assms])

lemma stored_value_elsewhere:
  "e' \<noteq> e \<Longrightarrow> stored_value st (m(store_key st e := x)) e' = stored_value st m e'"
  by (simp add: stored_value_def store_key_def)

lemma Get_plain:
  assumes "plain st" and "fresh st w" and "getLocked e st w = (Returned (v, None), st', w')"
  shows "stored_value st (content w) e = Some v"
proof -
  have ok: "store_ok st" and b: "s_b st = b" and c: "s_codec st = codec" "s_json st = json" "s_wake st = None"
    using assms(1) by (auto simp: plain_def)
  from Get_outcome [OF ok b assms(3)] show ?thesis
  proof (elim disjE conjE exE)
    assume "map_of (view st) e = Some v"
    then have "(e, v) \<in> set (view st)" by (rule map_of_SomeD)
    with assms(2) show ?thesis by (auto simp: fresh_def)
  next
    assume "content w (store_key st e) = None" "v = s_zero st"
    then show ?thesis by (simp add: stored_value_def)
  next
    fix raw
    assume "content w (store_key st e) = Some raw" "rehydrate st e raw w' = Returned (v, None)"
    then show ?thesis
      by (auto simp: stored_value_def rehydrate_def c split: sum.splits prod.splits option.splits)
  qed
qed

lemma getLocked_fresh:
  assumes "plain st" and "fresh st w" and "getLocked e st w = (r, st', w')"
  shows "fresh st' w'"
proof -
  have ok: "store_ok st" and b: "s_b st = b" using assms(1) by (auto simp: plain_def)
  have same: "content w' = content w" by (rule getLocked_content [OF b assms(3)])
  have ref: "ref_Get st e (view st) w = (r, view st', w')" and cfg: "config_of st' = config_of st"
    using getLocked_is_ref [OF ok, of e w] by (simp_all add: assms(3))
  from ref_Get_residents [OF ref] show ?thesis
  proof (elim disjE exE conjE)
    assume "view st' = view st"
    then show ?thesis using assms(2) unfolding fresh_def same stored_value_cong [OF cfg] by simp
  next
    fix v c0 assume r: "r = Returned (v, None)" and vw: "view st' = (e, v) # c0" and sub: "set c0 \<subseteq> set (view st)"
    have "stored_value st (content w) e = Some v"
      using Get_plain [OF assms(1,2)] assms(3) r by simp
    then show ?thesis using assms(2) sub unfolding fresh_def same stored_value_cong [OF cfg] vw by auto
  qed
qed

lemma Update_plain:
  assumes "plain st" and "fresh st w" and "store_Update e fn st w = (r, st', w')"
  shows "spec_step (s_zero st) (OpUpdate e fn) (Value r)
           (stored_value st (content w)) (stored_value st (content w'))" and "fresh st' w'"
proof -
  have ok: "store_ok st" and b: "s_b st = b" and c: "s_codec st = codec" "s_json st = json"
    using assms(1) by (auto simp: plain_def)
  have cfg: "config_of st' = config_of st" using Update_is_ref(1) [OF ok, of e fn w] by (simp add: assms(3))
  obtain r1 st1 w1 where get: "getLocked e st w = (r1, st1, w1)" by (metis prod_cases3)
  have same: "content w1 = content w" by (rule getLocked_content [OF b get])
  have fresh1: "fresh st1 w1" by (rule getLocked_fresh [OF assms(1,2) get])
  have cfg1: "config_of st1 = config_of st" and ok1: "store_ok st1"
    using getLocked_is_ref(1) [OF ok, of e w] by (simp_all add: get)
  have get': "ref_Get st e (view st) w = (r1, view st1, w1)"
    using getLocked_is_ref(2) [OF ok, of e w] by (simp add: get)
  have upd: "ref_Update st e fn (view st) w = (r, view st', w')"
    using Update_is_ref(2) [OF ok, of e fn w] by (simp add: assms(3))
  have "spec_step (s_zero st) (OpUpdate e fn) (Value r)
           (stored_value st (content w)) (stored_value st (content w')) \<and> fresh st' w'"
  proof (cases "\<exists>v. r = Returned (v, None)")
    case True
    then obtain v where r: "r = Returned (v, None)" by blast
    from Update_success [OF ok b assms(3) [unfolded r]] obtain cur st2 w2 raw out
      where s: "getLocked e st w = (Returned (cur, None), st2, w2)" "fn cur = Returned v"
        "c_Marshal codec v = Inr raw" "j_Marshal json \<lparr>env_State = raw, env_LastActive = s_now st w2\<rparr> = Inr out"
        "content w' = (content w)(store_key st e \<mapsto> out)" "view st' = (e, v) # without e (view st2)"
      unfolding c by blast
    have cur: "stored_value st (content w) e = Some cur" by (rule Get_plain [OF assms(1,2) s(1)])
    have new: "stored_value st (content w') e = Some v"
      using codec_reads [OF s(3)] json_reads [OF s(4)] by (simp add: stored_value_def s(5) c)
    have other: "stored_value st (content w') e' = stored_value st (content w) e'" if "e' \<noteq> e" for e'
      using stored_value_elsewhere [OF that] by (simp add: s(5))
    have "stored_value st (content w') = (stored_value st (content w))(e \<mapsto> v)"
      by (rule ext) (simp add: new other)
    moreover have "fresh st' w'"
      using fresh1 s(1) get new other unfolding fresh_def same stored_value_cong [OF cfg] stored_value_cong [OF cfg1] s(6)
      by auto
    ultimately show ?thesis using cur s(2) by (simp add: r)
  next
    case False
    then have "view st' = view st1 \<and> content w' = content w1"
      using upd put_atomic
      by (auto simp: ref_Update_def get' save_def b split: outcome.splits option.splits prod.splits sum.splits)
    then show ?thesis
      using False fresh1 same unfolding fresh_def stored_value_cong [OF cfg] stored_value_cong [OF cfg1]
      by (auto split: outcome.splits option.splits)
  qed
  then show "spec_step (s_zero st) (OpUpdate e fn) (Value r)
           (stored_value st (content w)) (stored_value st (content w'))" and "fresh st' w'" by auto
qed

lemma Delete_plain:
  assumes "plain st" and "fresh st w" and "store_Delete e st w = (r, st', w')"
  shows "spec_step (s_zero st) (OpDelete e) (Removed r)
           (stored_value st (content w)) (stored_value st (content w'))" and "fresh st' w'"
proof -
  have ok: "store_ok st" and b: "s_b st = b" using assms(1) by (auto simp: plain_def)
  have cfg: "config_of st' = config_of st" using Delete_is_ref(1) [OF ok, of e w] by (simp add: assms(3))
  have del: "ref_Delete st e (view st) w = (r, view st', w')"
    using Delete_is_ref(2) [OF ok, of e w] by (simp add: assms(3))
  have "spec_step (s_zero st) (OpDelete e) (Removed r)
           (stored_value st (content w)) (stored_value st (content w')) \<and> fresh st' w'"
  proof (cases r)
    case None
    then have gone: "content w' = (content w)(store_key st e := None)" and vw: "view st' = without e (view st)"
      using del delete_done by (auto simp: ref_Delete_def b split: prod.splits option.splits)
    have "stored_value st (content w') e = Some (s_zero st)" by (simp add: stored_value_def gone)
    moreover have other: "stored_value st (content w') e' = stored_value st (content w) e'" if "e' \<noteq> e" for e'
      using stored_value_elsewhere [OF that] by (simp add: gone)
    ultimately have "stored_value st (content w') = (stored_value st (content w))(e \<mapsto> s_zero st)"
      by (intro ext) simp
    moreover have "fresh st' w'"
      using assms(2) other unfolding fresh_def stored_value_cong [OF cfg] vw by auto
    ultimately show ?thesis by (simp add: None)
  next
    case (Some err)
    then have "content w' = content w" and "view st' = view st"
      using del delete_atomic by (auto simp: ref_Delete_def b split: prod.splits option.splits)
    then show ?thesis using assms(2) Some by (simp add: fresh_def stored_value_cong [OF cfg])
  qed
  then show "spec_step (s_zero st) (OpDelete e) (Removed r)
           (stored_value st (content w)) (stored_value st (content w'))" and "fresh st' w'" by auto
qed

lemma step_plain:
  assumes "plain st" and "fresh st w" and "store_step x st w = (r, st', w')"
    and "\<And>f w. x = OpElsewhere f \<Longrightarrow> content (f w) = content w"
  shows "spec_step (s_zero st) x r (stored_value st (content w)) (stored_value st (content w'))"
    and "fresh st' w'" and "plain st'"
proof -
  have ok: "store_ok st" and b: "s_b st = b" using assms(1) by (auto simp: plain_def)
  note s = store_step_facts [OF ok assms(3)]
  show "plain st'" using assms(1) s(1) config_of_fields [OF s(2)] by (simp add: plain_def)
  show "spec_step (s_zero st) x r (stored_value st (content w)) (stored_value st (content w'))"
  proof (cases x)
    case (OpGet e)
    with assms(3) obtain r1 where get: "getLocked e st w = (r1, st', w')" "r = Value r1"
      by (auto simp: store_Get_def split: prod.splits)
    then show ?thesis using OpGet getLocked_content [OF b get(1)] Get_plain [OF assms(1,2)] by auto
  next
    case (OpUpdate e fn)
    then show ?thesis using assms(3) Update_plain(1) [OF assms(1,2), of e fn]
      by (auto split: prod.splits simp del: spec_step.simps)
  next
    case (OpDelete e)
    then show ?thesis using assms(3) Delete_plain(1) [OF assms(1,2), of e]
      by (auto split: prod.splits simp del: spec_step.simps)
  next
    case (OpElsewhere f)
    then show ?thesis using assms(3) assms(4) [of f w] by auto
  qed
  show "fresh st' w'"
  proof (cases x)
    case (OpGet e)
    then show ?thesis using assms(3) getLocked_fresh [OF assms(1,2), of e]
      by (auto simp: store_Get_def split: prod.splits)
  next
    case (OpUpdate e fn)
    then show ?thesis using assms(3) Update_plain(2) [OF assms(1,2), of e fn] by (auto split: prod.splits)
  next
    case (OpDelete e)
    then show ?thesis using assms(3) Delete_plain(2) [OF assms(1,2), of e] by (auto split: prod.splits)
  next
    case (OpElsewhere f)
    then show ?thesis using assms(2,3) assms(4) [of f w] by (auto simp: fresh_def)
  qed
qed

lemma run_plain:
  assumes "plain st" and "fresh st w" and "store_run xs st w = (rs, st', w')"
    and "\<And>f w. OpElsewhere f \<in> set xs \<Longrightarrow> content (f w) = content w"
  shows "spec_run (s_zero st) xs rs (stored_value st (content w)) (stored_value st (content w'))"
  using assms
proof (induction xs arbitrary: st w rs)
  case (Cons x xs)
  obtain r st1 w1 where step: "store_step x st w = (r, st1, w1)" by (metis prod_cases3)
  obtain rs1 where run: "store_run xs st1 w1 = (rs1, st', w')" "rs = r # rs1"
    using Cons.prems(3) step by (auto split: prod.splits)
  note s = step_plain [OF Cons.prems(1,2) step] 
  have cfg: "config_of st1 = config_of st"
    using store_step_facts(2) Cons.prems(1) step by (auto simp: plain_def)
  have "spec_run (s_zero st1) xs rs1 (stored_value st1 (content w1)) (stored_value st1 (content w'))"
    using s Cons.prems(4) by (intro Cons.IH [OF _ _ run(1)]) auto
  then have "spec_run (s_zero st) xs rs1 (stored_value st (content w1)) (stored_value st (content w'))"
    by (simp only: stored_value_cong [OF cfg] config_of_fields [OF cfg])
  moreover have "spec_step (s_zero st) x r (stored_value st (content w)) (stored_value st (content w1))"
    using s(1) Cons.prems(4) by simp
  ultimately show ?case using run(2) by auto
qed simp

end

end
