(* ===== verification/Persist_Demo.thy ===== *)
theory Persist_Demo
  imports Persist_Runs
begin

text \<open>
  A store of counters over the in-memory backend, on which the properties of the durable tier
  are evaluated, and the interpretation of the store's contract on that backend.
\<close>

section \<open>A concrete store\<close>

text \<open>
  A store of counters of at most one resident, over the in-memory backend; a wake hook that
  adds the seconds slept; a clock that the backend's writes advance by one minute.
\<close>

definition minute_clock :: "mem \<Rightarrow> instant" where
  "minute_clock w = 1785067200000000000 + int (puts w) * 60000000000"

definition add_slept :: "nat WakeFn" where
  "add_slept e d n = Returned (n + nat (d div second))"

definition demo_opts :: "nat StoreOption list" where
  "demo_opts = [WithBound 1]"

definition demo_store :: "(nat, mem) Store" where
  "demo_store = \<lparr>s_name = ''cust'', s_b = memBackend, s_bound = 1, s_wake = None, s_codec = counter_codec,
     s_json = envelope_wire, s_now = minute_clock, s_zero = 0, resident = Map.empty, lru = [], cells = []\<rparr>"

lemma demo_NewStore:
  "NewStore ''cust'' memBackend demo_opts counter_codec envelope_wire minute_clock 0 = Returned demo_store"
  by (simp add: NewStore_def demo_opts_def demo_store_def)

lemmas demo_ok = NewStore_ok [OF demo_NewStore]

definition demo_ops :: "(nat, mem) store_op list" where
  "demo_ops = [OpUpdate ''c1'' (\<lambda>n. Returned (n + 7)), OpGet ''c2'', OpGet ''c1'', OpUpdate ''c1'' (\<lambda>n. Panicked)]"

lemma demo_results:
  "fst (store_run demo_ops demo_store newMemBackend) =
     [Value (Returned (7, None)), Value (Returned (0, None)), Value (Returned (7, None)), Value Panicked]"
  by code_simp

interpretation mem_counters: plain_store memBackend stored counter_codec envelope_wire
  by unfold_locales (auto simp: memBackend_def)

lemma demo_run_exists: "\<exists>rs st' w'. store_run xs demo_store w = (rs, st', w')"
  by (metis prod_cases3)

end
