(* ===== verification/Persist_Properties.thy ===== *)
theory Persist_Properties
  imports Persist_Demo
begin

text \<open>
  The properties of the durable store, each with an instance on the in-memory backend of the
  package's tests.
\<close>

section \<open>Residency\<close>

text \<open>
  C12. Whatever the calls do - hits, rehydrations, updates, deletes, failures, panics - the
  residents of a store built by \<open>NewStore\<close> never exceed its bound, which is positive, and
  the map and the list hold the same entities.
\<close>

theorem resident_bounded:
  assumes "NewStore name b opts jcodec json now zero = Returned st"
    and "store_run xs st w = (rs, st', w')"
  shows "0 < s_bound st' \<and> s_bound st' = s_bound st \<and> 0 \<le> Resident st' \<and> Resident st' \<le> s_bound st' \<and>
    Resident st' = int (card (dom (resident st')))"
proof -
  have ok: "store_ok st'" and cfg: "config_of st' = config_of st"
    using store_run_facts [OF NewStore_ok(1) [OF assms(1)] assms(2)] by auto
  have "dom (resident st') = fst ` set (view st')"
    unfolding dom_map_of_conv_image_fst [symmetric] using map_of_view [OF ok] by (auto simp: dom_def)
  then have "card (dom (resident st')) = length (lru st')"
    using distinct_card [OF view_distinct [OF ok]] by (simp add: view_length)
  then show ?thesis
    using ok_bound [OF ok] ok_length [OF ok] config_of_fields(3) [OF cfg] by (simp add: Resident_def)
qed

theorem resident_bounded_witness: "Resident (fst (snd (store_run demo_ops demo_store newMemBackend))) \<le> 1"
proof -
  obtain rs st' w' where run: "store_run demo_ops demo_store newMemBackend = (rs, st', w')"
    using demo_run_exists by blast
  have "s_bound demo_store = 1" by (simp add: demo_store_def)
  then show ?thesis using resident_bounded [OF demo_NewStore run] run by simp
qed

text \<open>
  C19. A store is a least-recently-used cache: over every sequence of calls the results, the
  residents in order of heat and the effects on the backend are those of the reference cache,
  which keeps one association list.
\<close>

theorem store_is_lru_cache:
  assumes "NewStore name b opts jcodec json now zero = Returned st"
  shows "(case store_run xs st w of (rs, st', w') \<Rightarrow> (rs, view st', w')) = cache_run st xs [] w"
proof -
  obtain rs st' w' where run: "store_run xs st w = (rs, st', w')" by (metis prod_cases3)
  from store_run_facts [OF NewStore_ok(1) [OF assms] run] show ?thesis
    by (simp add: run NewStore_ok(2) [OF assms])
qed

theorem store_is_lru_cache_witness:
  "fst (cache_run demo_store demo_ops [] newMemBackend) =
     [Value (Returned (7, None)), Value (Returned (0, None)), Value (Returned (7, None)), Value Panicked]"
  unfolding store_is_lru_cache [OF demo_NewStore, of demo_ops newMemBackend, symmetric]
  by (simp add: demo_results [symmetric] split: prod.split)

lemma admit_returns:
  assumes "store_ok st" and "resident st e = None"
  shows "admit e v st w \<noteq> (Panicked, st1, w1)" and "admit e v st w \<noteq> (Returned (u, Some err), st1, w1)"
  using admit_is_ref(2) [OF assms, of v w] by (auto simp: abs_step_def)

lemma Get_fails:
  assumes "store_ok st" and "getLocked e st w = (r, st1, w1)" and "\<nexists>v. r = Returned (v, None)"
  shows "st1 = st" and "r = Panicked \<Longrightarrow> \<exists>f d u. s_wake st = Some f \<and> f e d u = Panicked"
proof -
  have "st1 = st \<and> (r = Panicked \<longrightarrow> (\<exists>f d u. s_wake st = Some f \<and> f e d u = Panicked))"
  proof (cases "resident st e")
    case None
    note ret = admit_returns [OF assms(1) None]
    obtain f w2 where f: "fetch st e w = (f, w2)" by fastforce
    show ?thesis
    proof (cases "\<exists>v. f = Returned (v, None)")
      case True
      then show ?thesis using assms(2,3) ret f
        by (cases r; auto simp: getLocked_miss [OF None]; metis option.exhaust surj_pair)
    next
      case False
      then have "r = f" "st1 = st"
        using assms(2) f by (auto simp: getLocked_miss [OF None] split: outcome.splits option.splits)
      then show ?thesis using f
        by (auto simp: fetch_def rehydrate_def split: prod.splits outcome.splits option.splits sum.splits)
    qed
  qed (use assms(2,3) in \<open>auto simp: getLocked_hit\<close>)
  then show "st1 = st" and "r = Panicked \<Longrightarrow> \<exists>f d u. s_wake st = Some f \<and> f e d u = Panicked" by auto
qed

lemma Update_fails:
  assumes "store_ok st" and "store_Update e fn st w = (r, st2, w2)" and "\<nexists>u. r = Returned (u, None)"
  shows "\<exists>r1 w1. getLocked e st w = (r1, st2, w1) \<and>
    (r = Panicked \<longrightarrow> (\<exists>u. fn u = Panicked) \<or> (\<exists>f d u. s_wake st = Some f \<and> f e d u = Panicked))"
proof -
  obtain r1 st1 w1 where get: "getLocked e st w = (r1, st1, w1)" by (metis prod_cases3)
  show ?thesis
  proof (cases "\<exists>cur. r1 = Returned (cur, None)")
    case True
    then obtain cur where cur: "r1 = Returned (cur, None)" by blast
    note s = getLocked_success [OF assms(1) get [unfolded cur]]
    obtain el where el: "resident st1 e = Some el" using s(1,3) by (auto simp: map_of_view)
    show ?thesis using assms(2,3)
      by (auto simp: store_Update_save get cur reflect_def el split: outcome.splits option.splits prod.splits)
  next
    case False
    then have "r = r1 \<and> st2 = st1"
      using assms(2) by (auto simp: store_Update_save get split: outcome.splits option.splits)
    then show ?thesis using get Get_fails(2) [OF assms(1) get False] by blast
  qed
qed

text \<open>
  C29. Failures are contained: a read that fails or panics leaves the store as it was, an
  update that fails or panics leaves it as the read it starts with, a delete that fails
  changes nothing. A panic comes from the caller's function or the wake hook, never from the
  store itself.
\<close>

theorem failures_contained:
  assumes "store_ok st"
  shows "(store_Get e st w = (r, st1, w1) \<and> (\<nexists>u. r = Returned (u, None)) \<longrightarrow>
       st1 = st \<and> (r = Panicked \<longrightarrow> (\<exists>f d u. s_wake st = Some f \<and> f e d u = Panicked))) \<and>
    (store_Update e fn st w = (r, st1, w1) \<and> (\<nexists>u. r = Returned (u, None)) \<longrightarrow>
       (\<exists>r0 w0. store_Get e st w = (r0, st1, w0)) \<and>
       (r = Panicked \<longrightarrow> (\<exists>u. fn u = Panicked) \<or> (\<exists>f d u. s_wake st = Some f \<and> f e d u = Panicked))) \<and>
    (store_Delete e st w = (Some err, st1, w1) \<longrightarrow> st1 = st)"
proof (intro conjI)
  show "store_Get e st w = (r, st1, w1) \<and> (\<nexists>u. r = Returned (u, None)) \<longrightarrow>
       st1 = st \<and> (r = Panicked \<longrightarrow> (\<exists>f d u. s_wake st = Some f \<and> f e d u = Panicked))"
    using Get_fails [OF assms, of e w r st1 w1] by (auto simp: store_Get_def)
  show "store_Update e fn st w = (r, st1, w1) \<and> (\<nexists>u. r = Returned (u, None)) \<longrightarrow>
       (\<exists>r0 w0. store_Get e st w = (r0, st1, w0)) \<and>
       (r = Panicked \<longrightarrow> (\<exists>u. fn u = Panicked) \<or> (\<exists>f d u. s_wake st = Some f \<and> f e d u = Panicked))"
    using Update_fails [OF assms, of e fn w r st1 w1] by (auto simp: store_Get_def)
  show "store_Delete e st w = (Some err, st1, w1) \<longrightarrow> st1 = st"
    by (auto simp: store_Delete_def split: prod.splits option.splits)
qed

text \<open>An update whose function panics, and one the backend refuses.\<close>

definition refusing :: "mem Backend" where
  "refusing = memBackend\<lparr>b_Put := \<lambda>k v w. (Some (Opaque ''backend down''), w)\<rparr>"

theorem failures_contained_witness:
  "(\<exists>st1 w1 r0 w0. store_Update ''c1'' (\<lambda>n. Panicked) demo_store newMemBackend = (Panicked, st1, w1) \<and>
      store_Get ''c1'' demo_store newMemBackend = (r0, st1, w0)) \<and>
   (\<exists>st1 w1 r0 w0. store_Update ''c1'' (\<lambda>n. Returned (n + 1)) (demo_store\<lparr>s_b := refusing\<rparr>) newMemBackend =
        (Returned (1, Some (Opaque ''backend down'')), st1, w1) \<and>
      store_Get ''c1'' (demo_store\<lparr>s_b := refusing\<rparr>) newMemBackend = (r0, st1, w0))"
proof
  have "fst (store_Update ''c1'' (\<lambda>n. Panicked) demo_store newMemBackend) = Panicked" by code_simp
  then obtain st1 w1 where upd: "store_Update ''c1'' (\<lambda>n. Panicked) demo_store newMemBackend = (Panicked, st1, w1)"
    by (metis fst_conv prod_cases3)
  then show "\<exists>st1 w1 r0 w0. store_Update ''c1'' (\<lambda>n. Panicked) demo_store newMemBackend = (Panicked, st1, w1) \<and>
      store_Get ''c1'' demo_store newMemBackend = (r0, st1, w0)"
    using failures_contained [OF demo_ok(1)] by blast
next
  let ?st = "demo_store\<lparr>s_b := refusing\<rparr>"
  have ok: "store_ok ?st" by (simp add: store_ok_def demo_store_def)
  have "fst (store_Update ''c1'' (\<lambda>n. Returned (n + 1)) ?st newMemBackend) =
      Returned (1, Some (Opaque ''backend down''))" by code_simp
  then obtain st1 w1 where upd: "store_Update ''c1'' (\<lambda>n. Returned (n + 1)) ?st newMemBackend =
      (Returned (1, Some (Opaque ''backend down'')), st1, w1)"
    by (metis fst_conv prod_cases3)
  then have "\<exists>r0 w0. store_Get ''c1'' ?st newMemBackend = (r0, st1, w0)"
    using failures_contained [OF ok] by blast
  with upd show "\<exists>st1 w1 r0 w0. store_Update ''c1'' (\<lambda>n. Returned (n + 1)) ?st newMemBackend =
        (Returned (1, Some (Opaque ''backend down'')), st1, w1) \<and>
      store_Get ''c1'' ?st newMemBackend = (r0, st1, w0)" by blast
qed

section \<open>What an access returns\<close>

lemma hit_again:
  assumes "store_ok st" and "view st = (e, v) # c"
  shows "store_Get e st w = (Returned (v, None), st, w)"
proof -
  obtain el rest where l: "lru st = el # rest" "en_entity (cells st ! el) = e" "en_state (cells st ! el) = v"
    using assms(2) by (cases "lru st") (auto simp: view_def cell_pair_def)
  then have "resident st e = Some el" using ok_listed [OF assms(1), of el] by simp
  then show ?thesis using l by (simp add: store_Get_def getLocked_hit MoveToFront_def)
qed

lemma rehydrate_returns:
  assumes "rehydrate st e raw w = Returned (v, None)"
  shows "\<exists>env v0. j_Unmarshal (s_json st) raw = Inr env \<and> c_Unmarshal (s_codec st) (env_State env) = (v0, None) \<and>
    (case s_wake st of
       None \<Rightarrow> v = v0
     | Some f \<Rightarrow> f e (time_Sub (s_now st w) (env_LastActive env)) v0 = Returned v)"
proof (cases "j_Unmarshal (s_json st) raw")
  case (Inr env)
  obtain v0 x where dec: "c_Unmarshal (s_codec st) (env_State env) = (v0, x)" by fastforce
  show ?thesis using assms
    by (cases x; cases "s_wake st") (auto simp: rehydrate_def Inr dec split: outcome.splits)
qed (use assms in \<open>simp add: rehydrate_def\<close>)

text \<open>
  C17. A read that succeeds returns the resident value without a backend call; or the zero
  value, when the backend holds nothing; or what the backend holds, decoded and, when there is
  a wake hook, advanced by it once with the time since the stored stamp. So a stored value is
  never silently read as zero. Reading again returns the same value, whatever became of the
  world: no backend call and no second wake.
\<close>

theorem read_outcome:
  assumes "durable_backend b content" and "store_ok st" and "s_b st = b"
    and "store_Get e st w = (Returned (v, None), st', w')"
  shows "(map_of (view st) e = Some v \<and> w' = w \<or>
      map_of (view st) e = None \<and> content w (store_key st e) = None \<and> v = s_zero st \<or>
      map_of (view st) e = None \<and> (\<exists>raw env v0. content w (store_key st e) = Some raw \<and>
        j_Unmarshal (s_json st) raw = Inr env \<and> c_Unmarshal (s_codec st) (env_State env) = (v0, None) \<and>
        (case s_wake st of
           None \<Rightarrow> v = v0
         | Some f \<Rightarrow> f e (time_Sub (s_now st w') (env_LastActive env)) v0 = Returned v))) \<and>
    content w' = content w \<and> store_Get e st' w2 = (Returned (v, None), st', w2)"
proof (intro conjI)
  have get: "getLocked e st w = (Returned (v, None), st', w')"
    using assms(4) by (simp add: store_Get_def)
  show "content w' = content w" by (rule durable_backend.getLocked_content [OF assms(1,3) get])
  note s = getLocked_success [OF assms(2) get]
  obtain c where "view st' = (e, v) # c" using ref_Get_residents [OF s(4)] by auto
  then show "store_Get e st' w2 = (Returned (v, None), st', w2)" by (rule hit_again [OF s(1)])
  show "map_of (view st) e = Some v \<and> w' = w \<or>
      map_of (view st) e = None \<and> content w (store_key st e) = None \<and> v = s_zero st \<or>
      map_of (view st) e = None \<and> (\<exists>raw env v0. content w (store_key st e) = Some raw \<and>
        j_Unmarshal (s_json st) raw = Inr env \<and> c_Unmarshal (s_codec st) (env_State env) = (v0, None) \<and>
        (case s_wake st of
           None \<Rightarrow> v = v0
         | Some f \<Rightarrow> f e (time_Sub (s_now st w') (env_LastActive env)) v0 = Returned v))"
    using durable_backend.Get_outcome [OF assms(1,2,3) get]
  proof (elim disjE conjE exE)
    fix raw assume "map_of (view st) e = None" "content w (store_key st e) = Some raw"
      and "rehydrate st e raw w' = Returned (v, None)"
    with rehydrate_returns [of st e raw w' v] show ?thesis by blast
  qed simp_all
qed

text \<open>An evicted entity, read again a minute later with a wake hook.\<close>

definition slept_world :: mem where
  "slept_world = snd (snd (store_run [OpUpdate ''c1'' (\<lambda>n. Returned (n + 7)), OpUpdate ''c2'' Returned]
                       demo_store newMemBackend))"

theorem read_outcome_witness:
  "stored slept_world ''cust.c1'' \<noteq> None \<and>
   (\<exists>st' w'. store_Get ''c1'' (demo_store\<lparr>s_wake := Some add_slept\<rparr>) slept_world = (Returned (127, None), st', w') \<and>
      stored w' = stored slept_world \<and> (\<forall>w2. store_Get ''c1'' st' w2 = (Returned (127, None), st', w2)))"
proof
  show "stored slept_world ''cust.c1'' \<noteq> None" by code_simp
  let ?st = "demo_store\<lparr>s_wake := Some add_slept\<rparr>"
  have "store_ok ?st" "s_b ?st = memBackend" by (simp_all add: store_ok_def demo_store_def)
  note outcome = read_outcome [OF membackend.durable_backend_axioms this]
  have "fst (store_Get ''c1'' ?st slept_world) = Returned (127, None)" by code_simp
  then obtain st' w' where get: "store_Get ''c1'' ?st slept_world = (Returned (127, None), st', w')"
    by (metis fst_conv prod_cases3)
  then have "stored w' = stored slept_world" "\<forall>w2. store_Get ''c1'' st' w2 = (Returned (127, None), st', w2)"
    using outcome [OF get] by blast+
  with get show "\<exists>st' w'. store_Get ''c1'' ?st slept_world = (Returned (127, None), st', w') \<and>
      stored w' = stored slept_world \<and> (\<forall>w2. store_Get ''c1'' st' w2 = (Returned (127, None), st', w2))"
    by blast
qed



end
