(* ===== verification/Persist_Durability.thy ===== *)
theory Persist_Durability
  imports Persist_Demo
begin

text \<open>
  What becomes of the backend's contents: the store refines a map from entities to values, so
  that eviction cannot be seen; only a delete removes; stores of different names keep apart.
\<close>

section \<open>Refinement\<close>

lemma store_refines:
  assumes "plain_store b content codec json"
    and "NewStore name b opts codec json now zero = Returned st"
    and "s_codec st = codec" and "s_wake st = None"
    and "store_run xs st w = (rs, st', w')"
    and "\<And>f w. OpElsewhere f \<in> set xs \<Longrightarrow> content (f w) = content w"
  shows "spec_run zero xs rs (stored_value st (content w)) (stored_value st (content w'))"
proof -
  note new = NewStore_ok [OF assms(2)]
  have "plain_store.plain b codec json st"
    unfolding plain_store.plain_def [OF assms(1)] using new assms(3,4) by simp
  moreover have "plain_store.fresh content st w"
    unfolding plain_store.fresh_def [OF assms(1)] by (simp add: new)
  ultimately have "spec_run (s_zero st) xs rs (stored_value st (content w)) (stored_value st (content w'))"
    using plain_store.run_plain [OF assms(1) _ _ assms(5)] assms(6) by blast
  then show ?thesis by (simp only: new)
qed

text \<open>
  C7. Over a backend whose failed writes have no effect, with codecs that read back what they
  wrote and no wake hook, a store is a plain map from entities to values, initially what the
  backend holds: each successful read returns the entity's current value, each successful
  update applies its function to it, each successful delete resets it to zero, and failures,
  panics and evictions change nothing.
\<close>

theorem store_refines_map:
  assumes "plain_store b content codec json"
    and "NewStore name b opts codec json now zero = Returned st"
    and "s_codec st = codec" and "s_wake st = None"
    and "store_run xs st w = (rs, st', w')"
    and "\<And>f w. OpElsewhere f \<in> set xs \<Longrightarrow> content (f w) = content w"
  shows "spec_run zero xs rs (stored_value st (content w)) (stored_value st (content w'))"
  using assms(1-5) by (rule store_refines) (rule assms(6))

theorem store_refines_map_witness:
  "spec_run 0 demo_ops
     [Value (Returned (7, None)), Value (Returned (0, None)), Value (Returned (7, None)), Value Panicked]
     (stored_value demo_store Map.empty)
     (stored_value demo_store (stored (snd (snd (store_run demo_ops demo_store newMemBackend)))))"
proof -
  obtain rs st' w' where run: "store_run demo_ops demo_store newMemBackend = (rs, st', w')"
    using demo_run_exists by blast
  have "spec_run 0 demo_ops rs (stored_value demo_store (stored newMemBackend)) (stored_value demo_store (stored w'))"
    by (rule store_refines_map [OF mem_counters.plain_store_axioms demo_NewStore _ _ run])
       (simp_all add: demo_store_def demo_ops_def)
  moreover have "rs = [Value (Returned (7, None)), Value (Returned (0, None)), Value (Returned (7, None)), Value Panicked]"
    using demo_results run by simp
  moreover have "stored newMemBackend = Map.empty" by (simp add: newMemBackend_def)
  ultimately show ?thesis by (simp only: run snd_conv)
qed

section \<open>Keys\<close>

lemma dot_free_keys:
  "CHR ''.'' \<notin> set n1 \<Longrightarrow> CHR ''.'' \<notin> set n2 \<Longrightarrow> n1 @ ''.'' @ e1 = n2 @ ''.'' @ e2 \<Longrightarrow> n1 = n2 \<and> e1 = e2"
proof (induction n1 arbitrary: n2)
  case Nil
  then show ?case by (cases n2) auto
next
  case (Cons c cs)
  then show ?case by (cases n2) auto
qed

context durable_backend begin

lemma step_contents:
  assumes "store_ok st" and "s_b st = b" and "store_step x st w = (r, st', w')" and "\<nexists>f. x = OpElsewhere f"
  shows "content w' = content w \<or>
    (\<exists>e fn v. x = OpUpdate e fn \<and> content w' = (content w)(store_key st e \<mapsto> v)) \<or>
    (\<exists>e. x = OpDelete e \<and> content w' = (content w)(store_key st e := None))"
proof (cases x)
  case (OpGet e)
  then show ?thesis using assms(3) getLocked_content [OF assms(2)]
    by (auto simp: store_Get_def split: prod.splits)
next
  case (OpUpdate e fn)
  then show ?thesis using assms(3) Update_content [OF assms(1,2)] by (auto split: prod.splits)
next
  case (OpDelete e)
  then show ?thesis using assms(3) Delete_content [OF assms(2)] by (auto split: prod.splits)
qed (use assms(4) in simp)

lemma run_keeps:
  assumes "store_ok st" and "s_b st = b" and "store_run xs st w = (rs, st', w')"
    and "\<And>e. OpDelete e \<in> set xs \<Longrightarrow> k \<noteq> store_key st e"
    and "\<And>f w. OpElsewhere f \<in> set xs \<Longrightarrow> content w k \<noteq> None \<Longrightarrow> content (f w) k \<noteq> None"
    and "content w k \<noteq> None"
  shows "content w' k \<noteq> None"
  using assms
proof (induction xs arbitrary: st w rs)
  case (Cons x xs)
  obtain r st1 w1 where step: "store_step x st w = (r, st1, w1)" by (metis prod_cases3)
  obtain rs1 where run: "store_run xs st1 w1 = (rs1, st', w')"
    using Cons.prems(3) step by (auto split: prod.splits)
  note s = store_step_facts [OF Cons.prems(1) step]
  have key: "store_key st1 e = store_key st e" for e by (simp add: store_key_def config_of_fields [OF s(2)])
  have kept: "content w1 k \<noteq> None"
  proof (cases "\<exists>f. x = OpElsewhere f")
    case True
    then show ?thesis using step Cons.prems(5,6) by auto
  next
    case False
    from step_contents [OF Cons.prems(1,2) step False] show ?thesis
      using Cons.prems(4,6) by (auto split: if_splits)
  qed
  show ?case
    using Cons.prems(2,4,5) kept
    by (intro Cons.IH [OF s(1) _ run]) (simp_all add: config_of_fields [OF s(2)] key)
qed simp

lemma run_elsewhere:
  assumes "store_ok st" and "s_b st = b" and "store_run xs st w = (rs, st', w')"
    and "\<And>e. k \<noteq> store_key st e"
    and "\<And>f w. OpElsewhere f \<in> set xs \<Longrightarrow> content (f w) k = content w k"
  shows "content w' k = content w k"
  using assms
proof (induction xs arbitrary: st w rs)
  case (Cons x xs)
  obtain r st1 w1 where step: "store_step x st w = (r, st1, w1)" by (metis prod_cases3)
  obtain rs1 where run: "store_run xs st1 w1 = (rs1, st', w')"
    using Cons.prems(3) step by (auto split: prod.splits)
  note s = store_step_facts [OF Cons.prems(1) step]
  have key: "store_key st1 e = store_key st e" for e by (simp add: store_key_def config_of_fields [OF s(2)])
  have same: "content w1 k = content w k"
  proof (cases "\<exists>f. x = OpElsewhere f")
    case True
    then show ?thesis using step Cons.prems(5) by auto
  next
    case False
    from step_contents [OF Cons.prems(1,2) step False] show ?thesis
      using Cons.prems(4) by auto
  qed
  have "content w' k = content w1 k"
    using Cons.prems(2,4,5)
    by (intro Cons.IH [OF s(1) _ run]) (simp_all add: config_of_fields [OF s(2)] key)
  with same show ?case by simp
qed simp

end

text \<open>
  Only a delete removes: through any sequence of reads, updates, failures, panics and
  evictions, what the backend holds for an entity stays present, unless the sequence deletes
  that entity.
\<close>

theorem only_delete_removes:
  assumes "durable_backend b content" and "store_ok st" and "s_b st = b"
    and "store_run xs st w = (rs, st', w')" and "OpDelete e \<notin> set xs"
    and "\<And>f w. OpElsewhere f \<in> set xs \<Longrightarrow> dom (content w) \<subseteq> dom (content (f w))"
    and "content w (store_key st e) \<noteq> None"
  shows "content w' (store_key st e) \<noteq> None"
proof (rule durable_backend.run_keeps [OF assms(1-4)])
  show "store_key st e \<noteq> store_key st x" if "OpDelete x \<in> set xs" for x
    using that assms(5) by (auto simp: store_key_def)
  show "content (f w) (store_key st e) \<noteq> None"
    if "OpElsewhere f \<in> set xs" "content w (store_key st e) \<noteq> None" for f w
    using assms(6) [OF that(1), of w] that(2) by (auto simp: dom_def)
qed (fact assms(7))

definition after_seven :: mem where
  "after_seven = snd (snd (store_run [OpUpdate ''c1'' (\<lambda>n. Returned (n + 7))] demo_store newMemBackend))"

theorem only_delete_removes_witness:
  "stored (snd (snd (store_run [OpDelete ''c2'', OpGet ''c3''] demo_store after_seven))) ''cust.c1'' \<noteq> None"
proof -
  let ?xs = "[OpDelete ''c2'', OpGet ''c3''] :: (nat, mem) store_op list"
  have b: "s_b demo_store = memBackend" by (simp add: demo_store_def)
  have key: "store_key demo_store ''c1'' = ''cust.c1''" by (simp add: store_key_def demo_store_def)
  have held: "stored after_seven (store_key demo_store ''c1'') \<noteq> None" by code_simp
  obtain rs st' w' where run: "store_run ?xs demo_store after_seven = (rs, st', w')"
    using prod_cases3 by blast
  have "stored w' (store_key demo_store ''c1'') \<noteq> None"
    by (rule only_delete_removes [OF membackend.durable_backend_axioms demo_ok(1) b run _ _ held]) auto
  then show ?thesis unfolding run snd_conv fst_conv key .
qed

text \<open>
  Stores whose names are different and free of dots never touch each other's entries,
  however they share a backend.
\<close>

theorem stores_keep_apart:
  assumes "durable_backend b content" and "store_ok st" and "s_b st = b"
    and "store_run xs st w = (rs, st', w')"
    and "\<And>f w. OpElsewhere f \<in> set xs \<Longrightarrow> content (f w) = content w"
    and "CHR ''.'' \<notin> set (s_name st)" and "CHR ''.'' \<notin> set (s_name other)" and "s_name other \<noteq> s_name st"
  shows "content w' (store_key other e) = content w (store_key other e)"
proof (rule durable_backend.run_elsewhere [OF assms(1-4)])
  show "store_key other e \<noteq> store_key st x" for x
    using dot_free_keys [OF assms(7,6)] assms(8) by (auto simp: store_key_def)
qed (simp add: assms(5))

theorem stores_keep_apart_witness:
  "stored (snd (snd (store_run [OpUpdate ''c1'' (\<lambda>n. Returned 3)] (demo_store\<lparr>s_name := ''other''\<rparr>) after_seven)))
     ''cust.c1'' = stored after_seven ''cust.c1''"
proof -
  let ?xs = "[OpUpdate ''c1'' (\<lambda>n. Returned 3)] :: (nat, mem) store_op list"
  let ?st = "demo_store\<lparr>s_name := ''other''\<rparr>"
  have st: "store_ok ?st" "s_b ?st = memBackend" by (simp_all add: store_ok_def demo_store_def)
  have key: "store_key demo_store ''c1'' = ''cust.c1''" by (simp add: store_key_def demo_store_def)
  obtain rs st' w' where run: "store_run ?xs ?st after_seven = (rs, st', w')"
    using prod_cases3 by blast
  have "stored w' (store_key demo_store ''c1'') = stored after_seven (store_key demo_store ''c1'')"
    by (rule stores_keep_apart [OF membackend.durable_backend_axioms st run])
       (simp_all add: demo_store_def)
  then show ?thesis by (simp only: run key snd_conv)
qed

text \<open>
  With a dot in a name, different stores can share a key: the store \<open>cust\<close> reads the entity
  \<open>eu.c1\<close> where the store \<open>cust.eu\<close> keeps \<open>c1\<close>.
\<close>

theorem dotted_names_collide:
  "store_key demo_store ''eu.c1'' = store_key (demo_store\<lparr>s_name := ''cust.eu''\<rparr>) ''c1'' \<and>
   fst (store_run [OpGet ''eu.c1''] demo_store
     (snd (snd (store_run [OpUpdate ''c1'' (\<lambda>n. Returned 3)] (demo_store\<lparr>s_name := ''cust.eu''\<rparr>) newMemBackend))))
   = [Value (Returned (3, None))]"
  by code_simp

section \<open>Writes reported as failed\<close>

text \<open>
  A backend that performs a write and then reports a failure, as a lost acknowledgement does.
  The contract allows it. The update fails and the resident value stays the old one; once the
  entity has been evicted, the new value appears.
\<close>

definition late_backend :: "mem Backend" where
  "late_backend = memBackend\<lparr>b_Put := \<lambda>k v w. (Some (Sentinel Context_DeadlineExceeded), snd (b_Put memBackend k v w))\<rparr>"

interpretation late: durable_backend late_backend stored
  by unfold_locales (auto simp: late_backend_def memBackend_def Let_def split: option.splits)

theorem failed_write_appears_later:
  "fst (store_run [OpUpdate ''c1'' (\<lambda>n. Returned 5), OpGet ''c1'', OpGet ''c2'', OpGet ''c1'']
     (demo_store\<lparr>s_b := late_backend\<rparr>) newMemBackend) =
   [Value (Returned (5, Some (Sentinel Context_DeadlineExceeded))), Value (Returned (0, None)),
    Value (Returned (0, None)), Value (Returned (5, None))]"
  by code_simp

end
