(* ===== verification/Persist_Beacon.thy ===== *)
theory Persist_Beacon
  imports Persist_Demo
begin

text \<open>
  The restart clock of an imp (\<open>persist/beacon.go\<close>): a stamp under one backend key, and the
  time since it.
\<close>

record 'w Beacon =
  be_name :: string
  be_b :: "'w Backend"
  be_now :: "'w \<Rightarrow> instant"

definition NewBeacon :: "string \<Rightarrow> 'w Backend \<Rightarrow> ('w \<Rightarrow> instant) \<Rightarrow> 'w Beacon outcome" where
  "NewBeacon name b now =
     (if name = [] then Panicked else Returned \<lparr>be_name = name, be_b = b, be_now = now\<rparr>)"

definition Stamp :: "'w Beacon \<Rightarrow> 'w \<Rightarrow> gerr option \<times> 'w" where
  "Stamp bc w = b_Put (be_b bc) (be_name bc) (format_rfc3339 (be_now bc w)) w"

text \<open>The results of \<open>SleptFor\<close>: the elapsed time, whether there is a stamp, and the error.\<close>

definition SleptFor :: "'w Beacon \<Rightarrow> 'w \<Rightarrow> (duration \<times> bool \<times> gerr option) \<times> 'w" where
  "SleptFor bc w =
     (case b_Get (be_b bc) (be_name bc) w of
        (Inl err, w1) \<Rightarrow>
          if errors_Is err Persist_ErrNotFound then ((0, False, None), w1) else ((0, False, Some err), w1)
      | (Inr raw, w1) \<Rightarrow>
          (case parse_rfc3339 raw of
             None \<Rightarrow> ((0, False, Some (Wrapped ''persist: decode beacon stamp'' (Opaque ''parsing time''))), w1)
           | Some stamp \<Rightarrow> ((time_Sub (be_now bc w1) stamp, True, None), w1)))"

text \<open>
  C30. What was stamped is read back exactly: after a stamp that succeeded, and as long as
  nothing else overwrites it, the clock reports the time from the stamp to now, to the
  nanosecond, or the error of the read, and never that there was no stamp. Without a stamp it
  never reports an elapsed time.
\<close>

theorem beacon_round_trip:
  assumes "durable_backend (be_b bc) content" and "expressible (be_now bc w)"
    and "Stamp bc w = (None, w1)" and "content w2 (be_name bc) = content w1 (be_name bc)"
    and "SleptFor bc w2 = (res, w3)" and "content w0 (be_name bc) = None"
  shows "(res = (time_Sub (be_now bc w3) (be_now bc w), True, None) \<or>
      (\<exists>err. fst (b_Get (be_b bc) (be_name bc) w2) = Inl err \<and> res = (0, False, Some err))) \<and>
    (\<exists>err. fst (SleptFor bc w0) = (0, False, err))"
proof
  have held: "content w2 (be_name bc) = Some (format_rfc3339 (be_now bc w))"
    using durable_backend.put_done [OF assms(1)] assms(3,4) by (simp add: Stamp_def)
  show "res = (time_Sub (be_now bc w3) (be_now bc w), True, None) \<or>
      (\<exists>err. fst (b_Get (be_b bc) (be_name bc) w2) = Inl err \<and> res = (0, False, Some err))"
  proof (cases "b_Get (be_b bc) (be_name bc) w2")
    case (Pair r w3')
    show ?thesis
    proof (cases r)
      case (Inl err)
      then have "\<not> errors_Is err Persist_ErrNotFound"
        using durable_backend.get_missing [OF assms(1)] Pair held by fastforce
      then show ?thesis using assms(5) Pair Inl by (simp add: SleptFor_def)
    next
      case (Inr raw)
      then have "raw = format_rfc3339 (be_now bc w)"
        using durable_backend.get_value [OF assms(1)] Pair held by fastforce
      then show ?thesis using assms(5) Pair Inr parse_format_rfc3339 [OF assms(2)]
        by (auto simp: SleptFor_def)
    qed
  qed
  obtain r w' where get: "b_Get (be_b bc) (be_name bc) w0 = (r, w')" by fastforce
  have "\<exists>err. r = Inl err"
    using durable_backend.get_value [OF assms(1)] get assms(6) by (cases r) fastforce+
  then show "\<exists>err. fst (SleptFor bc w0) = (0, False, err)"
    using get by (auto simp: SleptFor_def)
qed

definition watcher :: "mem Beacon" where
  "watcher = \<lparr>be_name = ''watcher'', be_b = memBackend, be_now = minute_clock\<rparr>"

theorem beacon_round_trip_witness:
  "NewBeacon ''watcher'' memBackend minute_clock = Returned watcher \<and>
   fst (SleptFor watcher (snd (Stamp watcher newMemBackend))) = (60000000000, True, None) \<and>
   (\<exists>err. fst (SleptFor watcher newMemBackend) = (0, False, err))"
proof (intro conjI)
  show "NewBeacon ''watcher'' memBackend minute_clock = Returned watcher"
    by (simp add: NewBeacon_def watcher_def)
  have b: "durable_backend (be_b watcher) stored"
    using membackend.durable_backend_axioms by (simp add: watcher_def)
  have t: "expressible (be_now watcher newMemBackend)" by code_simp
  have "fst (Stamp watcher newMemBackend) = None" by code_simp
  then obtain w1 where st: "Stamp watcher newMemBackend = (None, w1)" by (metis prod.collapse)
  obtain res w3 where sl: "SleptFor watcher w1 = (res, w3)" by fastforce
  have none: "stored newMemBackend (be_name watcher) = None" by (simp add: newMemBackend_def)
  note rt = beacon_round_trip [OF b t st refl sl none]
  then show "\<exists>err. fst (SleptFor watcher newMemBackend) = (0, False, err)" by blast
  have held: "stored w1 (be_name watcher) \<noteq> None" and p1: "puts w1 = 1"
    using st by (auto simp: Stamp_def watcher_def memBackend_def newMemBackend_def)
  then have p3: "puts w3 = 1"
    and "\<exists>v. fst (b_Get (be_b watcher) (be_name watcher) w1) = Inr v"
    using sl by (auto simp: SleptFor_def watcher_def memBackend_def Let_def split: option.splits)
  then have "res = (time_Sub (be_now watcher w3) (be_now watcher newMemBackend), True, None)"
    using rt by auto
  moreover have "puts newMemBackend = 0" by (simp add: newMemBackend_def)
  ultimately have "res = (60000000000, True, None)" using p3
    by (simp add: watcher_def minute_clock_def time_Sub_def int64_min_def int64_max_def)
  then show "fst (SleptFor watcher (snd (Stamp watcher newMemBackend))) = (60000000000, True, None)"
    by (simp add: st sl)
qed

end
