(* ===== verification/Options.thy ===== *)
theory Options
  imports Prelude
begin

text \<open>
  Functional options. The packages of the program configure themselves the same way: each
  option sets a field of a configuration, and the options are applied in order over the
  defaults. The contract is stated once: a field holds what the last option that sets it
  says, or the default.
\<close>

fun last_set :: "('o \<Rightarrow> 'f option) \<Rightarrow> 'o list \<Rightarrow> 'f option" where
  "last_set sets [] = None"
| "last_set sets (x # xs) = (case last_set sets xs of None \<Rightarrow> sets x | Some v \<Rightarrow> Some v)"

lemma last_set_None: "last_set sets xs = None \<longleftrightarrow> (\<forall>x \<in> set xs. sets x = None)"
  by (induction xs) (auto split: option.splits)

lemma last_set_Some_in: "last_set sets xs = Some v \<Longrightarrow> \<exists>x \<in> set xs. sets x = Some v"
  by (induction xs) (auto split: option.splits)

locale option_field =
  fixes apply_option :: "'o \<Rightarrow> 'c \<Rightarrow> 'c" and get :: "'c \<Rightarrow> 'f" and sets :: "'o \<Rightarrow> 'f option"
  assumes get_apply: "get (apply_option x c) = (case sets x of None \<Rightarrow> get c | Some v \<Rightarrow> v)"
begin

lemma last_wins:
  "get (fold apply_option xs c) = (case last_set sets xs of None \<Rightarrow> get c | Some v \<Rightarrow> v)"
  by (induction xs arbitrary: c) (auto simp: get_apply split: option.splits)

lemma untouched: "(\<And>x. x \<in> set xs \<Longrightarrow> sets x = None) \<Longrightarrow> get (fold apply_option xs c) = get c"
  using last_wins last_set_None [of sets xs] by simp

end

text \<open>A setting, or the default.\<close>

definition or_else :: "'v option \<Rightarrow> 'v \<Rightarrow> 'v" where
  "or_else x d = (case x of None \<Rightarrow> d | Some v \<Rightarrow> v)"

end
