(* ===== verification/Schedule_Register.thy ===== *)
theory Schedule_Register
  imports Options Go_Std Imp_Errors
begin

text \<open>
  Registering and removing schedules (\<open>schedule/register.go\<close>), with the header names of
  \<open>schedule/tick.go\<close>. A schedule is one message with headers on its own subject; the server
  keeps the last message of a subject. The JetStream calls are parameters.
\<close>

section \<open>Header names\<close>

definition headerSchedule :: string where "headerSchedule = ''Nats-Schedule''"
definition headerScheduleTarget :: string where "headerScheduleTarget = ''Nats-Schedule-Target''"
definition headerScheduleTTL :: string where "headerScheduleTTL = ''Nats-Schedule-TTL''"
definition headerScheduleTimeZone :: string where "headerScheduleTimeZone = ''Nats-Schedule-Time-Zone''"
definition headerScheduleRollup :: string where "headerScheduleRollup = ''Nats-Schedule-Rollup''"
definition headerScheduleSource :: string where "headerScheduleSource = ''Nats-Schedule-Source''"

lemmas schedule_headers = headerSchedule_def headerScheduleTarget_def headerScheduleTTL_def
  headerScheduleTimeZone_def headerScheduleRollup_def headerScheduleSource_def

section \<open>Options\<close>

record registerConfig =
  rc_ttl :: duration
  rc_ttlSet :: bool
  rc_timeZone :: string
  rc_body :: bytes
  rc_source :: string
  rc_rollup :: bool

definition zero_registerConfig :: registerConfig where
  "zero_registerConfig =
     \<lparr>rc_ttl = 0, rc_ttlSet = False, rc_timeZone = [], rc_body = [], rc_source = [], rc_rollup = False\<rparr>"

datatype RegisterOption =
    WithTickTTL duration
  | WithTimeZone string
  | WithBody bytes
  | WithSource string
  | WithRollup

fun apply_RegisterOption :: "RegisterOption \<Rightarrow> registerConfig \<Rightarrow> registerConfig" where
  "apply_RegisterOption (WithTickTTL ttl) c = c\<lparr>rc_ttl := ttl, rc_ttlSet := True\<rparr>"
| "apply_RegisterOption (WithTimeZone tz) c = c\<lparr>rc_timeZone := tz\<rparr>"
| "apply_RegisterOption (WithBody b) c = c\<lparr>rc_body := b\<rparr>"
| "apply_RegisterOption (WithSource s) c = c\<lparr>rc_source := s\<rparr>"
| "apply_RegisterOption WithRollup c = c\<lparr>rc_rollup := True\<rparr>"

definition register_config :: "RegisterOption list \<Rightarrow> registerConfig" where
  "register_config opts = fold apply_RegisterOption opts zero_registerConfig"

section \<open>The JetStream calls\<close>

text \<open>A stream handle is known by the name it was looked up with.\<close>

record 'w schedule_js =
  sj_PublishMsg :: "string \<Rightarrow> bytes \<Rightarrow> headers \<Rightarrow> 'w \<Rightarrow> gerr option \<times> 'w"
  sj_Stream :: "string \<Rightarrow> 'w \<Rightarrow> gerr option \<times> 'w"
  sj_Purge :: "string \<Rightarrow> string \<Rightarrow> 'w \<Rightarrow> gerr option \<times> 'w"

section \<open>Registering and removing\<close>

definition schedule_headers_of ::
  "(headers \<Rightarrow> string \<Rightarrow> string \<Rightarrow> headers) \<Rightarrow> registerConfig \<Rightarrow> string \<Rightarrow> string \<Rightarrow> headers" where
  "schedule_headers_of hset cfg pattern target =
     (let h1 = hset (hset Map.empty headerSchedule pattern) headerScheduleTarget target;
          h2 = (if rc_ttl cfg > 0 then hset h1 headerScheduleTTL (duration_String (rc_ttl cfg)) else h1);
          h3 = (if rc_timeZone cfg \<noteq> [] then hset h2 headerScheduleTimeZone (rc_timeZone cfg) else h2);
          h4 = (if rc_source cfg \<noteq> [] then hset h3 headerScheduleSource (rc_source cfg) else h3)
      in if rc_rollup cfg then hset h4 headerScheduleRollup ''sub'' else h4)"

definition Register ::
  "(headers \<Rightarrow> string \<Rightarrow> string \<Rightarrow> headers) \<Rightarrow> 'w schedule_js \<Rightarrow> string \<Rightarrow> string \<Rightarrow> string \<Rightarrow>
   RegisterOption list \<Rightarrow> 'w \<Rightarrow> gerr option \<times> 'w" where
  "Register hset js scheduleSubject pattern target opts w =
     (if scheduleSubject = [] then (Some (Opaque ''schedule: schedule subject required''), w)
      else if pattern = [] then (Some (Opaque ''schedule: pattern required''), w)
      else if target = [] then (Some (Opaque ''schedule: target subject required''), w)
      else
        (let cfg = register_config opts
         in if rc_ttlSet cfg \<and> rc_ttl cfg \<le> 0 then (Some (Opaque ''schedule: tick TTL must be > 0''), w)
            else
              (case sj_PublishMsg js scheduleSubject (rc_body cfg)
                      (schedule_headers_of hset cfg pattern target) w of
                 (Some err, w1) \<Rightarrow> (Some (Wrapped (''schedule: register '' @ scheduleSubject) err), w1)
               | (None, w1) \<Rightarrow> (None, w1))))"

definition Deregister :: "'w schedule_js \<Rightarrow> string \<Rightarrow> string \<Rightarrow> 'w \<Rightarrow> gerr option \<times> 'w" where
  "Deregister js stream scheduleSubject w =
     (if stream = [] \<or> scheduleSubject = []
      then (Some (Opaque ''schedule: stream and schedule subject required''), w)
      else
        (case sj_Stream js stream w of
           (Some err, w1) \<Rightarrow> (Some (Wrapped (''schedule: deregister '' @ scheduleSubject) err), w1)
         | (None, w1) \<Rightarrow>
             (case sj_Purge js stream scheduleSubject w1 of
                (Some err, w2) \<Rightarrow> (Some (Wrapped (''schedule: deregister '' @ scheduleSubject) err), w2)
              | (None, w2) \<Rightarrow> (None, w2))))"

section \<open>Options: the last one wins\<close>

fun ttl_of :: "RegisterOption \<Rightarrow> duration option" where
  "ttl_of (WithTickTTL t) = Some t" | "ttl_of _ = None"

fun zone_of :: "RegisterOption \<Rightarrow> string option" where
  "zone_of (WithTimeZone z) = Some z" | "zone_of _ = None"

fun body_of :: "RegisterOption \<Rightarrow> bytes option" where
  "body_of (WithBody b) = Some b" | "body_of _ = None"

fun source_of :: "RegisterOption \<Rightarrow> string option" where
  "source_of (WithSource s) = Some s" | "source_of _ = None"

fun rollup_of :: "RegisterOption \<Rightarrow> bool option" where
  "rollup_of WithRollup = Some True" | "rollup_of _ = None"

interpretation reg_ttl: option_field apply_RegisterOption rc_ttl ttl_of
  by (unfold_locales; case_tac x; simp)

interpretation reg_ttlSet: option_field apply_RegisterOption rc_ttlSet "map_option (\<lambda>t. True) \<circ> ttl_of"
  by (unfold_locales; case_tac x; simp)

interpretation reg_zone: option_field apply_RegisterOption rc_timeZone zone_of
  by (unfold_locales; case_tac x; simp)

interpretation reg_body: option_field apply_RegisterOption rc_body body_of
  by (unfold_locales; case_tac x; simp)

interpretation reg_source: option_field apply_RegisterOption rc_source source_of
  by (unfold_locales; case_tac x; simp)

interpretation reg_rollup: option_field apply_RegisterOption rc_rollup rollup_of
  by (unfold_locales; case_tac x; simp)

lemma last_set_map: "last_set (map_option f \<circ> g) xs = map_option f (last_set g xs)"
  by (induction xs) (auto split: option.splits)

lemma register_config_fields:
  "rc_ttl (register_config opts) = (case last_set ttl_of opts of None \<Rightarrow> 0 | Some t \<Rightarrow> t)"
  "rc_ttlSet (register_config opts) \<longleftrightarrow> last_set ttl_of opts \<noteq> None"
  "rc_timeZone (register_config opts) = (case last_set zone_of opts of None \<Rightarrow> [] | Some z \<Rightarrow> z)"
  "rc_body (register_config opts) = (case last_set body_of opts of None \<Rightarrow> [] | Some b \<Rightarrow> b)"
  "rc_source (register_config opts) = (case last_set source_of opts of None \<Rightarrow> [] | Some s \<Rightarrow> s)"
  "rc_rollup (register_config opts) \<longleftrightarrow> WithRollup \<in> set opts"
proof -
  show "rc_rollup (register_config opts) \<longleftrightarrow> WithRollup \<in> set opts"
  proof (cases "last_set rollup_of opts")
    case None
    then have "WithRollup \<notin> set opts" by (force simp: last_set_None)
    then show ?thesis using None by (simp add: register_config_def reg_rollup.last_wins zero_registerConfig_def)
  next
    case (Some b)
    then obtain x where "x \<in> set opts" "rollup_of x = Some b" using last_set_Some_in by metis
    then have "WithRollup \<in> set opts \<and> b" by (cases x rule: RegisterOption.exhaust) auto
    then show ?thesis using Some by (simp add: register_config_def reg_rollup.last_wins)
  qed
qed (simp_all add: register_config_def reg_ttl.last_wins reg_ttlSet.last_wins [unfolded o_def]
      reg_zone.last_wins reg_body.last_wins reg_source.last_wins last_set_map [unfolded o_def]
      zero_registerConfig_def split: option.split)

section \<open>The headers of a schedule\<close>

text \<open>
  The server's side of the message: which header it finds under each name.
\<close>

definition schedule_header :: "RegisterOption list \<Rightarrow> string \<Rightarrow> string \<Rightarrow> string \<Rightarrow> string option" where
  "schedule_header opts pattern target k =
     (if k = ''Nats-Schedule'' then Some pattern
      else if k = ''Nats-Schedule-Target'' then Some target
      else if k = ''Nats-Schedule-TTL'' then map_option duration_String (last_set ttl_of opts)
      else if k = ''Nats-Schedule-Time-Zone'' then (case last_set zone_of opts of Some (c # cs) \<Rightarrow> Some (c # cs) | _ \<Rightarrow> None)
      else if k = ''Nats-Schedule-Source'' then (case last_set source_of opts of Some (c # cs) \<Rightarrow> Some (c # cs) | _ \<Rightarrow> None)
      else if k = ''Nats-Schedule-Rollup'' then (if WithRollup \<in> set opts then Some ''sub'' else None)
      else None)"

definition register_valid :: "string \<Rightarrow> string \<Rightarrow> string \<Rightarrow> RegisterOption list \<Rightarrow> bool" where
  "register_valid subject pattern target opts \<longleftrightarrow>
     subject \<noteq> [] \<and> pattern \<noteq> [] \<and> target \<noteq> [] \<and> (case last_set ttl_of opts of None \<Rightarrow> True | Some t \<Rightarrow> 0 < t)"

context header_api begin

lemma schedule_headers_table:
  assumes "case last_set ttl_of opts of None \<Rightarrow> True | Some t \<Rightarrow> 0 < t"
  shows "schedule_headers_of hset (register_config opts) pattern target k =
    map_option (\<lambda>v. [v]) (schedule_header opts pattern target k)"
proof -
  have names: "headerSchedule \<noteq> headerScheduleTarget" "headerSchedule \<noteq> headerScheduleTTL"
    "headerSchedule \<noteq> headerScheduleTimeZone" "headerSchedule \<noteq> headerScheduleSource"
    "headerSchedule \<noteq> headerScheduleRollup" by (simp_all add: schedule_headers)
  let ?cfg = "register_config opts"
  have ttl: "(if rc_ttl ?cfg > 0 then Some (duration_String (rc_ttl ?cfg)) else None) =
      map_option duration_String (last_set ttl_of opts)"
    using assms by (auto simp: register_config_fields split: option.splits)
  have zone: "(if rc_timeZone ?cfg \<noteq> [] then Some (rc_timeZone ?cfg) else None) =
      (case last_set zone_of opts of Some (c # cs) \<Rightarrow> Some (c # cs) | _ \<Rightarrow> None)"
    by (auto simp: register_config_fields split: option.splits list.splits)
  have source: "(if rc_source ?cfg \<noteq> [] then Some (rc_source ?cfg) else None) =
      (case last_set source_of opts of Some (c # cs) \<Rightarrow> Some (c # cs) | _ \<Rightarrow> None)"
    by (auto simp: register_config_fields split: option.splits list.splits)
  have step: "(if P then hset h n v else h) k = (if k = n \<and> P then Some [v] else h k)" for P h n v
    by (simp add: hset_apply)
  show ?thesis
    unfolding schedule_header_def ttl [symmetric] zone [symmetric] source [symmetric]
      register_config_fields(6) [symmetric] schedule_headers_of_def Let_def step hset_apply schedule_headers
    by simp
qed

end

lemma Register_cases:
  assumes "header_api hget hset"
  shows "if register_valid subject pattern target opts then
      (let (err, w1) = sj_PublishMsg js subject (case last_set body_of opts of None \<Rightarrow> [] | Some b \<Rightarrow> b)
             (\<lambda>k. map_option (\<lambda>v. [v]) (schedule_header opts pattern target k)) w
       in Register hset js subject pattern target opts w =
            (map_option (Wrapped (''schedule: register '' @ subject)) err, w1))
    else \<exists>text. Register hset js subject pattern target opts w = (Some (Opaque text), w)"
proof -
  let ?cfg = "register_config opts"
  have bad_ttl: "rc_ttlSet ?cfg \<and> rc_ttl ?cfg \<le> 0 \<longleftrightarrow> \<not> (case last_set ttl_of opts of None \<Rightarrow> True | Some t \<Rightarrow> 0 < t)"
    by (auto simp: register_config_fields split: option.splits)
  show ?thesis
  proof (cases "register_valid subject pattern target opts")
    case True
    then have valid: "subject \<noteq> []" "pattern \<noteq> []" "target \<noteq> []"
      and ttl: "case last_set ttl_of opts of None \<Rightarrow> True | Some t \<Rightarrow> 0 < t"
      by (simp_all add: register_valid_def)
    have "schedule_headers_of hset ?cfg pattern target =
        (\<lambda>k. map_option (\<lambda>v. [v]) (schedule_header opts pattern target k))"
      by (rule ext) (rule header_api.schedule_headers_table [OF assms ttl])
    then show ?thesis using True valid bad_ttl ttl
      by (simp add: Register_def Let_def register_config_fields(4) split: prod.split option.split)
  next
    case False
    then show ?thesis using bad_ttl by (auto simp: Register_def Let_def register_valid_def)
  qed
qed

definition demo_opts :: "RegisterOption list" where
  "demo_opts = [WithTickTTL (-1), WithTimeZone ''UTC'', WithRollup, WithTickTTL (90 * second), WithBody ''b'']"

section \<open>The server\<close>

text \<open>
  What the server documents: the last message of a subject is the schedule of that subject, a
  purge of a literal subject in the stream that captures it removes its messages and no
  others, looking a stream up changes nothing.
\<close>

definition literal_subject :: "string \<Rightarrow> bool" where
  "literal_subject s \<longleftrightarrow> CHR ''*'' \<notin> set s \<and> CHR ''>'' \<notin> set s"

locale schedule_server =
  fixes js :: "'w schedule_js" and last_msg :: "'w \<Rightarrow> string \<Rightarrow> (headers \<times> bytes) option"
    and captures :: "string \<Rightarrow> string \<Rightarrow> bool"
  assumes publish_done: "sj_PublishMsg js s d h w = (None, w') \<Longrightarrow> last_msg w' = (last_msg w)(s \<mapsto> (h, d))"
    and stream_keeps: "sj_Stream js st w = (r, w') \<Longrightarrow> last_msg w' = last_msg w"
    and purge_done: "sj_Purge js st s w = (None, w') \<Longrightarrow> captures st s \<Longrightarrow> literal_subject s \<Longrightarrow>
          last_msg w' = (last_msg w)(s := None)"
begin

lemma Deregister_done:
  assumes "Deregister js st s w = (None, w')" and "captures st s" and "literal_subject s"
  shows "last_msg w' = (last_msg w)(s := None)"
proof -
  obtain w1 where "sj_Stream js st w = (None, w1)" "sj_Purge js st s w1 = (None, w')"
    using assms(1) by (auto simp: Deregister_def split: if_splits prod.splits option.splits)
  then show ?thesis using stream_keeps purge_done assms(2,3) by metis
qed

end

text \<open>A server with one stream, whose state is the last message of each subject.\<close>

definition one_stream :: "(string \<rightharpoonup> headers \<times> bytes) schedule_js" where
  "one_stream =
     \<lparr>sj_PublishMsg = (\<lambda>s d h w. (None, w(s \<mapsto> (h, d)))),
      sj_Stream = (\<lambda>st w. if st = ''SCHED'' then (None, w) else (Some (Sentinel Js_ErrStreamNotFound), w)),
      sj_Purge = (\<lambda>st s w. (None, w(s := None)))\<rparr>"

interpretation one_stream: schedule_server one_stream "\<lambda>w. w" "\<lambda>st s. st = ''SCHED''"
  by unfold_locales (auto simp: one_stream_def split: if_splits)

text \<open>
  Registering validates first: an empty subject, pattern or target, or a tick TTL that is
  set and not positive, is refused with no contact with the server. Otherwise exactly one
  message is published, on the schedule's subject, with the last body given and exactly the
  headers that the options name, the last setting of each winning; its error is wrapped.
\<close>

theorem register_outcome:
  assumes "header_api hget hset"
  shows "if register_valid subject pattern target opts then
      (let (err, w1) = sj_PublishMsg js subject (case last_set body_of opts of None \<Rightarrow> [] | Some b \<Rightarrow> b)
             (\<lambda>k. map_option (\<lambda>v. [v]) (schedule_header opts pattern target k)) w
       in Register hset js subject pattern target opts w =
            (map_option (Wrapped (''schedule: register '' @ subject)) err, w1))
    else \<exists>text. Register hset js subject pattern target opts w = (Some (Opaque text), w)"
  by (rule Register_cases [OF assms])

lemma demo_opts_sets:
  "last_set ttl_of demo_opts = Some 90000000000" "last_set zone_of demo_opts = Some ''UTC''"
  "last_set body_of demo_opts = Some ''b''" "last_set source_of demo_opts = None" "WithRollup \<in> set demo_opts"
  by (simp_all add: demo_opts_def second_def)

lemma one_stream_publish: "sj_PublishMsg one_stream s d h w = (None, w(s \<mapsto> (h, d)))"
  by (simp add: one_stream_def)

lemma fmt_frac_whole: "fmt_frac k False (v * 10 ^ k) acc = (acc, v)"
  by (induction k arbitrary: v) (simp_all add: mult.assoc [symmetric])

lemma decimal_chars: "digit 0 = CHR ''0''" "digit 1 = CHR ''1''" "digit 3 = CHR ''3''"
  by code_simp+

lemma demo_ttl: "duration_String 90000000000 = ''1m30s''"
  using fmt_frac_whole [of 9 90 "''s''"]
  by (simp add: duration_String_def second_def Let_def dec_def dec_digits.simps decimal_chars del: One_nat_def)

theorem register_outcome_witness:
  "(\<exists>h. Register map_header_set one_stream ''schedules.full'' ''@hourly'' ''ticks.full'' demo_opts Map.empty =
       (None, [''schedules.full'' \<mapsto> (h, ''b'')]) \<and>
     h ''Nats-Schedule-TTL'' = Some [''1m30s''] \<and> h ''Nats-Schedule-Source'' = None) \<and>
   (\<exists>text. Register map_header_set one_stream ''schedules.full'' [] ''ticks.full'' demo_opts Map.empty =
       (Some (Opaque text), Map.empty))"
proof
  note out = register_outcome [OF map_headers.header_api_axioms, where js = one_stream and w = Map.empty and opts = demo_opts]
  have "register_valid ''schedules.full'' ''@hourly'' ''ticks.full'' demo_opts"
    by (simp add: register_valid_def demo_opts_sets)
  then have "Register map_header_set one_stream ''schedules.full'' ''@hourly'' ''ticks.full'' demo_opts Map.empty =
      (None, [''schedules.full'' \<mapsto>
        (\<lambda>k. map_option (\<lambda>v. [v]) (schedule_header demo_opts ''@hourly'' ''ticks.full'' k), ''b'')])"
    using out [where subject = "''schedules.full''" and pattern = "''@hourly''" and target = "''ticks.full''"]
    by (simp add: demo_opts_sets one_stream_publish)
  moreover have "schedule_header demo_opts ''@hourly'' ''ticks.full'' ''Nats-Schedule-TTL'' = Some ''1m30s''"
    "schedule_header demo_opts ''@hourly'' ''ticks.full'' ''Nats-Schedule-Source'' = None"
    by (simp_all add: schedule_header_def demo_opts_sets demo_ttl)
  ultimately show "\<exists>h. Register map_header_set one_stream ''schedules.full'' ''@hourly'' ''ticks.full'' demo_opts Map.empty =
       (None, [''schedules.full'' \<mapsto> (h, ''b'')]) \<and>
     h ''Nats-Schedule-TTL'' = Some [''1m30s''] \<and> h ''Nats-Schedule-Source'' = None"
    by (intro exI [of _ "\<lambda>k. map_option (\<lambda>v. [v]) (schedule_header demo_opts ''@hourly'' ''ticks.full'' k)"]) simp
  have "\<not> register_valid ''schedules.full'' [] ''ticks.full'' demo_opts" by (simp add: register_valid_def)
  then show "\<exists>text. Register map_header_set one_stream ''schedules.full'' [] ''ticks.full'' demo_opts Map.empty =
       (Some (Opaque text), Map.empty)"
    using out [where subject = "''schedules.full''" and pattern = "[]" and target = "''ticks.full''"] by simp
qed

text \<open>
  C31. A successful registration makes the message with the named headers and body the schedule
  of its subject, replacing any earlier one; a successful removal afterwards leaves the server
  with no schedule there and every other subject as it was before the registration.
\<close>

theorem schedule_round_trip:
  assumes "header_api hget hset" and "schedule_server js last_msg captures"
    and "Register hset js subject pattern target opts w = (None, w1)"
    and "Deregister js stream subject w1 = (None, w2)"
    and "captures stream subject" and "literal_subject subject"
  shows "register_valid subject pattern target opts \<and>
    last_msg w1 = (last_msg w)(subject \<mapsto>
      (\<lambda>k. map_option (\<lambda>v. [v]) (schedule_header opts pattern target k),
       case last_set body_of opts of None \<Rightarrow> [] | Some b \<Rightarrow> b)) \<and>
    last_msg w2 = (last_msg w)(subject := None)"
proof -
  have valid: "register_valid subject pattern target opts"
    using Register_cases [OF assms(1), of subject pattern target opts js w] assms(3)
    by (auto split: if_splits)
  have "sj_PublishMsg js subject (case last_set body_of opts of None \<Rightarrow> [] | Some b \<Rightarrow> b)
      (\<lambda>k. map_option (\<lambda>v. [v]) (schedule_header opts pattern target k)) w = (None, w1)"
    using Register_cases [OF assms(1), of subject pattern target opts js w] assms(3) valid
    by (auto simp: Let_def split: prod.splits)
  note w1 = schedule_server.publish_done [OF assms(2) this]
  have "last_msg w2 = (last_msg w1)(subject := None)"
    by (rule schedule_server.Deregister_done [OF assms(2,4,5,6)])
  then show ?thesis using valid w1 by simp
qed

theorem schedule_round_trip_witness:
  "\<exists>w1. Register map_header_set one_stream ''schedules.min'' ''@hourly'' ''ticks.min'' [] Map.empty = (None, w1) \<and>
     w1 ''schedules.min'' \<noteq> None \<and> snd (Deregister one_stream ''SCHED'' ''schedules.min'' w1) = Map.empty"
proof -
  obtain r w1 where reg: "Register map_header_set one_stream ''schedules.min'' ''@hourly'' ''ticks.min'' [] Map.empty = (r, w1)"
    by fastforce
  then have r: "r = None"
    using Register_cases [OF map_headers.header_api_axioms, of "''schedules.min''" "''@hourly''" "''ticks.min''" "[]" one_stream Map.empty]
    by (simp add: register_valid_def one_stream_publish)
  obtain d w2 where de: "Deregister one_stream ''SCHED'' ''schedules.min'' w1 = (d, w2)" by fastforce
  then have d: "d = None" by (simp add: Deregister_def one_stream_def)
  have lit: "literal_subject ''schedules.min''" by (simp add: literal_subject_def)
  from schedule_round_trip [OF map_headers.header_api_axioms one_stream.schedule_server_axioms
      reg [unfolded r] de [unfolded d] refl lit]
  have "w1 ''schedules.min'' \<noteq> None \<and> w2 = Map.empty" by auto
  then show ?thesis using reg r de by auto
qed

end
