(* ===== verification/Values.thy ===== *)
theory Values
  imports Dispatch
begin

text \<open>
  Values of type \<open>any\<close>, as the subpackages use them: a decoded message is an interface value
  that carries its dynamic type, and the code tests for its own types. \<open>Other\<close> stands for
  every type of the application.
\<close>

record Tick =
  tick_Subject :: string
  tick_Scheduler :: string
  tick_Next :: string

record Op =
  op_Type :: string
  op_Author :: string
  op_ID :: string

record Noted =
  AnchorOp :: string
  Body :: string

datatype 'x go_value = StringV string | TickV Tick | OpV Op | NotedV Noted | Other 'x

section \<open>Headers of a message\<close>

text \<open>\<open>Header.Get\<close> on the message's headers; a nil map has no entries.\<close>

definition message_header :: "(headers \<Rightarrow> string \<Rightarrow> string) \<Rightarrow> Message \<Rightarrow> string \<Rightarrow> string" where
  "message_header hget m k = hget (case Headers m of None \<Rightarrow> Map.empty | Some h \<Rightarrow> h) k"

section \<open>A runtime to run channels of values on\<close>

definition value_env ::
  "('x go_value any \<Rightarrow> entity \<Rightarrow> 'x go_value aw_prog) \<Rightarrow> ('x go_value any \<Rightarrow> entity \<Rightarrow> ('x go_value, loop) th_prog) \<Rightarrow>
   (entity \<Rightarrow> 'x go_value any \<Rightarrow> loop \<Rightarrow> unit outcome \<times> loop) option \<Rightarrow> ('x go_value, loop) env" where
  "value_env aw th note =
     \<lparr>spec = \<lparr>Name = ''v'', Version = ''1'', Channels = [], Awareness = Some aw, Thinking = Some th,
              States = [], OnNote = note\<rparr>,
      awareness = \<lparr>aw_conn = loop_conn, aw_defaultRequestTimeout = 5\<rparr>,
      thinking = \<lparr>th_conn = loop_conn, th_defaultRequestTimeout = 5, th_defaultRequestManyWindow = 1\<rparr>\<rparr>"

definition idle_rt :: "('x go_value, loop) rt" where
  "idle_rt =
     \<lparr>mtr = newMetrics, effects = [], net = loop0, registry = newRegistry [],
      thinkingCancelled = False, thinkingWG = 0, tasks = []\<rparr>"

end
