(* ===== verification/Schedule_Channel.thy ===== *)
theory Schedule_Channel
  imports Options Values Dispatch
begin

text \<open>
  Consuming ticks (\<open>schedule/channel.go\<close>, and the decoder, extractor and name of
  \<open>schedule/tick.go\<close>): an ordinary stream channel built from options. The JetStream
  constants \<open>js\<close> and the header lookup \<open>hget\<close> belong to the client.
\<close>

section \<open>Ticks\<close>

definition headerScheduler :: string where "headerScheduler = ''Nats-Scheduler''"
definition headerScheduleNext :: string where "headerScheduleNext = ''Nats-Schedule-Next''"

definition tick_of :: "(headers \<Rightarrow> string \<Rightarrow> string) \<Rightarrow> Message \<Rightarrow> Tick" where
  "tick_of hget m =
     \<lparr>tick_Subject = Subject m, tick_Scheduler = message_header hget m headerScheduler,
      tick_Next = message_header hget m headerScheduleNext\<rparr>"

definition decodeTick :: "(headers \<Rightarrow> string \<Rightarrow> string) \<Rightarrow> 'x go_value Decoder" where
  "decodeTick hget m = Returned (Inr (Some (TickV (tick_of hget m))))"

definition extractTarget :: "string \<Rightarrow> 'x go_value EntityExtractor" where
  "extractTarget target d = Returned (Inr target)"

definition defaultChannelName :: "string \<Rightarrow> string" where
  "defaultChannelName target = ''schedule:'' @ target"

section \<open>The channel\<close>

record 'x channelConfig =
  cn_name :: string
  cn_durable :: string
  cn_consumer :: ConsumerConfig
  cn_decode :: "'x go_value Decoder option"
  cn_extract :: "'x go_value EntityExtractor option"

datatype 'x ChannelOption =
    WithDurable string
  | WithStartSeq u64
  | WithStartTime instant
  | WithDecoder "'x go_value Decoder option"
  | WithEntityExtractor "'x go_value EntityExtractor option"
  | WithName string

fun apply_ChannelOption :: "jetstream_consts \<Rightarrow> 'x ChannelOption \<Rightarrow> 'x channelConfig \<Rightarrow> 'x channelConfig" where
  "apply_ChannelOption js (WithDurable n) c = c\<lparr>cn_durable := n\<rparr>"
| "apply_ChannelOption js (WithStartSeq q) c =
     c\<lparr>cn_consumer := (cn_consumer c)\<lparr>cc_DeliverPolicy := DeliverByStartSequencePolicy js, cc_OptStartSeq := q\<rparr>\<rparr>"
| "apply_ChannelOption js (WithStartTime t) c =
     c\<lparr>cn_consumer := (cn_consumer c)\<lparr>cc_DeliverPolicy := DeliverByStartTimePolicy js, cc_OptStartTime := Some t\<rparr>\<rparr>"
| "apply_ChannelOption js (WithDecoder d) c = c\<lparr>cn_decode := d\<rparr>"
| "apply_ChannelOption js (WithEntityExtractor x) c = c\<lparr>cn_extract := x\<rparr>"
| "apply_ChannelOption js (WithName n) c = c\<lparr>cn_name := n\<rparr>"

definition channel_config ::
  "jetstream_consts \<Rightarrow> (headers \<Rightarrow> string \<Rightarrow> string) \<Rightarrow> string \<Rightarrow> 'x ChannelOption list \<Rightarrow> 'x channelConfig" where
  "channel_config js hget target opts =
     fold (apply_ChannelOption js) opts
       \<lparr>cn_name = defaultChannelName target, cn_durable = [],
        cn_consumer = zero_ConsumerConfig\<lparr>cc_DeliverPolicy := DeliverAllPolicy js\<rparr>,
        cn_decode = Some (decodeTick hget), cn_extract = Some (extractTarget target)\<rparr>"

definition Channel ::
  "jetstream_consts \<Rightarrow> (headers \<Rightarrow> string \<Rightarrow> string) \<Rightarrow> string \<Rightarrow> string \<Rightarrow> 'x ChannelOption list \<Rightarrow>
   'x go_value ChannelSpec" where
  "Channel js hget stream target opts =
     (let cfg = channel_config js hget target opts
      in \<lparr>ch_Name = cn_name cfg,
          ch_Source = Some (Stream_Source
            \<lparr>src_Stream = stream, src_FilterSubject = target, src_Durable = cn_durable cfg,
             src_ConsumerConfig = cn_consumer cfg\<rparr>),
          ch_Decode = cn_decode cfg, ch_ExtractEntity = cn_extract cfg\<rparr>)"

section \<open>Options: the last one wins\<close>

fun durable_of :: "'x ChannelOption \<Rightarrow> string option" where
  "durable_of (WithDurable n) = Some n" | "durable_of _ = None"

fun name_of :: "'x ChannelOption \<Rightarrow> string option" where
  "name_of (WithName n) = Some n" | "name_of _ = None"

fun policy_of :: "jetstream_consts \<Rightarrow> 'x ChannelOption \<Rightarrow> int option" where
  "policy_of js (WithStartSeq q) = Some (DeliverByStartSequencePolicy js)"
| "policy_of js (WithStartTime t) = Some (DeliverByStartTimePolicy js)"
| "policy_of js _ = None"

fun start_seq_of :: "'x ChannelOption \<Rightarrow> u64 option" where
  "start_seq_of (WithStartSeq q) = Some q" | "start_seq_of _ = None"

fun start_time_of :: "'x ChannelOption \<Rightarrow> instant option option" where
  "start_time_of (WithStartTime t) = Some (Some t)" | "start_time_of _ = None"

fun decoder_of :: "'x ChannelOption \<Rightarrow> 'x go_value Decoder option option" where
  "decoder_of (WithDecoder d) = Some d" | "decoder_of _ = None"

fun extractor_of :: "'x ChannelOption \<Rightarrow> 'x go_value EntityExtractor option option" where
  "extractor_of (WithEntityExtractor x) = Some x" | "extractor_of _ = None"

interpretation ch_durable: option_field "apply_ChannelOption js" cn_durable durable_of for js
  by (unfold_locales; case_tac x; simp)

interpretation ch_name: option_field "apply_ChannelOption js" cn_name name_of for js
  by (unfold_locales; case_tac x; simp)

interpretation ch_policy: option_field "apply_ChannelOption js" "\<lambda>c. cc_DeliverPolicy (cn_consumer c)" "policy_of js" for js
  by (unfold_locales; case_tac x; simp)

interpretation ch_seq: option_field "apply_ChannelOption js" "\<lambda>c. cc_OptStartSeq (cn_consumer c)" start_seq_of for js
  by (unfold_locales; case_tac x; simp)

interpretation ch_time: option_field "apply_ChannelOption js" "\<lambda>c. cc_OptStartTime (cn_consumer c)" start_time_of for js
  by (unfold_locales; case_tac x; simp)

interpretation ch_decoder: option_field "apply_ChannelOption js" cn_decode decoder_of for js
  by (unfold_locales; case_tac x; simp)

interpretation ch_extractor: option_field "apply_ChannelOption js" cn_extract extractor_of for js
  by (unfold_locales; case_tac x; simp)

lemma channel_config_fields:
  "cn_name (channel_config js hget target opts) = or_else (last_set name_of opts) (''schedule:'' @ target)"
  "cn_durable (channel_config js hget target opts) = or_else (last_set durable_of opts) []"
  "cc_DeliverPolicy (cn_consumer (channel_config js hget target opts)) =
     or_else (last_set (policy_of js) opts) (DeliverAllPolicy js)"
  "cc_OptStartSeq (cn_consumer (channel_config js hget target opts)) = or_else (last_set start_seq_of opts) 0"
  "cc_OptStartTime (cn_consumer (channel_config js hget target opts)) = or_else (last_set start_time_of opts) None"
  "cn_decode (channel_config js hget target opts) = or_else (last_set decoder_of opts) (Some (decodeTick hget))"
  "cn_extract (channel_config js hget target opts) = or_else (last_set extractor_of opts) (Some (extractTarget target))"
  unfolding channel_config_def or_else_def
  by (simp_all add: ch_name.last_wins ch_durable.last_wins ch_policy.last_wins [of js] ch_seq.last_wins
      ch_time.last_wins ch_decoder.last_wins ch_extractor.last_wins defaultChannelName_def zero_ConsumerConfig_def
      split: option.split)

section \<open>Properties\<close>

text \<open>
  A tick channel reads exactly its target subject of its stream, everything from the
  beginning unless told otherwise; every field is what the last option that sets it says. It
  passes the imp's validation exactly when stream, target and name are not empty and the
  decoder and extractor not nil.
\<close>

theorem schedule_channel_exact:
  "(channel_ok (Channel js hget stream target opts) \<longleftrightarrow>
     stream \<noteq> [] \<and> target \<noteq> [] \<and> last_set name_of opts \<noteq> Some [] \<and>
     last_set decoder_of opts \<noteq> Some None \<and> last_set extractor_of opts \<noteq> Some None) \<and>
   (\<exists>cc. ch_Source (Channel js hget stream target opts) =
       Some (Stream_Source \<lparr>src_Stream = stream, src_FilterSubject = target,
         src_Durable = or_else (last_set durable_of opts) [], src_ConsumerConfig = cc\<rparr>) \<and>
     cc_DeliverPolicy cc = or_else (last_set (policy_of js) opts) (DeliverAllPolicy js) \<and>
     cc_OptStartSeq cc = or_else (last_set start_seq_of opts) 0 \<and>
     cc_OptStartTime cc = or_else (last_set start_time_of opts) None)"
  by (auto simp: Channel_def Let_def channel_ok_def channel_config_fields or_else_def split: option.splits)


text \<open>A tick of a schedule is thought about, a message without provenance ignored.\<close>

definition tick_awareness :: "unit go_value any \<Rightarrow> entity \<Rightarrow> unit go_value aw_prog" where
  "tick_awareness d e =
     (case d of
        Some (TickV t) \<Rightarrow> AwReturn (if tick_Scheduler t = [] then Ignore else Think d e)
      | _ \<Rightarrow> AwPanic)"

definition tick_msg :: JsMsg where
  "tick_msg =
     \<lparr>jm_message = \<lparr>Subject = ''ticks.x'', Reply = [],
        Headers = Some [''Nats-Scheduler'' \<mapsto> [''schedules.x'']], Data = ''ignored''\<rparr>, jm_handle = 2\<rparr>"


text \<open>
  The two start options are meant as alternatives. Together, the later one decides the
  policy, but the sequence number of the earlier one stays in the configuration.
\<close>

lemma start_options_leave_both:
  "cc_DeliverPolicy (cn_consumer (channel_config js hget target [WithStartSeq q, WithStartTime t])) =
     DeliverByStartTimePolicy js \<and>
   cc_OptStartSeq (cn_consumer (channel_config js hget target [WithStartSeq q, WithStartTime t])) = q \<and>
   cc_OptStartTime (cn_consumer (channel_config js hget target [WithStartSeq q, WithStartTime t])) = Some t"
  by (simp add: channel_config_fields or_else_def)

end
