(* ===== verification/Soulstream_Channel.thy ===== *)
theory Soulstream_Channel
  imports Options Values
begin

text \<open>
  Reading a topic (\<open>soulstream/channel.go\<close>, \<open>soulstream/op.go\<close>): an ordinary stream
  channel over the topic's operation log. The names of the stream, of the subjects and of the
  headers belong to the owner library and are parameters, as is the header lookup.
\<close>

record soulstream =
  StreamName :: string
  OpsSubject :: "string \<Rightarrow> string"
  HeaderType :: string
  HeaderAuthor :: string
  HeaderMsgID :: string
  header_Get :: "headers \<Rightarrow> string \<Rightarrow> string"

section \<open>Operations\<close>

definition op_of :: "soulstream \<Rightarrow> Message \<Rightarrow> Op" where
  "op_of sl m =
     \<lparr>op_Type = message_header (header_Get sl) m (HeaderType sl),
      op_Author = message_header (header_Get sl) m (HeaderAuthor sl),
      op_ID = message_header (header_Get sl) m (HeaderMsgID sl)\<rparr>"

definition decodeOp :: "soulstream \<Rightarrow> 'x go_value Decoder" where
  "decodeOp sl m = Returned (Inr (Some (OpV (op_of sl m))))"

definition extractTopicPath :: "string \<Rightarrow> 'x go_value EntityExtractor" where
  "extractTopicPath path d = Returned (Inr path)"

definition defaultTopicChannelName :: "string \<Rightarrow> string" where
  "defaultTopicChannelName path = ''soulstream:'' @ path"

section \<open>The channel\<close>

record 'x topicChannelConfig =
  tc_name :: string
  tc_durable :: string
  tc_consumer :: ConsumerConfig
  tc_decode :: "'x go_value Decoder option"
  tc_extract :: "'x go_value EntityExtractor option"

datatype 'x TopicChannelOption =
    WithDurable string
  | WithStartSeq u64
  | WithStartTime instant
  | WithDecoder "'x go_value Decoder option"
  | WithEntityExtractor "'x go_value EntityExtractor option"
  | WithName string

fun apply_TopicChannelOption :: "jetstream_consts \<Rightarrow> 'x TopicChannelOption \<Rightarrow> 'x topicChannelConfig \<Rightarrow> 'x topicChannelConfig" where
  "apply_TopicChannelOption js (WithDurable n) c = c\<lparr>tc_durable := n\<rparr>"
| "apply_TopicChannelOption js (WithStartSeq q) c =
     c\<lparr>tc_consumer := (tc_consumer c)\<lparr>cc_DeliverPolicy := DeliverByStartSequencePolicy js, cc_OptStartSeq := q\<rparr>\<rparr>"
| "apply_TopicChannelOption js (WithStartTime t) c =
     c\<lparr>tc_consumer := (tc_consumer c)\<lparr>cc_DeliverPolicy := DeliverByStartTimePolicy js, cc_OptStartTime := Some t\<rparr>\<rparr>"
| "apply_TopicChannelOption js (WithDecoder d) c = c\<lparr>tc_decode := d\<rparr>"
| "apply_TopicChannelOption js (WithEntityExtractor x) c = c\<lparr>tc_extract := x\<rparr>"
| "apply_TopicChannelOption js (WithName n) c = c\<lparr>tc_name := n\<rparr>"

definition topic_config ::
  "jetstream_consts \<Rightarrow> soulstream \<Rightarrow> string \<Rightarrow> 'x TopicChannelOption list \<Rightarrow> 'x topicChannelConfig" where
  "topic_config js sl path opts =
     fold (apply_TopicChannelOption js) opts
       \<lparr>tc_name = defaultTopicChannelName path, tc_durable = [],
        tc_consumer = zero_ConsumerConfig\<lparr>cc_DeliverPolicy := DeliverAllPolicy js\<rparr>,
        tc_decode = Some (decodeOp sl), tc_extract = Some (extractTopicPath path)\<rparr>"

definition TopicChannel ::
  "jetstream_consts \<Rightarrow> soulstream \<Rightarrow> string \<Rightarrow> 'x TopicChannelOption list \<Rightarrow> 'x go_value ChannelSpec" where
  "TopicChannel js sl path opts =
     (let cfg = topic_config js sl path opts
      in \<lparr>ch_Name = tc_name cfg,
          ch_Source = Some (Stream_Source
            \<lparr>src_Stream = StreamName sl, src_FilterSubject = OpsSubject sl path, src_Durable = tc_durable cfg,
             src_ConsumerConfig = tc_consumer cfg\<rparr>),
          ch_Decode = tc_decode cfg, ch_ExtractEntity = tc_extract cfg\<rparr>)"

section \<open>Options: the last one wins\<close>

fun topic_durable_of :: "'x TopicChannelOption \<Rightarrow> string option" where
  "topic_durable_of (WithDurable n) = Some n" | "topic_durable_of _ = None"

fun topic_name_of :: "'x TopicChannelOption \<Rightarrow> string option" where
  "topic_name_of (WithName n) = Some n" | "topic_name_of _ = None"

fun topic_policy_of :: "jetstream_consts \<Rightarrow> 'x TopicChannelOption \<Rightarrow> int option" where
  "topic_policy_of js (WithStartSeq q) = Some (DeliverByStartSequencePolicy js)"
| "topic_policy_of js (WithStartTime t) = Some (DeliverByStartTimePolicy js)"
| "topic_policy_of js _ = None"

fun topic_start_seq_of :: "'x TopicChannelOption \<Rightarrow> u64 option" where
  "topic_start_seq_of (WithStartSeq q) = Some q" | "topic_start_seq_of _ = None"

fun topic_start_time_of :: "'x TopicChannelOption \<Rightarrow> instant option option" where
  "topic_start_time_of (WithStartTime t) = Some (Some t)" | "topic_start_time_of _ = None"

fun topic_decoder_of :: "'x TopicChannelOption \<Rightarrow> 'x go_value Decoder option option" where
  "topic_decoder_of (WithDecoder d) = Some d" | "topic_decoder_of _ = None"

fun topic_extractor_of :: "'x TopicChannelOption \<Rightarrow> 'x go_value EntityExtractor option option" where
  "topic_extractor_of (WithEntityExtractor x) = Some x" | "topic_extractor_of _ = None"

interpretation tch_durable: option_field "apply_TopicChannelOption js" tc_durable topic_durable_of for js
  by (unfold_locales; case_tac x; simp)

interpretation tch_name: option_field "apply_TopicChannelOption js" tc_name topic_name_of for js
  by (unfold_locales; case_tac x; simp)

interpretation tch_policy: option_field "apply_TopicChannelOption js" "\<lambda>c. cc_DeliverPolicy (tc_consumer c)" "topic_policy_of js" for js
  by (unfold_locales; case_tac x; simp)

interpretation tch_seq: option_field "apply_TopicChannelOption js" "\<lambda>c. cc_OptStartSeq (tc_consumer c)" topic_start_seq_of for js
  by (unfold_locales; case_tac x; simp)

interpretation tch_time: option_field "apply_TopicChannelOption js" "\<lambda>c. cc_OptStartTime (tc_consumer c)" topic_start_time_of for js
  by (unfold_locales; case_tac x; simp)

interpretation tch_decoder: option_field "apply_TopicChannelOption js" tc_decode topic_decoder_of for js
  by (unfold_locales; case_tac x; simp)

interpretation tch_extractor: option_field "apply_TopicChannelOption js" tc_extract topic_extractor_of for js
  by (unfold_locales; case_tac x; simp)

lemma topic_config_fields:
  "tc_name (topic_config js sl path opts) = or_else (last_set topic_name_of opts) (''soulstream:'' @ path)"
  "tc_durable (topic_config js sl path opts) = or_else (last_set topic_durable_of opts) []"
  "cc_DeliverPolicy (tc_consumer (topic_config js sl path opts)) =
     or_else (last_set (topic_policy_of js) opts) (DeliverAllPolicy js)"
  "cc_OptStartSeq (tc_consumer (topic_config js sl path opts)) = or_else (last_set topic_start_seq_of opts) 0"
  "cc_OptStartTime (tc_consumer (topic_config js sl path opts)) = or_else (last_set topic_start_time_of opts) None"
  "tc_decode (topic_config js sl path opts) = or_else (last_set topic_decoder_of opts) (Some (decodeOp sl))"
  "tc_extract (topic_config js sl path opts) = or_else (last_set topic_extractor_of opts) (Some (extractTopicPath path))"
  unfolding topic_config_def or_else_def
  by (simp_all add: tch_name.last_wins tch_durable.last_wins tch_policy.last_wins [of js] tch_seq.last_wins
      tch_time.last_wins tch_decoder.last_wins tch_extractor.last_wins defaultTopicChannelName_def zero_ConsumerConfig_def
      split: option.split)

section \<open>Properties\<close>

text \<open>With the default decoder and extractor every message is an operation of the topic.\<close>

lemma topic_front:
  assumes "path \<noteq> []" and "last_set topic_decoder_of opts = None" and "last_set topic_extractor_of opts = None"
  shows "front (TopicChannel js sl path opts) m = Returned (Inr (Some (OpV (op_of sl m)), path))"
  using assms by (simp add: front_def TopicChannel_def Let_def topic_config_fields or_else_def call_fn_def
      decodeOp_def extractTopicPath_def)

text \<open>
  A topic channel reads exactly the topic's subject of the realm's stream, from the
  baseline unless told otherwise, every field as the last option that sets it says, and passes
  the imp's validation exactly when the library's stream name and subject, the channel name
  and the functions are there. With the default decoder and extractor every message on it is
  decoded, whatever its headers, as an operation of the topic.
\<close>

theorem topic_channel_exact:
  "(channel_ok (TopicChannel js sl path opts) \<longleftrightarrow>
     StreamName sl \<noteq> [] \<and> OpsSubject sl path \<noteq> [] \<and> last_set topic_name_of opts \<noteq> Some [] \<and>
     last_set topic_decoder_of opts \<noteq> Some None \<and> last_set topic_extractor_of opts \<noteq> Some None) \<and>
   (\<exists>cc. ch_Source (TopicChannel js sl path opts) =
       Some (Stream_Source \<lparr>src_Stream = StreamName sl, src_FilterSubject = OpsSubject sl path,
         src_Durable = or_else (last_set topic_durable_of opts) [], src_ConsumerConfig = cc\<rparr>) \<and>
     cc_DeliverPolicy cc = or_else (last_set (topic_policy_of js) opts) (DeliverAllPolicy js) \<and>
     cc_OptStartSeq cc = or_else (last_set topic_start_seq_of opts) 0 \<and>
     cc_OptStartTime cc = or_else (last_set topic_start_time_of opts) None) \<and>
   front (TopicChannel js sl (c # cs) []) m = Returned (Inr (Some (OpV (op_of sl m)), c # cs))"
proof (intro conjI)
  show "front (TopicChannel js sl (c # cs) []) m = Returned (Inr (Some (OpV (op_of sl m)), c # cs))"
    by (rule topic_front) simp_all
qed (auto simp: TopicChannel_def Let_def channel_ok_def topic_config_fields or_else_def split: option.splits)

end
