(* ===== verification/Soulstream_Participant.thy ===== *)
theory Soulstream_Participant
  imports Soulstream_Channel "HOL-Library.Sublist"
begin

text \<open>
  Taking part in topics (\<open>soulstream/participant.go\<close>, \<open>soulstream/notebridge.go\<close>): the
  participant wraps the connection in the owner library's client, and the bridge turns note
  verdicts into comments. The library's calls are parameters; a handle is what its \<open>Open\<close>
  returns.
\<close>

section \<open>The owner library\<close>

record realm_config =
  Realm :: string
  Persona :: string
  Signer :: "nat option"

record ('n, 'c, 'h, 'i) topic_api =
  ta_JetstreamNew :: "'n \<Rightarrow> gerr option \<times> 'n"
  ta_AccountInfo :: "'n \<Rightarrow> gerr option \<times> 'n"
  ta_NewClient :: "realm_config \<Rightarrow> 'n \<Rightarrow> (gerr + 'c) \<times> 'n"
  ta_Open :: "'c \<Rightarrow> string \<Rightarrow> 'h"
  ta_StartTopic :: "'c \<Rightarrow> 'i \<Rightarrow> 'n \<Rightarrow> (gerr + 'h) \<times> 'n"
  ta_AddComment :: "duration \<Rightarrow> 'h \<Rightarrow> string \<Rightarrow> string \<Rightarrow> 'n \<Rightarrow> gerr option \<times> 'n"

section \<open>Participants\<close>

record 'c Participant =
  client :: 'c

record participantConfig =
  signer :: "nat option"

datatype ParticipantOption = WithSigner "nat option"

fun apply_ParticipantOption :: "ParticipantOption \<Rightarrow> participantConfig \<Rightarrow> participantConfig" where
  "apply_ParticipantOption (WithSigner key) c = c\<lparr>signer := key\<rparr>"

definition NewParticipant ::
  "('n, 'c, 'h, 'i) topic_api \<Rightarrow> string \<Rightarrow> string \<Rightarrow> ParticipantOption list \<Rightarrow> 'n \<Rightarrow> (gerr + 'c Participant) \<times> 'n" where
  "NewParticipant api realmName persona opts n =
     (let cfg = fold apply_ParticipantOption opts \<lparr>signer = None\<rparr>
      in case ta_JetstreamNew api n of
           (Some err, n1) \<Rightarrow> (Inl (Wrapped ''soulstream: initialise jetstream'' err), n1)
         | (None, n1) \<Rightarrow>
             (case ta_AccountInfo api n1 of
                (Some err, n2) \<Rightarrow> (Inl (Wrapped ''soulstream: jetstream unavailable'' err), n2)
              | (None, n2) \<Rightarrow>
                  (case ta_NewClient api \<lparr>Realm = realmName, Persona = persona, Signer = signer cfg\<rparr> n2 of
                     (Inl err, n3) \<Rightarrow> (Inl (Wrapped ''soulstream: realm client'' err), n3)
                   | (Inr c, n3) \<Rightarrow> (Inr \<lparr>client = c\<rparr>, n3))))"

definition Participant_Topic :: "('n, 'c, 'h, 'i) topic_api \<Rightarrow> 'c Participant \<Rightarrow> string \<Rightarrow> 'h" where
  "Participant_Topic api p path = ta_Open api (client p) path"

definition Participant_StartTopic ::
  "('n, 'c, 'h, 'i) topic_api \<Rightarrow> 'c Participant \<Rightarrow> 'i \<Rightarrow> 'n \<Rightarrow> (gerr + 'h) \<times> 'n" where
  "Participant_StartTopic api p inp n = ta_StartTopic api (client p) inp n"

section \<open>The note bridge\<close>

definition noteTimeout :: duration where
  "noteTimeout = 10 * second"

type_synonym ('x, 'n) note_hook = "entity \<Rightarrow> 'x go_value any \<Rightarrow> 'n \<Rightarrow> unit outcome \<times> 'n"

definition report ::
  "(entity \<Rightarrow> Noted \<Rightarrow> gerr \<Rightarrow> 'n \<Rightarrow> unit outcome \<times> 'n) option \<Rightarrow> entity \<Rightarrow> Noted \<Rightarrow> gerr \<Rightarrow> 'n \<Rightarrow> unit outcome \<times> 'n" where
  "report onErr entity noted err n =
     (case onErr of None \<Rightarrow> (Returned (), n) | Some f \<Rightarrow> f entity noted err n)"

definition bridge ::
  "('n, 'c, 'h, 'i) topic_api \<Rightarrow> 'c Participant \<Rightarrow> ('x, 'n) note_hook option \<Rightarrow>
   (entity \<Rightarrow> Noted \<Rightarrow> gerr \<Rightarrow> 'n \<Rightarrow> unit outcome \<times> 'n) option \<Rightarrow> ('x, 'n) note_hook" where
  "bridge api p nxt onErr entity pl n =
     (case pl of
        Some (NotedV noted) \<Rightarrow>
          (let fail = (\<lambda>err n. report onErr entity noted err n)
           in if AnchorOp noted = [] then fail (Opaque ''soulstream: Noted.AnchorOp is required'') n
              else if Body noted = [] then fail (Opaque ''soulstream: Noted.Body is required'') n
              else if entity = [] then fail (Opaque ''soulstream: note entity is empty'') n
              else
                (case ta_AddComment api noteTimeout (Participant_Topic api p entity) (Body noted) (AnchorOp noted) n of
                   (Some err, n1) \<Rightarrow> fail err n1
                 | (None, n1) \<Rightarrow> (Returned (), n1)))
      | _ \<Rightarrow> (case nxt of None \<Rightarrow> (Returned (), n) | Some f \<Rightarrow> f entity pl n))"

definition NoteBridge ::
  "('n, 'c, 'h, 'i) topic_api \<Rightarrow> 'c Participant option \<Rightarrow> ('x, 'n) note_hook option \<Rightarrow>
   (entity \<Rightarrow> Noted \<Rightarrow> gerr \<Rightarrow> 'n \<Rightarrow> unit outcome \<times> 'n) option \<Rightarrow> ('x, 'n) note_hook outcome" where
  "NoteBridge api p nxt onErr =
     (case p of None \<Rightarrow> Panicked | Some q \<Rightarrow> Returned (bridge api q nxt onErr))"

section \<open>What the library documents\<close>

text \<open>
  \<open>comments\<close> lists the comments of the realm as path, body and anchor; \<open>is_closed\<close> says the
  connection is closed. A comment that is accepted is appended; one that fails may or may not
  be there. The client closes the connection it was given when it fails, except that a failure
  on a connection whose JetStream has just answered leaves it open.
\<close>

locale topic_library =
  fixes api :: "('n, 'c, 'h, 'i) topic_api"
    and comments :: "'n \<Rightarrow> (string \<times> string \<times> string) list"
    and is_closed :: "'n \<Rightarrow> bool" and answering :: "'n \<Rightarrow> bool"
  assumes add_done: "ta_AddComment api d (ta_Open api c path) bd anchor n = (None, n') \<Longrightarrow>
        comments n' = comments n @ [(path, bd, anchor)]"
    and add_failed: "ta_AddComment api d (ta_Open api c path) bd anchor n = (Some e, n') \<Longrightarrow>
        comments n' = comments n \<or> comments n' = comments n @ [(path, bd, anchor)]"
    and new_keeps: "ta_JetstreamNew api n = (r, n') \<Longrightarrow> is_closed n' = is_closed n"
    and info_keeps: "ta_AccountInfo api n = (r, n') \<Longrightarrow> is_closed n' = is_closed n"
    and info_answers: "ta_AccountInfo api n = (None, n') \<Longrightarrow> answering n'"
    and client_keeps: "ta_NewClient api cfg n = (c', n') \<Longrightarrow> answering n \<Longrightarrow> is_closed n' = is_closed n"
begin

lemma NewParticipant_keeps:
  "NewParticipant api realmName persona opts n = (r, n') \<Longrightarrow> is_closed n' = is_closed n"
  by (auto simp: NewParticipant_def Let_def split: prod.splits option.splits sum.splits)
     (metis new_keeps info_keeps info_answers client_keeps)+

lemma bridge_comments:
  assumes "bridge api p nxt onErr entity pl n = (r, n')"
    and "\<And>f e v n. nxt = Some f \<Longrightarrow> comments (snd (f e v n)) = comments n"
    and "\<And>f e v x n. onErr = Some f \<Longrightarrow> comments (snd (f e v x n)) = comments n"
  shows "comments n' = comments n \<or>
    (\<exists>noted. pl = Some (NotedV noted) \<and> AnchorOp noted \<noteq> [] \<and> Body noted \<noteq> [] \<and> entity \<noteq> [] \<and>
       comments n' = comments n @ [(entity, Body noted, AnchorOp noted)])"
proof -
  have rep: "comments (snd (report onErr entity noted err n1)) = comments n1" for noted err n1
    using assms(3) by (cases onErr) (simp_all add: report_def)
  have other: "comments (snd (case nxt of None \<Rightarrow> (Returned (), n) | Some f \<Rightarrow> f entity pl n)) = comments n"
    using assms(2) by (cases nxt) simp_all
  show ?thesis
  proof (cases "\<exists>noted. pl = Some (NotedV noted)")
    case False
    then have "(r, n') = (case nxt of None \<Rightarrow> (Returned (), n) | Some f \<Rightarrow> f entity pl n)"
      using assms(1) by (auto simp: bridge_def split: option.splits go_value.splits)
    then show ?thesis using other by (metis snd_conv)
  next
    case True
    then obtain noted where pl: "pl = Some (NotedV noted)" by blast
    show ?thesis
    proof (cases "AnchorOp noted = [] \<or> Body noted = [] \<or> entity = []")
      case True
      then have "\<exists>err. report onErr entity noted err n = (r, n')"
        using assms(1) by (auto simp: bridge_def pl Let_def split: if_splits)
      then show ?thesis using rep by (metis snd_conv)
    next
      case False
      obtain x n1 where add: "ta_AddComment api noteTimeout (ta_Open api (client p) entity) (Body noted) (AnchorOp noted) n = (x, n1)"
        by fastforce
      have "comments n1 = comments n \<or> comments n1 = comments n @ [(entity, Body noted, AnchorOp noted)]"
        using add add_done add_failed by (cases x) blast+
      moreover have "comments n' = comments n1"
        using assms(1) add False rep
        by (cases x) (auto simp: bridge_def pl Let_def Participant_Topic_def, metis snd_conv)
      ultimately show ?thesis using False pl by auto
    qed
  qed
qed

end

section \<open>A desk\<close>

text \<open>A library whose realm is a list of comments, on a connection that can be up or down.\<close>

record desk =
  posted :: "(string \<times> string \<times> string) list"
  conn_closed :: bool
  conn_up :: bool

definition desk_api :: "(desk, unit, string, string) topic_api" where
  "desk_api =
     \<lparr>ta_JetstreamNew = (\<lambda>n. (None, n)),
      ta_AccountInfo = (\<lambda>n. (if conn_up n then None else Some (Sentinel Nats_ErrNoResponders), n)),
      ta_NewClient = (\<lambda>cfg n.
        if Realm cfg = [] then (Inl (Opaque ''invalid realm''), n)
        else if conn_up n then (Inr (), n) else (Inl (Opaque ''unavailable''), n\<lparr>conn_closed := True\<rparr>)),
      ta_Open = (\<lambda>c path. path),
      ta_StartTopic = (\<lambda>c i n. (Inr i, n)),
      ta_AddComment = (\<lambda>d h bd anchor n. (None, n\<lparr>posted := posted n @ [(h, bd, anchor)]\<rparr>))\<rparr>"

interpretation desk: topic_library desk_api posted conn_closed conn_up
  by unfold_locales (auto simp: desk_api_def split: if_splits)

definition empty_desk :: desk where
  "empty_desk = \<lparr>posted = [], conn_closed = False, conn_up = True\<rparr>"

section \<open>Properties\<close>

text \<open>
  Building a participant never closes the imp's connection, whatever fails: JetStream is
  asked first, and the library, which closes a connection it cannot use, only gets one that
  has just answered.
\<close>

theorem participant_leaves_connection_open:
  assumes "topic_library api comments is_closed answering"
    and "NewParticipant api realmName persona opts n = (r, n')"
  shows "is_closed n' = is_closed n"
  by (rule topic_library.NewParticipant_keeps [OF assms])

theorem participant_leaves_connection_open_witness:
  "\<not> conn_closed (snd (NewParticipant desk_api ''realm'' ''imp'' [] (empty_desk\<lparr>conn_up := False\<rparr>)))"
proof -
  obtain r n' where run: "NewParticipant desk_api ''realm'' ''imp'' [] (empty_desk\<lparr>conn_up := False\<rparr>) = (r, n')"
    by fastforce
  then show ?thesis
    using participant_leaves_connection_open [OF desk.topic_library_axioms run] by (simp add: empty_desk_def)
qed

text \<open>What a note should add: one comment for a complete note on a topic, nothing otherwise.\<close>

definition noted_comment :: "entity \<times> 'x go_value any \<Rightarrow> (string \<times> string \<times> string) list" where
  "noted_comment = (\<lambda>(entity, pl). case pl of
     Some (NotedV noted) \<Rightarrow>
       (if AnchorOp noted \<noteq> [] \<and> Body noted \<noteq> [] \<and> entity \<noteq> [] then [(entity, Body noted, AnchorOp noted)] else [])
   | _ \<Rightarrow> [])"

fun notes_run :: "('x, 'n) note_hook \<Rightarrow> (entity \<times> 'x go_value any) list \<Rightarrow> 'n \<Rightarrow> 'n" where
  "notes_run hook [] n = n"
| "notes_run hook ((e, v) # xs) n = notes_run hook xs (snd (hook e v n))"

text \<open>
  C33. Over any sequence of notes the bridge publishes at most the comments of the complete
  notes, each at most once and in order; nothing malformed, and nothing for other payloads, is
  ever published. The bridge cannot be built without a participant.
\<close>

theorem bridge_publishes_only_notes:
  assumes "topic_library api comments is_closed answering"
    and "NoteBridge api p nxt onErr = Returned hook"
    and "\<And>f e v n. nxt = Some f \<Longrightarrow> comments (snd (f e v n)) = comments n"
    and "\<And>f e v x n. onErr = Some f \<Longrightarrow> comments (snd (f e v x n)) = comments n"
  shows "p \<noteq> None \<and> (\<exists>cs. comments (notes_run hook xs n) = comments n @ cs \<and> subseq cs (concat (map noted_comment xs)))"
proof
  from assms(2) obtain q where q: "p = Some q" "hook = bridge api q nxt onErr"
    by (auto simp: NoteBridge_def split: option.splits)
  then show "p \<noteq> None" by simp
  have one: "\<exists>cs. comments (snd (hook e v n)) = comments n @ cs \<and> subseq cs (noted_comment (e, v))" for e v n
  proof -
    obtain r n' where run: "bridge api q nxt onErr e v n = (r, n')" by fastforce
    have "comments n' = comments n \<or>
        (\<exists>noted. v = Some (NotedV noted) \<and> AnchorOp noted \<noteq> [] \<and> Body noted \<noteq> [] \<and> e \<noteq> [] \<and>
           comments n' = comments n @ [(e, Body noted, AnchorOp noted)])"
      by (rule topic_library.bridge_comments [OF assms(1) run]) (rule assms(3,4); assumption)+
    then show ?thesis by (auto simp: q run noted_comment_def)
  qed
  show "\<exists>cs. comments (notes_run hook xs n) = comments n @ cs \<and> subseq cs (concat (map noted_comment xs))"
  proof (induction xs arbitrary: n)
    case (Cons x xs)
    obtain e v where x: "x = (e, v)" by fastforce
    obtain c1 where c1: "comments (snd (hook e v n)) = comments n @ c1" "subseq c1 (noted_comment (e, v))"
      using one by blast
    obtain c2 where c2: "comments (notes_run hook xs (snd (hook e v n))) = comments (snd (hook e v n)) @ c2"
      "subseq c2 (concat (map noted_comment xs))"
      using Cons.IH by blast
    have "comments (notes_run hook (x # xs) n) = comments n @ (c1 @ c2)" using c1 c2 by (simp add: x)
    moreover have "subseq (c1 @ c2) (concat (map noted_comment (x # xs)))"
      using c1 c2 by (simp add: x list_emb_append_mono)
    ultimately show ?case by blast
  qed simp
qed

definition demo_notes :: "(entity \<times> unit go_value any) list" where
  "demo_notes =
     [(''plan'', Some (NotedV \<lparr>AnchorOp = ''op1'', Body = ''ok''\<rparr>)),
      (''plan'', Some (NotedV \<lparr>AnchorOp = [], Body = ''lost''\<rparr>)), (''plan'', Some (StringV ''local''))]"

theorem bridge_publishes_only_notes_witness:
  "\<exists>hook cs. NoteBridge desk_api (Some \<lparr>client = ()\<rparr>) None None = Returned hook \<and>
     posted (notes_run hook demo_notes empty_desk) = cs \<and> subseq cs [(''plan'', ''ok'', ''op1'')]"
proof -
  have b: "NoteBridge desk_api (Some \<lparr>client = ()\<rparr>) None None =
      Returned (bridge desk_api \<lparr>client = ()\<rparr> None None :: (unit, desk) note_hook)"
    by (simp add: NoteBridge_def)
  have "concat (map noted_comment demo_notes) = [(''plan'', ''ok'', ''op1'')]"
    by (simp add: demo_notes_def noted_comment_def)
  moreover obtain cs where "posted (notes_run (bridge desk_api \<lparr>client = ()\<rparr> None None) demo_notes empty_desk) = posted empty_desk @ cs"
    "subseq cs (concat (map noted_comment demo_notes))"
    using bridge_publishes_only_notes [OF desk.topic_library_axioms b, of demo_notes empty_desk] by auto
  ultimately show ?thesis using b by (auto simp: empty_desk_def)
qed

section \<open>From an operation to a comment\<close>

text \<open>
  C24. End to end: when awareness answers an operation of a topic with a complete note, the
  message is acknowledged, the bridge is called once, and the comment appears on that topic,
  anchored where awareness said, given that the library accepts it.
\<close>

theorem note_on_operation_becomes_comment:
  assumes "topic_library api comments is_closed answering"
    and "OnNote (spec env) = Some (bridge api p nxt onErr)" and "Awareness (spec env) = Some aw"
    and "aw (Some (OpV (op_of sl (jm_message m)))) path = AwReturn (Note (Some (NotedV noted)))"
    and "AnchorOp noted \<noteq> []" and "Body noted \<noteq> []" and "path \<noteq> []"
    and "\<And>h n. comments (snd (MsgAck (aw_conn (awareness env)) h n)) = comments n"
    and "\<And>n. fst (ta_AddComment api noteTimeout (ta_Open api (client p) path) (Body noted) (AnchorOp noted) n) = None"
    and "dispatchStream env (TopicChannel js sl path []) m s = (r, s')"
  shows "r = Returned () \<and>
    calls (effects s') = calls (effects s) @
      [EAwareness path, EAck (jm_handle m), ENote path (Some (NotedV noted))] \<and>
    comments (net s') = comments (net s) @ [(path, Body noted, AnchorOp noted)]"
proof -
  let ?pl = "Some (NotedV noted)"
  have front: "front (TopicChannel js sl path []) (jm_message m) = Returned (Inr (Some (OpV (op_of sl (jm_message m))), path))"
    using assms(7) by (simp add: topic_front)
  define s1 where "s1 = emit (EAwareness path) s"
  have aw: "safeAwareness env (Some (OpV (op_of sl (jm_message m)))) path s = (Returned (Note ?pl), s1)"
    by (simp add: safeAwareness_def assms(3,4) s1_def)
  obtain aerr s2 where ack: "msg_Ack env m s1 = (aerr, s2)" by fastforce
  define s3 where "s3 = (case aerr of None \<Rightarrow> s2 | Some _ \<Rightarrow> log Warn ''ack failed'' s2)"
  have res: "r = Returned ()" "s' = verdict_switch env path (Note ?pl) s3"
    using assms(10) by (simp_all add: dispatchStream_front front aw ack s3_def)
  have calls3: "calls (effects s3) = calls (effects s) @ [EAwareness path, EAck (jm_handle m)]"
  proof -
    have "calls (effects s2) = calls (effects s1) @ [EAck (jm_handle m)]"
      using msg_Ack_simps(1) [of env m s1] by (simp only: ack snd_conv)
    then show ?thesis by (simp add: s3_def s1_def calls_Cons split: option.split)
  qed
  have "comments (net s2) = comments (net s1)"
    using assms(8) ack by (auto simp: msg_Ack_def split: prod.splits) (metis snd_conv)
  then have net3: "comments (net s3) = comments (net s)"
    by (simp add: s3_def s1_def split: option.split)
  define s4 where "s4 = bump NotesDelivered_update s3"
  have net4: "net s4 = net s3" and calls4: "calls (effects s4) = calls (effects s3)"
    by (simp_all add: s4_def)
  have s': "s' = invokeNote env path ?pl s4"
    by (simp add: res(2) verdict_switch_def Note_def s4_def)
  obtain n1 where add: "ta_AddComment api noteTimeout (ta_Open api (client p) path) (Body noted) (AnchorOp noted) (net s4) = (None, n1)"
    using assms(9) by (metis prod.collapse)
  have hook: "bridge api p nxt onErr path ?pl (net s4) = (Returned (), n1)"
    using assms(5,6,7) add by (simp add: bridge_def Let_def Participant_Topic_def)
  have "comments n1 = comments (net s4) @ [(path, Body noted, AnchorOp noted)]"
    by (rule topic_library.add_done [OF assms(1) add])
  moreover have "net s' = n1" "calls (effects s') = calls (effects s4) @ [ENote path ?pl]"
    by (simp_all add: s' invokeNote_def assms(2) hook calls_Cons)
  ultimately show ?thesis using res(1) net3 net4 calls3 calls4 by simp
qed

text \<open>A client on the desk that acknowledges messages and refuses the rest.\<close>

definition desk_conn :: "desk conn" where
  "desk_conn =
     (let no = Opaque ''not here''
      in \<lparr>HeaderGet = map_header_get,
          RequestWithContext = (\<lambda>d s p n. (Inl no, n)), CtxErr = (\<lambda>n. None),
          NewRespInbox = (\<lambda>n. (''_INBOX'', n)), ChanSubscribe = (\<lambda>s b n. (Inl no, n)),
          PublishMsg = (\<lambda>s i p n. (Some no, n)), SelectEvents = (\<lambda>d n. ([], n)),
          Publish = (\<lambda>s p n. (Some no, n)), Subscribe = (\<lambda>s n. (Inl no, n)),
          Unsubscribe = (\<lambda>h n. (None, n)), MsgAck = (\<lambda>h n. (None, n)), MsgNak = (\<lambda>h n. (None, n)),
          JetstreamNew = (\<lambda>n. (None, n)), JsStream = (\<lambda>s n. (Some no, n)),
          CreateConsumer = (\<lambda>s c n. (Inl no, n)), LookupConsumer = (\<lambda>s d n. (Inl no, n)),
          DeleteConsumer = (\<lambda>s d n. (None, n)), Consume = (\<lambda>c n. (Inl no, n)), ConsumeStop = (\<lambda>h n. n)\<rparr>)"

definition desk_soul :: soulstream where
  "desk_soul = \<lparr>StreamName = ''SOULSTREAM'', OpsSubject = (\<lambda>p. ''ops.'' @ p), HeaderType = ''Type'',
     HeaderAuthor = ''Author'', HeaderMsgID = ''Id'', header_Get = map_header_get\<rparr>"

definition agree_awareness :: "unit go_value any \<Rightarrow> entity \<Rightarrow> unit go_value aw_prog" where
  "agree_awareness d e =
     (case d of
        Some (OpV oper) \<Rightarrow> AwReturn (Note (Some (NotedV \<lparr>AnchorOp = op_ID oper, Body = ''agreed''\<rparr>)))
      | _ \<Rightarrow> AwReturn Ignore)"

definition desk_env :: "(unit go_value, desk) env" where
  "desk_env =
     \<lparr>spec = \<lparr>Name = ''v'', Version = ''1'', Channels = [], Awareness = Some agree_awareness,
              Thinking = Some (\<lambda>d e. ThReturn None), States = [],
              OnNote = Some (bridge desk_api \<lparr>client = ()\<rparr> None None)\<rparr>,
      awareness = \<lparr>aw_conn = desk_conn, aw_defaultRequestTimeout = 5\<rparr>,
      thinking = \<lparr>th_conn = desk_conn, th_defaultRequestTimeout = 5, th_defaultRequestManyWindow = 1\<rparr>\<rparr>"

definition desk_rt :: "(unit go_value, desk) rt" where
  "desk_rt =
     \<lparr>mtr = newMetrics, effects = [], net = empty_desk, registry = newRegistry [],
      thinkingCancelled = False, thinkingWG = 0, tasks = []\<rparr>"

definition op_msg :: JsMsg where
  "op_msg = \<lparr>jm_message = \<lparr>Subject = ''ops.plan'', Reply = [], Headers = Some [''Id'' \<mapsto> [''op1'']], Data = []\<rparr>, jm_handle = 1\<rparr>"

theorem note_on_operation_becomes_comment_witness:
  "posted (net (snd (dispatchStream desk_env (TopicChannel loop_js desk_soul ''plan'' []) op_msg desk_rt))) =
     [(''plan'', ''agreed'', ''op1'')]"
proof -
  obtain r s' where run: "dispatchStream desk_env (TopicChannel loop_js desk_soul ''plan'' []) op_msg desk_rt = (r, s')"
    by fastforce
  have hk: "OnNote (spec desk_env) = Some (bridge desk_api \<lparr>client = ()\<rparr> None None)"
    and aw: "Awareness (spec desk_env) = Some agree_awareness" by (simp_all add: desk_env_def)
  have verdict: "agree_awareness (Some (OpV (op_of desk_soul (jm_message op_msg)))) ''plan'' =
      AwReturn (Note (Some (NotedV \<lparr>AnchorOp = ''op1'', Body = ''agreed''\<rparr>)))"
    by (simp add: agree_awareness_def op_of_def op_msg_def desk_soul_def message_header_def map_header_get_def)
  have "posted (net s') = posted (net desk_rt) @ [(''plan'', ''agreed'', ''op1'')]"
    using note_on_operation_becomes_comment [OF desk.topic_library_axioms hk aw verdict _ _ _ _ _ run]
    by (simp add: desk_env_def desk_conn_def desk_api_def Let_def)
  moreover have "posted (net desk_rt) = []" by (simp add: desk_rt_def empty_desk_def)
  ultimately show ?thesis by (simp add: run)
qed

end
