(* ===== verification/Echo.thy ===== *)
theory Echo
  imports Values Dispatch_Run "HOL-Library.Multiset"
begin

text \<open>
  The worked example (\<open>examples/echo/main.go\<close>): every message on \<open>messages.in\<close> is thought
  about, and thinking publishes its payload on \<open>actions.out\<close>. The imp it declares runs on the
  model of the harness, so what it does end to end is a theorem about both. The rest of \<open>main\<close>
  is in \<open>Echo_Main\<close>.
\<close>

section \<open>The imp\<close>

definition echo_channel :: "unit go_value ChannelSpec" where
  "echo_channel =
     \<lparr>ch_Name = ''inbound'', ch_Source = Some (SubjectSource ''messages.in''),
      ch_Decode = Some (\<lambda>msg. Returned (Inr (Some (StringV (Data msg))))),
      ch_ExtractEntity = Some (\<lambda>_. Returned (Inr ''singleton''))\<rparr>"

definition echo_awareness :: "unit go_value any \<Rightarrow> entity \<Rightarrow> unit go_value aw_prog" where
  "echo_awareness decoded entity = AwReturn (Think decoded entity)"

definition echo_thinking :: "unit go_value any \<Rightarrow> entity \<Rightarrow> (unit go_value, 'n) th_prog" where
  "echo_thinking why entity =
     (case why of
        Some (StringV pl) \<Rightarrow> ThPublish ''actions.out'' pl ThReturn
      | _ \<Rightarrow> ThPanic)"

definition echo_spec :: "(unit go_value, 'n) ImpSpec" where
  "echo_spec =
     \<lparr>Name = ''echo'', Version = ''0.1.0'', Channels = [echo_channel], Awareness = Some echo_awareness,
      Thinking = Some echo_thinking, States = [], OnNote = None\<rparr>"

lemma echo_spec_valid: "validateSpec echo_spec = None"
  by (simp add: validateSpec_ok spec_ok_def echo_spec_def echo_channel_def channel_ok_def)

section \<open>What is published and what is pending\<close>

fun published :: "'a effect list \<Rightarrow> (string \<times> bytes) list" where
  "published [] = []"
| "published (EPublish subj pl # es) = (subj, pl) # published es"
| "published (_ # es) = published es"

lemma published_append [simp]: "published (xs @ ys) = published xs @ published ys"
  by (induction xs rule: published.induct) simp_all

definition publishes :: "('a, 'n, 'z) io_scheme \<Rightarrow> (string \<times> bytes) multiset" where
  "publishes s = mset (published (effects s))"

definition pending_of :: "('a, 'n) th_prog \<Rightarrow> (string \<times> bytes) multiset" where
  "pending_of p = (case p of ThPublish subj pl k \<Rightarrow> {#(subj, pl)#} | _ \<Rightarrow> {#})"

definition pending :: "('a, 'n, 'z) rt_scheme \<Rightarrow> (string \<times> bytes) multiset" where
  "pending s = sum_list (map (pending_of \<circ> task_prog) (tasks s))"

text \<open>The only programs an echo imp runs: about to publish, or returning.\<close>

definition echo_prog :: "('a, 'n) th_prog \<Rightarrow> bool" where
  "echo_prog p \<longleftrightarrow> (\<exists>pl. p = ThPublish ''actions.out'' pl ThReturn) \<or> (\<exists>err. p = ThReturn err)"

fun echo_event :: "unit go_value event \<Rightarrow> bool" where
  "echo_event (Deliver ch msg) \<longleftrightarrow> ch = echo_channel"
| "echo_event (DeliverStream ch m) \<longleftrightarrow> False"
| "echo_event (Advance i) \<longleftrightarrow> True"

fun received :: "unit go_value event \<Rightarrow> (string \<times> bytes) multiset" where
  "received (Deliver ch msg) = {#(''actions.out'', Data msg)#}"
| "received _ = {#}"

definition echo_ok :: "(unit go_value, 'n, 'z) rt_scheme \<Rightarrow> bool" where
  "echo_ok s \<longleftrightarrow> (\<forall>t \<in> set (tasks s). echo_prog (task_prog t))"

lemma echo_deliver:
  assumes "spec env = echo_spec"
  shows "\<exists>s'. handle env (Deliver echo_channel msg) s = Some s' \<and>
    publishes s' = publishes s \<and>
    tasks s' = tasks s @ [\<lparr>task_entity = ''singleton'', task_prog = ThPublish ''actions.out'' (Data msg) ThReturn\<rparr>]"
proof -
  have f: "front echo_channel msg = Returned (Inr (Some (StringV (Data msg)), ''singleton''))"
    by (simp add: front_def echo_channel_def call_fn_def)
  have kinds: "kind (Think r e) = verdictThink" "reason (Think r e) = r" "verdict_entity (Think r e) = e" for r :: "unit go_value any" and e
    by (simp_all add: Think_def)
  show ?thesis
    using assms
    by (simp add: handle_def dispatch_front f safeAwareness_def echo_spec_def echo_awareness_def
        verdict_switch_def kinds launchThinking_def Let_def echo_thinking_def publishes_def)
qed

lemma finish_effects:
  "publishes (finishThinking i r s) = publishes s"
  "tasks (finishThinking i r s) = take i (tasks s) @ drop (Suc i) (tasks s)"
  by (simp_all add: finishThinking_def Let_def publishes_def split: outcome.split option.split)

lemma echo_advance:
  assumes "echo_ok s"
  shows "echo_ok (thinking_step env i s) \<and>
    publishes (thinking_step env i s) + pending (thinking_step env i s) = publishes s + pending s \<and>
    length (tasks (thinking_step env i s)) \<le> length (tasks s)"
proof (cases "i < length (tasks s)")
  case True
  have prog: "echo_prog (task_prog (tasks s ! i))" using assms True by (auto simp: echo_ok_def)
  then show ?thesis unfolding echo_prog_def
  proof (elim disjE exE)
    fix err assume p: "task_prog (tasks s ! i) = ThReturn err"
    have step: "thinking_step env i s = finishThinking i (Returned err) s"
      using True p by (simp add: thinking_step_def)
    have "pending (finishThinking i (Returned err) s) = pending s"
      using sum_list_remove [OF True, of "pending_of \<circ> task_prog"]
      by (simp add: pending_def finish_effects p pending_of_def)
    then show ?thesis using assms
      by (auto simp: step finish_effects echo_ok_def dest: in_set_takeD in_set_dropD)
  next
    fix pl assume p: "task_prog (tasks s ! i) = ThPublish ''actions.out'' pl ThReturn"
    obtain x n where pub: "Publish (th_conn (thinking env)) ''actions.out'' pl (net s) = (x, n)" by fastforce
    define t where "t = (tasks s ! i)\<lparr>task_prog := ThReturn x\<rparr>"
    have step: "thinking_step env i s =
        (emit (EPublish ''actions.out'' pl) (s\<lparr>net := n\<rparr>))\<lparr>tasks := (tasks s)[i := t]\<rparr>"
      using True p pub by (simp add: thinking_step_def thinking_Publish_def t_def)
    have rest: "pending (thinking_step env i s) + {#(''actions.out'', pl)#} = pending s"
      using sum_list_replace [OF True, of "pending_of \<circ> task_prog" t]
      by (simp add: pending_def step p pending_of_def t_def)
    have out: "publishes (thinking_step env i s) = publishes s + {#(''actions.out'', pl)#}"
      by (simp add: step publishes_def)
    have "echo_ok (thinking_step env i s)"
      using assms by (auto simp: step echo_ok_def echo_prog_def t_def dest: set_update_subset_insert [THEN subsetD])
    moreover have "length (tasks (thinking_step env i s)) = length (tasks s)" by (simp add: step)
    ultimately show ?thesis unfolding rest [symmetric] out by (simp add: ac_simps)
  qed
qed (use assms in \<open>simp add: thinking_step_def\<close>)

lemma echo_run:
  assumes "spec env = echo_spec" and "echo_ok s" and "list_all echo_event evs"
  shows "\<exists>s'. handle_all env evs s = Some s' \<and> echo_ok s' \<and>
    publishes s' + pending s' = publishes s + pending s + sum_list (map received evs) \<and>
    length (tasks s') \<le> length (tasks s) + length evs"
  using assms(2,3)
proof (induction evs arbitrary: s)
  case (Cons ev evs)
  have "\<exists>s1. handle env ev s = Some s1 \<and> echo_ok s1 \<and>
      publishes s1 + pending s1 = publishes s + pending s + received ev \<and>
      length (tasks s1) \<le> Suc (length (tasks s))"
  proof (cases ev)
    case (Deliver ch msg)
    obtain s1 where "handle env (Deliver echo_channel msg) s = Some s1" "publishes s1 = publishes s"
      "tasks s1 = tasks s @ [\<lparr>task_entity = ''singleton'', task_prog = ThPublish ''actions.out'' (Data msg) ThReturn\<rparr>]"
      using echo_deliver [OF assms(1)] by blast
    then show ?thesis using Cons.prems Deliver
      by (auto simp: echo_ok_def echo_prog_def pending_def pending_of_def)
  next
    case (DeliverStream ch m)
    then show ?thesis using Cons.prems by simp
  next
    case (Advance i)
    then show ?thesis using echo_advance [OF Cons.prems(1)] by (simp add: handle_def le_Suc_eq)
  qed
  then obtain s1 where s1: "handle env ev s = Some s1" "echo_ok s1"
    "publishes s1 + pending s1 = publishes s + pending s + received ev"
    "length (tasks s1) \<le> Suc (length (tasks s))" by blast
  from Cons.IH [OF s1(2)] Cons.prems(2) obtain s' where "handle_all env evs s1 = Some s'" "echo_ok s'"
    "publishes s' + pending s' = publishes s1 + pending s1 + sum_list (map received evs)"
    "length (tasks s') \<le> length (tasks s1) + length evs" by auto
  with s1 show ?case by (simp add: add.assoc)
qed simp

section \<open>Every thought ends\<close>

lemma echo_step_tasks:
  assumes "echo_ok s" and "tasks s = t # ts"
  shows "tasks (thinking_step env 0 s) = ts \<or>
    (\<exists>t' x. tasks (thinking_step env 0 s) = t' # ts \<and> task_prog t' = ThReturn x \<and> (\<exists>pl. task_prog t = ThPublish ''actions.out'' pl ThReturn))"
proof -
  have "echo_prog (task_prog t)" using assms by (simp add: echo_ok_def)
  then show ?thesis unfolding echo_prog_def
  proof (elim disjE exE)
    fix err assume "task_prog t = ThReturn err"
    then show ?thesis using assms(2) by (simp add: thinking_step_def finish_effects)
  next
    fix pl assume p: "task_prog t = ThPublish ''actions.out'' pl ThReturn"
    obtain x n where pub: "Publish (th_conn (thinking env)) ''actions.out'' pl (net s) = (x, n)" by fastforce
    have "tasks (thinking_step env 0 s) = t\<lparr>task_prog := ThReturn x\<rparr> # ts"
      using assms(2) p pub by (simp add: thinking_step_def thinking_Publish_def)
    then show ?thesis using p by auto
  qed
qed

lemma echo_two_steps:
  assumes "echo_ok s" and "length (tasks s) \<le> Suc k"
  shows "length (tasks (thinking_step env 0 (thinking_step env 0 s))) \<le> k"
proof (cases "tasks s")
  case Nil
  then show ?thesis by (simp add: thinking_step_def)
next
  case (Cons t ts)
  let ?s1 = "thinking_step env 0 s"
  have ok1: "echo_ok ?s1" using echo_advance [OF assms(1)] by blast
  from echo_step_tasks [OF assms(1) Cons, of env] show ?thesis
  proof (elim disjE exE conjE)
    assume s1: "tasks ?s1 = ts"
    show ?thesis
    proof (cases ts)
      case Nil
      then show ?thesis using s1 by (simp add: thinking_step_def [of env 0 ?s1])
    next
      case (Cons u us)
      then show ?thesis using echo_step_tasks [OF ok1, of u us env] s1 assms(2) \<open>tasks s = t # ts\<close> by auto
    qed
  next
    fix t' x assume s1: "tasks ?s1 = t' # ts" "task_prog t' = ThReturn x"
    then show ?thesis using echo_step_tasks [OF ok1 s1(1), of env] assms(2) Cons by auto
  qed
qed

lemma echo_drain:
  assumes "echo_ok s" and "length (tasks s) \<le> k"
  shows "\<exists>s'. handle_all env (replicate (2 * k) (Advance 0)) s = Some s' \<and> tasks s' = []"
  using assms
proof (induction k arbitrary: s)
  case (Suc k)
  let ?s2 = "thinking_step env 0 (thinking_step env 0 s)"
  have "echo_ok ?s2" using echo_advance Suc.prems(1) by blast
  from Suc.IH [OF this echo_two_steps [OF Suc.prems]] show ?case by (simp add: handle_def)
qed simp

lemma no_receipts: "sum_list (map received (replicate k (Advance i))) = {#}"
  by (induction k) simp_all

section \<open>End to end\<close>

text \<open>
  C13. The echo imp, validated and started with no other work: whatever the messages and
  however the thinking goroutines interleave with them, the process survives, at every moment
  what is published together with what is pending is exactly what was received, and once the
  goroutines have run - each needs at most two steps - every payload received on
  \<open>messages.in\<close> has been published on \<open>actions.out\<close> exactly once, and nothing else.
\<close>

theorem echo_end_to_end:
  assumes "spec env = echo_spec" and "list_all echo_event evs"
  shows "validateSpec (spec env) = None \<and>
    (\<exists>s. handle_all env evs (new_rt [] n) = Some s \<and>
       publishes s + pending s = sum_list (map received evs) \<and>
       (\<exists>s'. handle_all env (replicate (2 * length evs) (Advance 0)) s = Some s' \<and> tasks s' = [] \<and>
          publishes s' = sum_list (map received evs)))"
proof
  show "validateSpec (spec env) = None" by (simp add: assms(1) echo_spec_valid)
  have start: "echo_ok (new_rt [] n)" "publishes (new_rt [] n) = {#}" "pending (new_rt [] n) = {#}"
    "length (tasks (new_rt [] n)) = 0"
    by (simp_all add: echo_ok_def publishes_def pending_def new_rt_def)
  obtain s where s: "handle_all env evs (new_rt [] n) = Some s" "echo_ok s"
    "publishes s + pending s = sum_list (map received evs)" "length (tasks s) \<le> length evs"
    using echo_run [OF assms(1) start(1) assms(2)] by (auto simp: start)
  obtain s' where s': "handle_all env (replicate (2 * length evs) (Advance 0)) s = Some s'" "tasks s' = []"
    using echo_drain [OF s(2,4)] by blast
  have "list_all echo_event (replicate (2 * length evs) (Advance 0))" by (simp add: list_all_iff)
  from echo_run [OF assms(1) s(2) this] s' have "publishes s' + pending s' = publishes s + pending s"
    by (auto simp only: no_receipts handle_all.simps option.inject add_0_right)
  moreover have "pending s' = {#}" using s'(2) by (simp add: pending_def)
  ultimately show "\<exists>s. handle_all env evs (new_rt [] n) = Some s \<and>
       publishes s + pending s = sum_list (map received evs) \<and>
       (\<exists>s'. handle_all env (replicate (2 * length evs) (Advance 0)) s = Some s' \<and> tasks s' = [] \<and>
          publishes s' = sum_list (map received evs))"
    using s s' by auto
qed

definition echo_env :: "(unit go_value, loop) env" where
  "echo_env =
     \<lparr>spec = echo_spec,
      awareness = \<lparr>aw_conn = loop_conn, aw_defaultRequestTimeout = 5\<rparr>,
      thinking = \<lparr>th_conn = loop_conn, th_defaultRequestTimeout = 5, th_defaultRequestManyWindow = 1\<rparr>\<rparr>"

theorem echo_end_to_end_witness:
  "\<exists>s s'. handle_all echo_env [Deliver echo_channel (demo_message ''hello''), Deliver echo_channel (demo_message ''you''), Advance 1]
       (new_rt [] loop0) = Some s \<and>
     handle_all echo_env (replicate 6 (Advance 0)) s = Some s' \<and>
     publishes s' = {#(''actions.out'', ''hello''), (''actions.out'', ''you'')#}"
proof -
  let ?evs = "[Deliver echo_channel (demo_message ''hello''), Deliver echo_channel (demo_message ''you''), Advance 1]"
  have sp: "spec echo_env = echo_spec" by (simp add: echo_env_def)
  have evs: "list_all echo_event ?evs" by simp
  from echo_end_to_end [OF sp evs, of loop0] obtain s s' where run: "handle_all echo_env ?evs (new_rt [] loop0) = Some s"
    "handle_all echo_env (replicate (2 * length ?evs) (Advance 0)) s = Some s'"
    "publishes s' = sum_list (map received ?evs)" by (elim conjE exE)
  have len: "2 * length ?evs = 6" by simp
  have rec: "sum_list (map received ?evs) = {#(''actions.out'', ''hello''), (''actions.out'', ''you'')#}"
    by (simp add: demo_message_def)
  show ?thesis
    by (intro exI conjI) (fact run(1) run(2) [unfolded len] run(3) [unfolded rec])+
qed

end
