(* ===== verification/Echo_Main.thy ===== *)
theory Echo_Main
  imports Echo Harness_Properties
begin

text \<open>
  The program \<open>examples/echo/main.go\<close> from its first line to its exit: connecting, building
  the imp, running it until an interrupt, and the two ways it ends, with and without the deferred
  calls. The client's \<open>Connect\<close> and \<open>Drain\<close> are parameters.
\<close>

section \<open>The process\<close>

record 'n platform =
  lib_text :: "sentinel \<Rightarrow> string"
  DefaultURL :: string
  Connect :: "string \<Rightarrow> 'n \<Rightarrow> (gerr + 'n conn) \<times> 'n"
  Drain :: "'n conn \<Rightarrow> 'n \<Rightarrow> gerr option \<times> 'n"

text \<open>
  In \<open>Running\<close> the goroutine of \<open>main\<close> is in \<open>Run\<close>, process 0 of the world. \<open>Fatal\<close> is the exit
  of \<open>log.Fatalf\<close>, with the line it writes; \<open>Exited\<close> a return from \<open>main\<close>, after its deferred
  calls; \<open>Crashed\<close> a panic nobody recovers. The last two keep the state of the network.
\<close>

datatype 'n main_state =
    Running "'n conn" "(unit go_value, 'n) world"
  | Fatal string 'n
  | Exited "(unit go_value, 'n) world" 'n
  | Crashed

text \<open>
  Building cannot be reached with a nil connection. The handler given to \<open>WithLogger\<close> is not
  nil; its number stands for it.
\<close>

definition main_start :: "'n platform \<Rightarrow> jetstream_consts \<Rightarrow> nat \<Rightarrow> 'n \<Rightarrow> 'n main_state" where
  "main_start pf js handler n =
     (case Connect pf (DefaultURL pf) n of
        (Inl err, n1) \<Rightarrow> Fatal (''nats connect: '' @ Error_text (lib_text pf) err) n1
      | (Inr nc, n1) \<Rightarrow>
          (case NewImp echo_spec (Some nc) js [WithLogger (Some handler)] of
             Inl err \<Rightarrow> Fatal (''build imp: '' @ Error_text (lib_text pf) err) n1
           | Inr imp \<Rightarrow> Running nc ((new_world imp n1)\<lparr>procs := [RunBoot]\<rparr>)))"

text \<open>
  What can happen next: an interrupt, which cancels the context given to \<open>Run\<close> (before the
  handler is installed it would end the process like any signal); a block of \<open>Run\<close>; a message
  on \<open>messages.in\<close>; a step of a thinking goroutine; the return of \<open>Run\<close>.
\<close>

datatype main_move = Interrupt | Work bool | Arrive Message | Think_step nat | Leave

fun world_move :: "main_move \<Rightarrow> unit go_value move option" where
  "world_move Interrupt = Some (Cancel 0)"
| "world_move (Work first) = Some (Step 0 first)"
| "world_move (Arrive msg) = Some (Event (Deliver echo_channel msg))"
| "world_move (Think_step i) = Some (Event (Advance i))"
| "world_move Leave = None"

definition world_net :: "('a, 'n) world \<Rightarrow> 'n" where
  "world_net w = (case rtPtr (the_imp w) of None \<Rightarrow> boot_net w | Some rt \<Rightarrow> net rt)"

definition main_return :: "'n platform \<Rightarrow> 'n conn \<Rightarrow> (unit go_value, 'n) world \<Rightarrow> 'n main_state" where
  "main_return pf nc w =
     (case procs w of
        [Finished None] \<Rightarrow> Exited w (snd (Drain pf nc (world_net w)))
      | [Finished (Some err)] \<Rightarrow> Fatal (''run imp: '' @ Error_text (lib_text pf) err) (world_net w)
      | _ \<Rightarrow> Running nc w)"

fun main_step :: "'n platform \<Rightarrow> main_move \<Rightarrow> 'n main_state \<Rightarrow> 'n main_state" where
  "main_step pf mv (Running nc w) =
     (case world_move mv of
        None \<Rightarrow> main_return pf nc w
      | Some m \<Rightarrow>
          (case move m w of
             None \<Rightarrow> Running nc w
           | Some Panicked \<Rightarrow> Crashed
           | Some (Returned w') \<Rightarrow> Running nc w'))"
| "main_step pf mv st = st"

fun main_run :: "'n platform \<Rightarrow> main_move list \<Rightarrow> 'n main_state \<Rightarrow> 'n main_state" where
  "main_run pf [] st = st"
| "main_run pf (mv # mvs) st = main_run pf mvs (main_step pf mv st)"

text \<open>The payloads that reached the runtime, as the messages they have to become.\<close>

fun arrives :: "main_move \<Rightarrow> 'n main_state \<Rightarrow> (string \<times> bytes) multiset" where
  "arrives (Arrive msg) (Running nc w) =
     (case rtPtr (the_imp w) of None \<Rightarrow> {#} | Some _ \<Rightarrow> {#(''actions.out'', Data msg)#})"
| "arrives mv st = {#}"

fun arrivals :: "'n platform \<Rightarrow> main_move list \<Rightarrow> 'n main_state \<Rightarrow> (string \<times> bytes) multiset" where
  "arrivals pf [] st = {#}"
| "arrivals pf (mv # mvs) st = arrives mv st + arrivals pf mvs (main_step pf mv st)"

section \<open>The invariant\<close>

text \<open>The lifecycle so far, by the block that \<open>Run\<close> has reached.\<close>

fun path_to :: "'a proc \<Rightarrow> State list" where
  "path_to (RunBind _) = [StateStarting]" | "path_to (RunFail _) = [StateStarting]"
| "path_to RunReady = [StateStarting]" | "path_to (RunUnwind _) = [StateStarting, StateFailed]"
| "path_to RunSelect = [StateStarting, StateRunning]" | "path_to ShutEnter = [StateStarting, StateRunning]"
| "path_to ShutBegin = [StateStarting, StateRunning]"
| "path_to ShutUnwind = [StateStarting, StateRunning, StateDraining]"
| "path_to ShutCancel = [StateStarting, StateRunning, StateDraining]"
| "path_to ShutDrain = [StateStarting, StateRunning, StateDraining]"
| "path_to ShutStop = [StateStarting, StateRunning, StateDraining]"
| "path_to ShutClose = [StateStarting, StateRunning, StateDraining, StateStopped]"
| "path_to ShutWait = [StateStarting, StateRunning, StateDraining, StateStopped]"
| "path_to (Finished None) = [StateStarting, StateRunning, StateDraining, StateStopped]"
| "path_to _ = []"

text \<open>The errors \<open>Run\<close> can be about to return, by block.\<close>

definition bind_error :: "gerr \<Rightarrow> bool" where
  "bind_error err \<longleftrightarrow> (\<exists>e. err = ErrSubscriptionFailed ''messages.in'' e)"

fun error_ok :: "'a proc \<Rightarrow> gerr option \<Rightarrow> bool" where
  "error_ok (RunFail err) e \<longleftrightarrow> bind_error err"
| "error_ok (RunUnwind err) e \<longleftrightarrow> bind_error err"
| "error_ok ShutStop e \<longleftrightarrow> e = None \<or> e = Some drain_error"
| "error_ok ShutClose e \<longleftrightarrow> e = None \<or> e = Some drain_error"
| "error_ok ShutWait e \<longleftrightarrow> e = None \<or> e = Some drain_error"
| "error_ok (Finished (Some err)) e \<longleftrightarrow> bind_error err \<or> err = drain_error"
| "error_ok _ e \<longleftrightarrow> True"

fun bind_left :: "unit go_value proc \<Rightarrow> bool" where
  "bind_left (RunBind chs) \<longleftrightarrow> chs = [] \<or> chs = [echo_channel]" | "bind_left _ \<longleftrightarrow> True"

fun is_finished :: "'a proc \<Rightarrow> bool" where
  "is_finished (Finished (Some _)) = True" | "is_finished _ = False"

definition closing :: "'a proc \<Rightarrow> bool" where
  "closing p \<longleftrightarrow> p \<in> {ShutBegin, ShutUnwind, ShutCancel, ShutDrain, ShutStop, ShutClose, ShutWait, Finished None}"

definition run_ok :: "unit go_value proc \<Rightarrow> (unit go_value, 'n) runtime \<Rightarrow> bool" where
  "run_ok p rt \<longleftrightarrow>
     p \<noteq> RunBoot \<and> bind_left p \<and> error_ok p (shutdownErr rt) \<and>
     (\<not> is_finished p \<longrightarrow>
       history rt = path_to p \<and> state (machine rt) = last (StateCreated # history rt) \<and>
       shutdownOnce rt = closing p \<and> stopped rt = (p = ShutWait \<or> p = Finished None))"

definition echo_world :: "(unit go_value, 'n) Imp \<Rightarrow> 'n \<Rightarrow> (unit go_value, 'n) world \<Rightarrow> (string \<times> bytes) multiset \<Rightarrow> bool" where
  "echo_world i n w got \<longleftrightarrow>
     reachable_from (new_world i n) w \<and> imp_spec (the_imp w) = echo_spec \<and>
     defaultRequestTimeout (opts (the_imp w)) > 0 \<and> defaultRequestManyWindow (opts (the_imp w)) > 0 \<and>
     (\<exists>p. procs w = [p] \<and>
       (case rtPtr (the_imp w) of
          None \<Rightarrow> p = RunBoot \<and> \<not> rtOnce (the_imp w) \<and> got = {#}
        | Some rt \<Rightarrow> run_ok p rt \<and> echo_ok rt \<and> publishes rt + pending rt = got))"

text \<open>Binding and releasing publish nothing and leave the goroutines alone.\<close>

fun publishes_as :: "(string \<times> bytes) \<Rightarrow> 'a effect \<Rightarrow> bool" where
  "publishes_as x (EPublish subj pl) \<longleftrightarrow> (subj, pl) = x" | "publishes_as x _ \<longleftrightarrow> False"

lemma published_calls: "Multiset.count (mset (published es)) x = length (filter (publishes_as x) (calls es))"
  by (induction es rule: published.induct) (auto simp: calls_Cons)

lemma publishes_count: "Multiset.count (publishes s) x = count_calls (publishes_as x) s"
  by (simp add: publishes_def count_calls_def published_calls)

lemma quiet_publishes [simp]: "quiet (publishes_as x)"
proof -
  have "is_binding e \<Longrightarrow> \<not> publishes_as x e" for e :: "'a effect" by (cases e) auto
  then show ?thesis by (simp add: quiet_def)
qed

definition same_work :: "(unit go_value, 'n) runtime \<Rightarrow> (unit go_value, 'n) runtime \<Rightarrow> bool" where
  "same_work rt rt' \<longleftrightarrow> tasks rt' = tasks rt \<and> publishes rt' = publishes rt"

lemma same_work_bound: "bound rt rt' \<Longrightarrow> same_work rt rt'"
  by (simp add: same_work_def bound_def untouched_def multiset_eq_iff publishes_count)

lemma same_work_resources: "same_resources rt rt' \<Longrightarrow> same_work rt rt'"
  by (simp add: same_work_def same_resources_def multiset_eq_iff publishes_count count_calls_def)

lemma block_same_work:
  assumes "run_block i cn f p rt = Some (Returned (q, rt'))"
  shows "same_work rt rt'"
  using run_block_resources [OF assms] bind_channel_bound unwind_bound same_work_bound same_work_resources
  by blast

text \<open>One block of \<open>Run\<close>.\<close>

lemma bind_echo:
  assumes "bind_channel i echo_channel rt = (r, rt')"
  shows "\<exists>e. r = Returned e \<and> (\<forall>err. e = Some err \<longrightarrow> bind_error err)"
  using assms
  by (auto simp: bind_channel_def echo_channel_def bindSubjectChannel_def bind_error_def Let_def
      split: prod.splits sum.splits)

lemma bind_fields:
  assumes "bind_channel i ch rt = (r, rt')"
  shows "history rt' = history rt" "machine rt' = machine rt" "shutdownErr rt' = shutdownErr rt"
    "shutdownOnce rt' = shutdownOnce rt" "stopped rt' = stopped rt"
  using bind_channel_bound [of rt i ch] assms by (simp_all add: bound_def untouched_def)

lemma unwind_fields:
  "history (unwind nc rt) = history rt" "machine (unwind nc rt) = machine rt"
  "shutdownErr (unwind nc rt) = shutdownErr rt" "shutdownOnce (unwind nc rt) = shutdownOnce rt"
  "stopped (unwind nc rt) = stopped rt"
  using unwind_untouched [of rt nc] by (simp_all add: untouched_def)

lemma run_block_run_ok:
  assumes ok: "run_ok p rt" and spec: "Channels (imp_spec i) = [echo_channel]"
    and step: "run_block i cn f p rt = Some (Returned (q, rt'))"
  shows "run_ok q rt'"
  using step
proof (cases "(i, cn, f, p, rt)" rule: run_block.cases)
  case (3 i' cn' f' ch chs rt0)
  then have ch: "ch = echo_channel" "chs = []" using ok by (auto simp: run_ok_def)
  obtain r rt1 where b: "bind_channel i echo_channel rt = (r, rt1)" by fastforce
  then obtain e where e: "r = Returned e" "\<forall>err. e = Some err \<longrightarrow> bind_error err" using bind_echo by blast
  show ?thesis using step 3 ok bind_fields [OF b] b e
    by (cases e) (auto simp: ch run_ok_def closing_def)
qed (use step ok spec in \<open>auto simp: run_ok_def closing_def machine_defs set_state_def unwind_fields
      waitDrain_def split: prod.splits if_splits\<close>)

lemma run_block_safe:
  assumes "run_ok p rt"
  shows "run_block i cn f p rt \<noteq> Some Panicked"
proof (cases "(i, cn, f, p, rt)" rule: run_block.cases)
  case (3 i' cn' f' ch chs rt0)
  then have ch: "ch = echo_channel" using assms by (auto simp: run_ok_def)
  show ?thesis using 3 bind_echo [of i rt] by (fastforce simp: ch split: prod.splits outcome.splits option.splits)
qed (auto simp: waitDrain_def split: prod.splits bool.splits if_splits)

text \<open>Every move keeps the invariant.\<close>

lemma deliver_echo:
  assumes "spec env = echo_spec" and "echo_ok s"
  shows "\<exists>s'. handle env (Deliver echo_channel msg) s = Some s' \<and> echo_ok s' \<and>
    publishes s' + pending s' = publishes s + pending s + {#(''actions.out'', Data msg)#}"
proof -
  obtain s' where "handle env (Deliver echo_channel msg) s = Some s'" "publishes s' = publishes s"
    "tasks s' = tasks s @ [\<lparr>task_entity = ''singleton'', task_prog = ThPublish ''actions.out'' (Data msg) ThReturn\<rparr>]"
    using echo_deliver [OF assms(1)] by blast
  then show ?thesis using assms(2)
    by (auto simp: echo_ok_def echo_prog_def pending_def pending_of_def)
qed

lemma handle_run_ok:
  assumes "handle env ev rt = Some rt'" and "run_ok p rt"
  shows "run_ok p rt'"
proof -
  have "rt.more rt' = rt.more rt" using handle_ledger [OF assms(1)] by (simp add: ledger_step_def)
  note f = rt_more_fields [OF this]
  have "machine rt' = machine rt" "shutdownOnce rt' = shutdownOnce rt"
    using f(4) by (simp_all add: control_of_def)
  then show ?thesis using assms(2) f(3,5,6) by (simp add: run_ok_def)
qed

lemma echo_world_event:
  assumes w: "echo_world i n w got" and rt: "rtPtr (the_imp w) = Some rt"
    and h: "handle (imp_env (the_imp w)) ev rt = Some rt'" "echo_ok rt'"
    and got: "publishes rt' + pending rt' = publishes rt + pending rt + x"
  shows "\<exists>w'. move (Event ev) w = Some (Returned w') \<and> echo_world i n w' (got + x)"
proof -
  let ?w = "w\<lparr>the_imp := (the_imp w)\<lparr>rtPtr := Some rt'\<rparr>\<rparr>"
  obtain p where p: "procs w = [p]" "run_ok p rt" "publishes rt + pending rt = got"
    using w rt by (auto simp: echo_world_def)
  have m: "move (Event ev) w = Some (Returned ?w)" using rt h(1) by (simp add: move_def)
  then have "reachable_from (new_world i n) ?w" using w next_world by (auto simp: echo_world_def)
  then have "echo_world i n ?w (got + x)"
    using w p h(2) got handle_run_ok [OF h(1) p(2)] by (simp add: echo_world_def)
  with m show ?thesis by blast
qed

lemma boot_run_ok:
  assumes "bootRuntime i n = (None, i')" "\<not> rtOnce i"
  shows "\<exists>rt. rtPtr i' = Some rt \<and> run_ok RunSwap rt \<and> echo_ok rt \<and> publishes rt + pending rt = {#} \<and>
    imp_spec i' = imp_spec i \<and> opts i' = opts i"
  using assms
  by (auto simp: bootRuntime_def Let_def new_runtime_def new_rt_def run_ok_def closing_def echo_ok_def
      publishes_def pending_def machine_defs rt.defs split: if_splits)

lemma echo_world_work:
  assumes w: "echo_world i n w got"
  shows "move (Step 0 f) w = None \<or> (\<exists>w'. move (Step 0 f) w = Some (Returned w') \<and> echo_world i n w' got)"
proof -
  obtain p where p: "procs w = [p]" using w by (auto simp: echo_world_def)
  define cn where "cn = (0 \<in> set (cancelled_runs w))"
  have mv: "move (Step 0 f) w = (case proc_step cn f (boot_net w) p (the_imp w) of
      None \<Rightarrow> None | Some Panicked \<Rightarrow> Some Panicked
    | Some (Returned (q, i')) \<Rightarrow> Some (Returned (w\<lparr>the_imp := i', procs := [q]\<rparr>)))"
    by (simp add: move_def p cn_def split: option.split outcome.split prod.split)
  have next_ok: ?thesis if "proc_step cn f (boot_net w) p (the_imp w) = Some (Returned (q, i'))"
      "imp_spec i' = echo_spec" "opts i' = opts (the_imp w)"
      "rtPtr i' = Some rt'" "run_ok q rt'" "echo_ok rt'" "publishes rt' + pending rt' = got" for q i' rt'
  proof -
    have m: "move (Step 0 f) w = Some (Returned (w\<lparr>the_imp := i', procs := [q]\<rparr>))" by (simp add: mv that(1))
    then have "reachable_from (new_world i n) (w\<lparr>the_imp := i', procs := [q]\<rparr>)"
      using w next_world by (auto simp: echo_world_def)
    then have "echo_world i n (w\<lparr>the_imp := i', procs := [q]\<rparr>) got"
      using w that by (simp add: echo_world_def)
    with m show ?thesis by blast
  qed
  show ?thesis
  proof (cases "rtPtr (the_imp w)")
    case None
    then have b: "p = RunBoot" "\<not> rtOnce (the_imp w)" "got = {#}" using w p by (auto simp: echo_world_def)
    have o: "\<not> defaultRequestTimeout (opts (the_imp w)) \<le> 0" "\<not> defaultRequestManyWindow (opts (the_imp w)) \<le> 0"
      "imp_spec (the_imp w) = echo_spec" using w by (auto simp: echo_world_def)
    obtain i' where boot: "bootRuntime (the_imp w) (boot_net w) = (None, i')"
      using b(2) o by (simp add: bootRuntime_def Let_def)
    from boot_run_ok [OF boot b(2)] obtain rt where "rtPtr i' = Some rt" "run_ok RunSwap rt" "echo_ok rt"
      "publishes rt + pending rt = {#}" "imp_spec i' = imp_spec (the_imp w)" "opts i' = opts (the_imp w)" by blast
    then show ?thesis using next_ok [of RunSwap i' rt] boot b o by (simp add: proc_step_def)
  next
    case (Some rt)
    then have r: "run_ok p rt" "echo_ok rt" "publishes rt + pending rt = got" and sp: "imp_spec (the_imp w) = echo_spec"
      using w p by (auto simp: echo_world_def)
    have chs: "Channels (imp_spec (the_imp w)) = [echo_channel]" by (simp add: sp echo_spec_def)
    show ?thesis
    proof (cases "\<exists>e. p = Finished e")
      case True
      then show ?thesis by (auto simp: mv proc_step_def)
    next
      case False
      have st: "proc_step cn f (boot_net w) p (the_imp w) = on_runtime (run_block (the_imp w) cn f p) (the_imp w)"
        using False r(1) Some by (intro proc_step_on_runtime) (auto simp: run_ok_def)
      show ?thesis
      proof (cases "run_block (the_imp w) cn f p rt")
        case None
        then show ?thesis by (simp add: mv st on_runtime_def Some)
      next
        case (Some x)
        then obtain q rt' where b: "run_block (the_imp w) cn f p rt = Some (Returned (q, rt'))"
          using run_block_safe [OF r(1)] by (cases x) auto
        have sw: "tasks rt' = tasks rt" "publishes rt' = publishes rt"
          using block_same_work [OF b] by (simp_all add: same_work_def)
        show ?thesis
          using next_ok [of q "(the_imp w)\<lparr>rtPtr := Some rt'\<rparr>" rt'] run_block_run_ok [OF r(1) chs b] r sw sp b
          by (simp add: st on_runtime_def \<open>rtPtr (the_imp w) = Some rt\<close> echo_ok_def pending_def)
      qed
    qed
  qed
qed

lemma echo_world_step:
  assumes w: "echo_world i n w got" and m: "world_move mv = Some m"
  shows "(move m w = None \<and> arrives mv (Running nc w) = {#}) \<or>
    (\<exists>w'. move m w = Some (Returned w') \<and> echo_world i n w' (got + arrives mv (Running nc w)))"
proof (cases mv)
  case Interrupt
  then have "move m w = Some (Returned (w\<lparr>cancelled_runs := 0 # cancelled_runs w\<rparr>))" using m by (auto simp: move_def)
  moreover from this have "reachable_from (new_world i n) (w\<lparr>cancelled_runs := 0 # cancelled_runs w\<rparr>)"
    using w next_world by (auto simp: echo_world_def)
  ultimately show ?thesis using w Interrupt
    by (cases "rtPtr (the_imp w)") (simp_all add: echo_world_def)
next
  case (Work f)
  then show ?thesis using m echo_world_work [OF w, of f] by auto
next
  case (Arrive msg)
  show ?thesis
  proof (cases "rtPtr (the_imp w)")
    case None
    then show ?thesis using Arrive m by (auto simp: move_def)
  next
    case (Some rt)
    then have ok: "echo_ok rt" "spec (imp_env (the_imp w)) = echo_spec"
      using w by (auto simp: echo_world_def imp_env_def)
    obtain rt' where "handle (imp_env (the_imp w)) (Deliver echo_channel msg) rt = Some rt'" "echo_ok rt'"
      "publishes rt' + pending rt' = publishes rt + pending rt + {#(''actions.out'', Data msg)#}"
      using deliver_echo [OF ok(2,1)] by blast
    from echo_world_event [OF w Some this] show ?thesis using Arrive m Some by auto
  qed
next
  case (Think_step k)
  show ?thesis
  proof (cases "rtPtr (the_imp w)")
    case None
    then show ?thesis using Think_step m by (auto simp: move_def)
  next
    case (Some rt)
    then have "echo_ok rt" using w by (auto simp: echo_world_def)
    note adv = echo_advance [OF this, of "imp_env (the_imp w)" k]
    from echo_world_event [OF w Some, of "Advance k" "thinking_step (imp_env (the_imp w)) k rt" "{#}"] adv
    show ?thesis using Think_step m by (simp add: handle_def)
  qed
qed (use m in simp)

section \<open>Properties\<close>

definition run_line :: "'n platform \<Rightarrow> string \<Rightarrow> bool" where
  "run_line pf line \<longleftrightarrow> (\<exists>err. (bind_error err \<or> err = drain_error) \<and> line = ''run imp: '' @ Error_text (lib_text pf) err)"

definition main_ok :: "'n platform \<Rightarrow> 'n conn \<Rightarrow> 'n main_state \<Rightarrow> (string \<times> bytes) multiset \<Rightarrow> bool" where
  "main_ok pf nc0 st got \<longleftrightarrow>
     (case st of
        Running nc w \<Rightarrow> nc = nc0 \<and> (\<exists>i n. fresh i \<and> echo_world i n w got)
      | Fatal line _ \<Rightarrow> run_line pf line
      | Exited w n' \<Rightarrow>
          (\<exists>rt. rtPtr (the_imp w) = Some rt \<and>
             history rt = [StateStarting, StateRunning, StateDraining, StateStopped] \<and> released rt \<and>
             publishes rt + pending rt = got \<and> n' = snd (Drain pf nc0 (net rt)))
      | Crashed \<Rightarrow> False)"

lemma main_return_ok:
  assumes "echo_world i n w got" and "fresh i"
  shows "main_ok pf nc (main_return pf nc w) got"
proof -
  obtain p where p: "procs w = [p]" using assms(1) by (auto simp: echo_world_def)
  show ?thesis
  proof (cases "\<exists>e. p = Finished e")
    case False
    then have "main_return pf nc w = Running nc w"
      by (cases p) (auto simp: main_return_def p split: option.split)
    then show ?thesis using assms by (auto simp: main_ok_def)
  next
    case True
    then obtain e where e: "p = Finished e" by blast
    then obtain rt where rt: "rtPtr (the_imp w) = Some rt" "run_ok p rt" "publishes rt + pending rt = got"
      using assms(1) p by (auto simp: echo_world_def split: option.splits)
    show ?thesis
    proof (cases e)
      case (Some err)
      then show ?thesis using rt(2) e by (auto simp: main_return_def p main_ok_def run_line_def run_ok_def)
    next
      case None
      then have h: "history rt = [StateStarting, StateRunning, StateDraining, StateStopped]" "stopped rt"
        using rt(2) e by (auto simp: run_ok_def)
      have "running_world i n w rt" using assms rt(1) by (simp add: running_world_def echo_world_def)
      from stopped_handles [OF this h(2)] have "released rt" by (simp add: h(1) legal_paths)
      then show ?thesis using h rt None e
        by (auto simp: main_return_def p main_ok_def world_net_def)
    qed
  qed
qed

lemma main_step_ok: "main_ok pf nc0 st got \<Longrightarrow> main_ok pf nc0 (main_step pf mv st) (got + arrives mv st)"
proof (cases st)
  case (Running nc w)
  assume "main_ok pf nc0 st got"
  then obtain i n where w: "fresh i" "echo_world i n w got" and nc: "nc = nc0" by (auto simp: Running main_ok_def)
  show ?thesis
  proof (cases "world_move mv")
    case None
    then have "mv = Leave" by (cases mv) simp_all
    then show ?thesis using main_return_ok [OF w(2,1)] nc by (simp add: Running)
  next
    case (Some m)
    have keep: "echo_world i n w' x \<Longrightarrow> main_ok pf nc0 (Running nc w') x" for w' x
      using w(1) nc by (auto simp: main_ok_def)
    show ?thesis using echo_world_step [OF w(2) Some, of nc] Some keep w(2) by (auto simp: Running)
  qed
qed (cases mv; simp)+

lemma main_run_ok: "main_ok pf nc0 st got \<Longrightarrow> main_ok pf nc0 (main_run pf mvs st) (got + arrivals pf mvs st)"
proof (induction mvs arbitrary: st got)
  case (Cons mv mvs)
  from Cons.IH [OF main_step_ok [OF Cons.prems, of mv]] show ?case by (simp add: add.assoc)
qed simp

text \<open>Building the imp of the example cannot fail, and \<open>main\<close> goes on to \<open>Run\<close>.\<close>

lemma main_start_ok:
  assumes "Connect pf (DefaultURL pf) n = (Inr nc, n1)"
  shows "main_ok pf nc (main_start pf js handler n) {#}"
proof -
  define i where "i = \<lparr>imp_spec = echo_spec :: (unit go_value, 'a) ImpSpec, imp_nc = nc, imp_js = js,
      opts = apply_Options [WithLogger (Some handler)], rtOnce = False, rtPtr = None\<rparr>"
  have new: "main_start pf js handler n = Running nc ((new_world i n1)\<lparr>procs := [RunBoot]\<rparr>)"
    by (simp add: main_start_def assms NewImp_def echo_spec_valid i_def)
  have "move CallRun (new_world i n1) = Some (Returned ((new_world i n1)\<lparr>procs := [RunBoot]\<rparr>))"
    by (simp add: move_def new_world_def)
  then have "reachable_from (new_world i n1) ((new_world i n1)\<lparr>procs := [RunBoot]\<rparr>)"
    by (rule next_world [OF start_world])
  moreover have "0 < defaultRequestTimeout (opts i)" "0 < defaultRequestManyWindow (opts i)"
    by (simp_all add: i_def apply_Options_def defaultRuntimeOptions_def second_def)
  ultimately have "echo_world i n1 ((new_world i n1)\<lparr>procs := [RunBoot]\<rparr>) {#}"
    by (simp add: echo_world_def new_world_def i_def)
  moreover have "fresh i" by (simp add: fresh_def i_def)
  ultimately show ?thesis by (auto simp: new main_ok_def)
qed

lemma main_run_ended [simp]: "main_run pf mvs (Fatal line n) = Fatal line n"
  by (induction mvs) simp_all


text \<open>
  Two runs: one message comes and goes before an interrupt; and the server refuses the
  subscription. Draining the connection gives its handles back.
\<close>

definition demo_platform :: "loop platform" where
  "demo_platform =
     \<lparr>lib_text = (\<lambda>_. ''library error''), DefaultURL = ''nats://127.0.0.1:4222'',
      Connect = (\<lambda>_ n. (Inr loop_conn, n)), Drain = (\<lambda>_ n. (None, n\<lparr>next_handle := 0\<rparr>))\<rparr>"

definition demo_main :: "main_move list \<Rightarrow> string list \<Rightarrow> loop main_state" where
  "demo_main mvs bad = main_run demo_platform mvs (main_start demo_platform loop_js 1 (loop0\<lparr>next_handle := 7, refused := bad\<rparr>))"

fun handles_at_exit :: "loop main_state \<Rightarrow> (string option \<times> nat) option" where
  "handles_at_exit (Exited w n) = Some (None, next_handle n)"
| "handles_at_exit (Fatal line n) = Some (Some line, next_handle n)"
| "handles_at_exit _ = None"

lemma echo_main_exits:
  "handles_at_exit (demo_main (replicate 5 (Work True) @ [Arrive (demo_message ''hello''), Think_step 0, Think_step 0,
     Interrupt] @ replicate 9 (Work True) @ [Leave]) []) = Some (None, 0)"
  by code_simp

text \<open>The exit of \<open>log.Fatalf\<close> skips the deferred calls: the connection is never drained.\<close>

theorem fatal_exit_skips_drain:
  "handles_at_exit (demo_main (replicate 5 (Work True) @ [Leave]) [''messages.in'']) =
   Some (Some ''run imp: imps: subscription to \"messages.in\" failed: refused'', 7)"
  by code_simp

end
