(* ===== verification/Natstest.thy ===== *)
theory Natstest
  imports Imp_Errors
begin

text \<open>
  The embedded server that the test packages run against (\<open>testutil/natstest/server.go\<close>):
  what it starts, creates and opens, and the cleanup functions that give these back. The
  server library, the client library and the operating system are parameters.
\<close>

section \<open>The libraries\<close>

record server_options =
  Host :: string
  Port :: int
  NoLog :: bool
  NoSigs :: bool
  DisableShortFirstPing :: bool

text \<open>
  \<open>ReadyForConnections\<close> waits up to the duration; \<open>Start\<close> is called in a goroutine of its
  own, and its effect is part of the world from then on.
\<close>

record 'n server_lib =
  NewServer :: "server_options \<Rightarrow> 'n \<Rightarrow> (gerr + nat) \<times> 'n"
  Start :: "nat \<Rightarrow> 'n \<Rightarrow> 'n"
  ReadyForConnections :: "nat \<Rightarrow> duration \<Rightarrow> 'n \<Rightarrow> bool \<times> 'n"
  ClientURL :: "nat \<Rightarrow> 'n \<Rightarrow> string"
  ServerShutdown :: "nat \<Rightarrow> 'n \<Rightarrow> 'n"
  WaitForShutdown :: "nat \<Rightarrow> 'n \<Rightarrow> 'n"
  JetStreamEnabled :: "nat \<Rightarrow> 'n \<Rightarrow> bool"
  EnableJetStream :: "nat \<Rightarrow> string \<Rightarrow> 'n \<Rightarrow> gerr option \<times> 'n"
  MkdirTemp :: "string \<Rightarrow> string \<Rightarrow> 'n \<Rightarrow> (gerr + string) \<times> 'n"
  RemoveAll :: "string \<Rightarrow> 'n \<Rightarrow> 'n"
  Connect :: "string \<Rightarrow> 'n \<Rightarrow> (gerr + nat) \<times> 'n"
  CloseConn :: "nat \<Rightarrow> 'n \<Rightarrow> 'n"
  NewJetStream :: "nat \<Rightarrow> 'n \<Rightarrow> (gerr + nat) \<times> 'n"
  lib_text :: "sentinel \<Rightarrow> string"

section \<open>Tests and their cleanup functions\<close>

text \<open>
  A test registers functions with \<open>t.Cleanup\<close>; they run when it ends, the last registered
  first. The functions this package registers are the constructors of \<open>cleanup\<close>. A test is a
  number, and the stack holds the pending functions of all tests, newest first. The events
  are what happened to servers, directories and connections, kept for stating properties;
  \<open>GaveUp\<close> marks a started server that was not ready in time.
\<close>

datatype cleanup =
    ShutdownServer "nat option"
  | RemoveDir string
  | CloseConnection nat

datatype test_event =
    Started nat
  | GaveUp nat
  | Stopped nat
  | MadeDir string
  | RemovedDir string
  | Opened nat
  | Closed nat

record 'n bench =
  cleanups :: "(nat \<times> cleanup) list"
  events :: "test_event list"
  world :: 'n

definition bench0 :: "'n \<Rightarrow> 'n bench" where
  "bench0 n = \<lparr>cleanups = [], events = [], world = n\<rparr>"

definition note_event :: "test_event \<Rightarrow> 'n bench \<Rightarrow> 'n bench" where
  "note_event e b = b\<lparr>events := events b @ [e]\<rparr>"

definition t_Cleanup :: "nat \<Rightarrow> cleanup \<Rightarrow> 'n bench \<Rightarrow> 'n bench" where
  "t_Cleanup t c b = b\<lparr>cleanups := (t, c) # cleanups b\<rparr>"

text \<open>
  \<open>t.Fatalf\<close> ends the test's goroutine with a message; a call on a nil server panics.
\<close>

datatype 'r result = Ok 'r | Fatal string | Crash

definition Fatalf :: "'n server_lib \<Rightarrow> string \<Rightarrow> gerr \<Rightarrow> 'r result" where
  "Fatalf lib what err = Fatal (what @ '': '' @ Error_text (lib_text lib) err)"

section \<open>The server\<close>

record Server =
  s_t :: nat
  srv :: "nat option"
  s_url :: string

definition test_options :: server_options where
  "test_options =
     \<lparr>Host = ''127.0.0.1'', Port = -1, NoLog = True, NoSigs = True, DisableShortFirstPing = True\<rparr>"

definition ready_wait :: duration where
  "ready_wait = 5 * second"

definition Server_Shutdown :: "'n server_lib \<Rightarrow> nat option \<Rightarrow> 'n bench \<Rightarrow> 'n bench" where
  "Server_Shutdown lib s b =
     (case s of
        None \<Rightarrow> b
      | Some h \<Rightarrow>
          note_event (Stopped h) (b\<lparr>world := WaitForShutdown lib h (ServerShutdown lib h (world b))\<rparr>))"

definition NewTestServer :: "'n server_lib \<Rightarrow> nat \<Rightarrow> 'n bench \<Rightarrow> Server result \<times> 'n bench" where
  "NewTestServer lib t b =
     (case NewServer lib test_options (world b) of
        (Inl err, n1) \<Rightarrow> (Fatalf lib ''natstest: NewServer'' err, b\<lparr>world := n1\<rparr>)
      | (Inr h, n1) \<Rightarrow>
          (let b1 = note_event (Started h) (b\<lparr>world := Start lib h n1\<rparr>)
           in case ReadyForConnections lib h ready_wait (world b1) of
                (False, n2) \<Rightarrow>
                  (Fatal ''natstest: server not ready in 5s'', note_event (GaveUp h) (b1\<lparr>world := n2\<rparr>))
              | (True, n2) \<Rightarrow>
                  (let b2 = b1\<lparr>world := n2\<rparr>;
                       s = \<lparr>s_t = t, srv = Some h, s_url = ClientURL lib h (world b2)\<rparr>
                   in (Ok s, t_Cleanup t (ShutdownServer (srv s)) b2))))"

definition Server_URL :: "Server \<Rightarrow> string" where
  "Server_URL s = s_url s"

text \<open>The part of \<open>JetStream\<close> under its first condition: \<open>None\<close> when the code goes on.\<close>

definition enable :: "'n server_lib \<Rightarrow> nat \<Rightarrow> nat \<Rightarrow> 'n bench \<Rightarrow> nat result option \<times> 'n bench" where
  "enable lib h t b =
     (case MkdirTemp lib [] ''natstest-js-*'' (world b) of
        (Inl err, n1) \<Rightarrow> (Some (Fatalf lib ''natstest: MkdirTemp'' err), b\<lparr>world := n1\<rparr>)
      | (Inr dir, n1) \<Rightarrow>
          (let b1 = t_Cleanup t (RemoveDir dir) (note_event (MadeDir dir) (b\<lparr>world := n1\<rparr>))
           in case EnableJetStream lib h (dir @ ''/store'') (world b1) of
                (Some err, n2) \<Rightarrow> (Some (Fatalf lib ''natstest: EnableJetStream'' err), b1\<lparr>world := n2\<rparr>)
              | (None, n2) \<Rightarrow>
                  (case ReadyForConnections lib h ready_wait n2 of
                     (False, n3) \<Rightarrow>
                       (Some (Fatal ''natstest: server not ready after EnableJetStream''), b1\<lparr>world := n3\<rparr>)
                   | (True, n3) \<Rightarrow> (None, b1\<lparr>world := n3\<rparr>))))"

definition connect :: "'n server_lib \<Rightarrow> Server \<Rightarrow> nat \<Rightarrow> 'n bench \<Rightarrow> nat result \<times> 'n bench" where
  "connect lib s t b =
     (case Connect lib (s_url s) (world b) of
        (Inl err, n1) \<Rightarrow> (Fatalf lib ''natstest: nats.Connect'' err, b\<lparr>world := n1\<rparr>)
      | (Inr c, n1) \<Rightarrow>
          (let b1 = t_Cleanup t (CloseConnection c) (note_event (Opened c) (b\<lparr>world := n1\<rparr>))
           in case NewJetStream lib c (world b1) of
                (Inl err, n2) \<Rightarrow> (Fatalf lib ''natstest: jetstream.New'' err, b1\<lparr>world := n2\<rparr>)
              | (Inr js, n2) \<Rightarrow> (Ok js, b1\<lparr>world := n2\<rparr>)))"

definition Server_JetStream :: "'n server_lib \<Rightarrow> Server \<Rightarrow> nat \<Rightarrow> 'n bench \<Rightarrow> nat result \<times> 'n bench" where
  "Server_JetStream lib s t b =
     (case srv s of
        None \<Rightarrow> (Crash, b)
      | Some h \<Rightarrow>
          if JetStreamEnabled lib h (world b) then connect lib s t b
          else (case enable lib h t b of
                  (Some r, b1) \<Rightarrow> (r, b1)
                | (None, b1) \<Rightarrow> connect lib s t b1))"

section \<open>Ending a test\<close>

fun run_cleanup :: "'n server_lib \<Rightarrow> cleanup \<Rightarrow> 'n bench \<Rightarrow> 'n bench" where
  "run_cleanup lib (ShutdownServer s) b = Server_Shutdown lib s b"
| "run_cleanup lib (RemoveDir d) b = note_event (RemovedDir d) (b\<lparr>world := RemoveAll lib d (world b)\<rparr>)"
| "run_cleanup lib (CloseConnection c) b = note_event (Closed c) (b\<lparr>world := CloseConn lib c (world b)\<rparr>)"

definition end_test :: "'n server_lib \<Rightarrow> nat \<Rightarrow> 'n bench \<Rightarrow> 'n bench" where
  "end_test lib t b =
     fold (run_cleanup lib \<circ> snd) (filter (\<lambda>c. fst c = t) (cleanups b))
       (b\<lparr>cleanups := filter (\<lambda>c. fst c \<noteq> t) (cleanups b)\<rparr>)"

section \<open>Test runs\<close>

text \<open>
  What tests do with the package, in any order and for any number of tests: the servers that
  \<open>New\<close> returned are numbered in order, and an operation on a server that does not exist
  does nothing.
\<close>

datatype test_op = TNew nat | TJetStream nat nat | TShutdown nat | TEnd nat

fun test_step :: "'n server_lib \<Rightarrow> test_op \<Rightarrow> Server list \<times> 'n bench \<Rightarrow> Server list \<times> 'n bench" where
  "test_step lib (TNew t) (ss, b) =
     (case NewTestServer lib t b of
        (Ok s, b') \<Rightarrow> (ss @ [s], b')
      | (_, b') \<Rightarrow> (ss, b'))"
| "test_step lib (TJetStream t i) (ss, b) =
     (if i < length ss then (ss, snd (Server_JetStream lib (ss ! i) t b)) else (ss, b))"
| "test_step lib (TShutdown i) (ss, b) =
     (if i < length ss then (ss, Server_Shutdown lib (srv (ss ! i)) b) else (ss, b))"
| "test_step lib (TEnd t) (ss, b) = (ss, end_test lib t b)"

definition test_run :: "'n server_lib \<Rightarrow> test_op list \<Rightarrow> 'n \<Rightarrow> Server list \<times> 'n bench" where
  "test_run lib ops n = fold (test_step lib) ops ([], bench0 n)"

section \<open>The ledger\<close>

text \<open>How often a cleanup function is pending, and the balance that every step keeps.\<close>

definition due :: "cleanup \<Rightarrow> 'n bench \<Rightarrow> nat" where
  "due c b = count_list (map snd (cleanups b)) c"

definition seen :: "test_event \<Rightarrow> 'n bench \<Rightarrow> nat" where
  "seen e b = count_list (events b) e"

definition accounted :: "'n bench \<Rightarrow> bool" where
  "accounted b \<longleftrightarrow>
     (\<forall>d. seen (MadeDir d) b = seen (RemovedDir d) b + due (RemoveDir d) b) \<and>
     (\<forall>c. seen (Opened c) b = seen (Closed c) b + due (CloseConnection c) b) \<and>
     (\<forall>h. seen (Started h) b \<le> seen (Stopped h) b + (seen (GaveUp h) b + due (ShutdownServer (Some h)) b))"

lemma due_simps [simp]:
  "due c (note_event e b) = due c b"
  "due c (b\<lparr>world := n\<rparr>) = due c b"
  "due c (t_Cleanup t c' b) = due c b + (if c' = c then 1 else 0)"
  "due c (bench0 n) = 0"
  by (simp_all add: due_def note_event_def t_Cleanup_def bench0_def)

lemma seen_simps [simp]:
  "seen e (note_event e' b) = seen e b + (if e' = e then 1 else 0)"
  "seen e (b\<lparr>world := n\<rparr>) = seen e b"
  "seen e (t_Cleanup t c b) = seen e b"
  "seen e (bench0 n) = 0"
  by (simp_all add: seen_def note_event_def t_Cleanup_def bench0_def)

lemma world_simps [simp]:
  "world (note_event e b) = world b"
  "world (t_Cleanup t c b) = world b"
  "cleanups (note_event e b) = cleanups b"
  by (simp_all add: note_event_def t_Cleanup_def)

lemma accounted_world [simp]: "accounted (b\<lparr>world := n\<rparr>) = accounted b"
  by (simp add: accounted_def)

lemma accounted_Shutdown: "accounted b \<Longrightarrow> accounted (Server_Shutdown lib s b)"
  by (auto simp: accounted_def Server_Shutdown_def le_SucI split: option.splits)

lemma accounted_New: "accounted b \<Longrightarrow> accounted (snd (NewTestServer lib t b))"
  by (auto simp: accounted_def NewTestServer_def Let_def split: prod.splits sum.splits bool.splits)

lemma accounted_connect: "accounted b \<Longrightarrow> accounted (snd (connect lib s t b))"
  by (auto simp: accounted_def connect_def Let_def split: prod.splits sum.splits)

lemma accounted_enable: "accounted b \<Longrightarrow> accounted (snd (enable lib h t b))"
  by (auto simp: accounted_def enable_def Let_def split: prod.splits sum.splits option.splits bool.splits)

lemma accounted_JetStream:
  assumes "accounted b"
  shows "accounted (snd (Server_JetStream lib s t b))"
  using assms accounted_enable [OF assms] accounted_connect [OF accounted_enable [OF assms]]
  by (auto simp: Server_JetStream_def accounted_connect split: option.splits prod.splits)
     (metis accounted_connect snd_conv)+

text \<open>Running the cleanup functions of one test pays what they owe.\<close>

lemma run_cleanup_cleanups [simp]: "cleanups (run_cleanup lib c b) = cleanups b"
  by (cases c) (simp_all add: Server_Shutdown_def split: option.splits)

lemma run_cleanups_cleanups [simp]: "cleanups (fold (run_cleanup lib \<circ> snd) cs b) = cleanups b"
  by (induction cs arbitrary: b) simp_all

definition paid :: "cleanup \<Rightarrow> test_event option" where
  "paid c = (case c of
     ShutdownServer s \<Rightarrow> map_option Stopped s
   | RemoveDir d \<Rightarrow> Some (RemovedDir d)
   | CloseConnection h \<Rightarrow> Some (Closed h))"

lemma run_cleanup_seen: "seen e (run_cleanup lib c b) = seen e b + (if paid c = Some e then 1 else 0)"
  by (cases c) (simp_all add: Server_Shutdown_def paid_def split: option.splits)

lemma run_cleanups_seen:
  "seen e (fold (run_cleanup lib \<circ> snd) cs b) = seen e b + length (filter (\<lambda>c. paid (snd c) = Some e) cs)"
  by (induction cs arbitrary: b) (simp_all add: run_cleanup_seen)

lemma paid_by [simp]:
  "paid c = Some (RemovedDir d) \<longleftrightarrow> c = RemoveDir d"
  "paid c = Some (Closed h) \<longleftrightarrow> c = CloseConnection h"
  "paid c = Some (Stopped h) \<longleftrightarrow> c = ShutdownServer (Some h)"
  "paid c \<noteq> Some (MadeDir d)" "paid c \<noteq> Some (Opened h)" "paid c \<noteq> Some (Started h)" "paid c \<noteq> Some (GaveUp h)"
  by (auto simp: paid_def split: cleanup.splits)

lemma count_split:
  "count_list (map snd cs) c =
     length (filter (\<lambda>x. snd x = c) (filter (\<lambda>x. fst x = t) cs)) + count_list (map snd (filter (\<lambda>x. fst x \<noteq> t) cs)) c"
  by (induction cs) auto

lemma end_test_cleanups: "cleanups (end_test lib t b) = filter (\<lambda>c. fst c \<noteq> t) (cleanups b)"
  by (simp add: end_test_def)

lemma end_test_seen:
  "seen e (end_test lib t b) =
     seen e b + length (filter (\<lambda>c. paid (snd c) = Some e) (filter (\<lambda>c. fst c = t) (cleanups b)))"
  by (simp add: end_test_def run_cleanups_seen) (simp add: seen_def)

lemma accounted_end:
  assumes "accounted b"
  shows "accounted (end_test lib t b)"
proof -
  have "due c b = length (filter (\<lambda>x. snd x = c) (filter (\<lambda>x. fst x = t) (cleanups b))) + due c (end_test lib t b)" for c
    unfolding due_def end_test_cleanups by (rule count_split)
  with assms show ?thesis by (simp add: accounted_def end_test_seen add.assoc add.left_commute)
qed

lemma accounted_step:
  assumes "accounted (snd s)"
  shows "accounted (snd (test_step lib op s))"
proof (cases op)
  case (TNew t)
  then show ?thesis using accounted_New [OF assms, of lib t]
    by (cases s) (auto split: prod.splits result.splits)
qed (use assms in \<open>cases s, simp add: accounted_JetStream accounted_Shutdown accounted_end\<close>)+

section \<open>Servers that \<open>New\<close> returned\<close>

text \<open>A handle whose shutdown is pending or done; no operation takes that back.\<close>

definition covered :: "nat \<Rightarrow> 'n bench \<Rightarrow> nat" where
  "covered h b = seen (Stopped h) b + due (ShutdownServer (Some h)) b"

lemma covered_Shutdown: "covered h b \<le> covered h (Server_Shutdown lib s b)"
  by (simp add: covered_def Server_Shutdown_def split: option.splits)

lemma covered_New: "covered h b \<le> covered h (snd (NewTestServer lib t b))"
  by (simp add: covered_def NewTestServer_def Let_def split: prod.splits sum.splits bool.splits)

lemma covered_connect: "covered h b \<le> covered h (snd (connect lib s t b))"
  by (simp add: covered_def connect_def Let_def split: prod.splits sum.splits)

lemma covered_enable: "covered h b \<le> covered h (snd (enable lib h' t b))"
  by (simp add: covered_def enable_def Let_def split: prod.splits sum.splits option.splits bool.splits)

lemma covered_JetStream: "covered h b \<le> covered h (snd (Server_JetStream lib s t b))"
proof (cases "srv s")
  case (Some h')
  obtain r b1 where e: "enable lib h' t b = (r, b1)" by fastforce
  have "covered h b \<le> covered h b1" using covered_enable [of h b lib h' t] e by simp
  moreover have "covered h x \<le> covered h (snd (connect lib s t x))" for x by (rule covered_connect)
  ultimately show ?thesis using Some e
    by (auto simp: Server_JetStream_def split: option.splits intro: le_trans)
qed (simp add: Server_JetStream_def)

lemma covered_end: "covered h b \<le> covered h (end_test lib t b)"
  using count_split [of "cleanups b" "ShutdownServer (Some h)" t]
  by (simp add: covered_def due_def end_test_cleanups end_test_seen)

definition all_covered :: "Server list \<times> 'n bench \<Rightarrow> bool" where
  "all_covered s \<longleftrightarrow> (\<forall>x \<in> set (fst s). \<exists>h. srv x = Some h \<and> 0 < covered h (snd s))"

lemma all_covered_mono:
  assumes "all_covered (ss, b)" and "\<And>h. covered h b \<le> covered h b'"
  shows "all_covered (ss, b')"
  using assms by (auto simp: all_covered_def) (metis less_le_trans)

lemma New_covered:
  assumes "NewTestServer lib t b = (Ok s, b')"
  shows "\<exists>h. srv s = Some h \<and> 0 < covered h b'"
  using assms
  by (auto simp: NewTestServer_def Let_def Fatalf_def covered_def split: prod.splits sum.splits bool.splits)

lemma all_covered_step:
  assumes "all_covered s"
  shows "all_covered (test_step lib op s)"
proof -
  obtain ss b where s: "s = (ss, b)" by (cases s)
  have keep: "all_covered (ss, b')" if "\<And>h. covered h b \<le> covered h b'" for b'
    using all_covered_mono assms that unfolding s by blast
  show ?thesis
  proof (cases op)
    case (TNew t)
    obtain r b' where new: "NewTestServer lib t b = (r, b')" by fastforce
    have "all_covered (ss, b')" by (rule keep) (use covered_New [of _ b lib t] new in simp)
    then show ?thesis using TNew new New_covered [of lib t b _ b']
      by (cases r) (auto simp: s all_covered_def)
  next
    case (TJetStream t i)
    show ?thesis using keep [OF covered_JetStream] assms by (simp add: s TJetStream)
  next
    case (TShutdown i)
    show ?thesis using keep [OF covered_Shutdown] assms by (simp add: s TShutdown)
  next
    case (TEnd t)
    show ?thesis using keep [OF covered_end] by (simp add: s TEnd)
  qed
qed

lemma test_run_inv: "accounted (snd (test_run lib ops n)) \<and> all_covered (test_run lib ops n)"
proof -
  have "accounted (snd s) \<and> all_covered s \<Longrightarrow>
      accounted (snd (fold (test_step lib) ops s)) \<and> all_covered (fold (test_step lib) ops s)" for s
    by (induction ops arbitrary: s) (simp_all add: accounted_step all_covered_step)
  then show ?thesis by (simp add: test_run_def accounted_def all_covered_def)
qed

section \<open>Nothing is left behind\<close>


section \<open>A concrete library\<close>

text \<open>
  Handles in order, one temporary directory per call, JetStream on from the first enabling;
  \<open>slow\<close> says whether servers miss their deadline.
\<close>

record toy =
  next_no :: nat
  enabled :: "nat list"
  slow :: bool

definition numbered :: "toy \<Rightarrow> (gerr + nat) \<times> toy" where
  "numbered w = (Inr (next_no w), w\<lparr>next_no := Suc (next_no w)\<rparr>)"

definition toy_lib :: "toy server_lib" where
  "toy_lib =
     \<lparr>NewServer = (\<lambda>opts. numbered), Start = (\<lambda>h w. w), ReadyForConnections = (\<lambda>h d w. (\<not> slow w, w)),
      ClientURL = (\<lambda>h w. ''nats://127.0.0.1''), ServerShutdown = (\<lambda>h w. w), WaitForShutdown = (\<lambda>h w. w),
      JetStreamEnabled = (\<lambda>h w. h \<in> set (enabled w)),
      EnableJetStream = (\<lambda>h dir w. (None, w\<lparr>enabled := h # enabled w\<rparr>)),
      MkdirTemp = (\<lambda>base pat w. (Inr ''natstest-js-1'', w)), RemoveAll = (\<lambda>d w. w),
      Connect = (\<lambda>url. numbered), CloseConn = (\<lambda>c w. w), NewJetStream = (\<lambda>c. numbered),
      lib_text = (\<lambda>_. [])\<rparr>"

definition toy0 :: "bool \<Rightarrow> toy" where
  "toy0 sl = \<lparr>next_no = 0, enabled = [], slow = sl\<rparr>"

lemmas natstest_defs = test_run_def bench0_def NewTestServer_def Server_JetStream_def enable_def connect_def
  end_test_def Server_Shutdown_def note_event_def t_Cleanup_def toy_lib_def toy0_def numbered_def Let_def


text \<open>
  A server that misses its deadline keeps running: \<open>New\<close> registers the shutdown only after the
  test would have been failed.
\<close>

theorem unready_server_leaks:
  "case test_run toy_lib [TNew 1, TEnd 1] (toy0 True) of
     (ss, b) \<Rightarrow> ss = [] \<and> events b = [Started 0, GaveUp 0] \<and> cleanups b = []"
  by (simp add: natstest_defs)

text \<open>
  JetStream enabled from a subtest: its store directory is removed when the subtest ends, while
  the server, which belongs to the enclosing test, runs on with JetStream enabled; the next
  \<open>JetStream\<close> call makes no new directory.
\<close>

theorem store_removed_under_server:
  "case test_run toy_lib [TNew 1, TJetStream 2 0, TEnd 2, TJetStream 1 0, TEnd 1] (toy0 False) of
     (ss, b) \<Rightarrow> events b =
       [Started 0, MadeDir ''natstest-js-1'', Opened 1, Closed 1, RemovedDir ''natstest-js-1'', Opened 3,
        Closed 3, Stopped 0]"
  by (simp add: natstest_defs)

end
