(* ===== verification/Pipeline.thy ===== *)
theory Pipeline
  imports Dispatch_Run
begin

text \<open>
  The message pipelines at the grain at which goroutines interfere. The client runs the
  callback of each subscription in a goroutine of its own, one message after the other, so a
  started imp has one dispatcher per channel: decoding and extraction, each call that awareness
  makes on its context, and each counter, acknowledgement, log line, hook call and wait-group
  operation after it is a step, and the steps of different dispatchers and of thinking
  goroutines interleave. Taken alone, the steps of one message are \<open>dispatch\<close> and
  \<open>dispatchStream\<close> of \<open>Dispatch\<close>.
\<close>

section \<open>Actions\<close>

text \<open>What the harness itself does for a message, after decoding or awareness has decided.\<close>

datatype counter = CDecode | CExtract | CAwPanic | CIgnored | CNotes | CThinks | CNak | CInflight

fun count_one :: "counter \<Rightarrow> ('a, 'n, 'z) io_scheme \<Rightarrow> ('a, 'n, 'z) io_scheme" where
  "count_one CDecode s = bump DecodeFailures_update s"
| "count_one CExtract s = bump ExtractionFailures_update s"
| "count_one CAwPanic s = bump AwarenessPanics_update s"
| "count_one CIgnored s = bump IgnoredVerdicts_update s"
| "count_one CNotes s = bump NotesDelivered_update s"
| "count_one CThinks s = bump ThinksDispatched_update s"
| "count_one CNak s = bump NakTotal_update s"
| "count_one CInflight s = bump InflightThinking_update s"

datatype 'a action =
    Count counter
  | LogLine level string
  | NakLogged JsMsg
  | NakQuiet JsMsg
  | AckMsg JsMsg
  | CallHook entity "'a any"
  | AddWG
  | Go "'a any" entity

text \<open>
  An action and what it makes the goroutine do next: log a failed NAK or acknowledgement, or
  count and log a panic of the note hook.
\<close>

fun act :: "('a, 'n) env \<Rightarrow> 'a action \<Rightarrow> ('a, 'n, 'z) rt_scheme \<Rightarrow> 'a action list \<times> ('a, 'n, 'z) rt_scheme" where
  "act env (Count c) s = ([], count_one c s)"
| "act env (LogLine l m) s = ([], log l m s)"
| "act env (NakLogged m) s =
     (case msg_Nak env m s of
        (None, s') \<Rightarrow> ([], s') | (Some _, s') \<Rightarrow> ([LogLine Warn ''nak failed''], s'))"
| "act env (NakQuiet m) s = ([], snd (msg_Nak env m s))"
| "act env (AckMsg m) s =
     (case msg_Ack env m s of
        (None, s') \<Rightarrow> ([], s') | (Some _, s') \<Rightarrow> ([LogLine Warn ''ack failed''], s'))"
| "act env (CallHook entity pl) s =
     (case OnNote (spec env) of
        None \<Rightarrow> ([], s)
      | Some hook \<Rightarrow>
          (let (r, n) = hook entity pl (net s);
               s1 = emit (ENote entity pl) (s\<lparr>net := n\<rparr>)
           in case r of
                Returned _ \<Rightarrow> ([], s1)
              | Panicked \<Rightarrow> ([Count CAwPanic, LogLine Error ''note hook panic''], s1)))"
| "act env AddWG s = ([], s\<lparr>thinkingWG := thinkingWG s + 1\<rparr>)"
| "act env (Go why entity) s =
     (let prog = (case Thinking (spec env) of None \<Rightarrow> ThPanic | Some f \<Rightarrow> f why entity)
      in ([], emit (ELaunch why entity)
            (s\<lparr>tasks := tasks s @ [\<lparr>task_entity = entity, task_prog = prog\<rparr>]\<rparr>)))"

section \<open>Stages of a message\<close>

text \<open>
  A message taken from a subject or a stream; the stages of its pipeline: not yet looked at, in
  awareness, and with the actions that are left.
\<close>

datatype incoming = FromSubject Message | FromStream JsMsg

fun message_of :: "incoming \<Rightarrow> Message" where
  "message_of (FromSubject msg) = msg"
| "message_of (FromStream m) = jm_message m"

datatype 'a stage =
    Waiting
  | Taken incoming
  | Looking incoming entity "'a aw_prog"
  | Acting "'a action list"

fun failure_actions :: "incoming \<Rightarrow> dispatchOutcome \<Rightarrow> 'a action list" where
  "failure_actions (FromSubject _) f =
     (if f = dispatchDecodeFail then [Count CDecode, LogLine Warn ''decode failure'']
      else [Count CExtract, LogLine Warn ''extraction failure''])"
| "failure_actions (FromStream m) f =
     (if f = dispatchDecodeFail
      then [Count CDecode, Count CNak, NakLogged m, LogLine Warn ''decode failure'']
      else [Count CExtract, Count CNak, NakLogged m, LogLine Warn ''extraction failure''])"

fun panic_actions :: "incoming \<Rightarrow> 'a action list" where
  "panic_actions (FromSubject _) = [LogLine Error ''awareness panic'', Count CAwPanic]"
| "panic_actions (FromStream m) =
     [LogLine Error ''awareness panic'', Count CAwPanic, Count CNak, NakQuiet m]"

definition verdict_actions :: "entity \<Rightarrow> 'a Verdict \<Rightarrow> 'a action list" where
  "verdict_actions entity v =
     (if kind v = verdictIgnore then [Count CIgnored]
      else if kind v = verdictNote then [Count CNotes, CallHook entity (payload v)]
      else if kind v = verdictThink
        then [Count CThinks, Count CInflight, AddWG, Go (reason v) (verdict_entity v)]
      else [])"

fun settle_actions :: "incoming \<Rightarrow> 'a action list" where
  "settle_actions (FromSubject _) = []"
| "settle_actions (FromStream m) = [AckMsg m]"

text \<open>One call of awareness on its context.\<close>

fun aw_step :: "'n awarenessCtx \<Rightarrow> 'a aw_prog \<Rightarrow> ('a, 'n, 'z) core_scheme \<Rightarrow> 'a aw_prog \<times> ('a, 'n, 'z) core_scheme" where
  "aw_step a (AwState name e k) s =
     (case ctx_State name e s of
        (Returned r, s') \<Rightarrow> (k r, s') | (Panicked, s') \<Rightarrow> (AwPanic, s'))"
| "aw_step a (AwGet p k) s = (k (StateRef_Get p (registry s)), s)"
| "aw_step a (AwSet p v k) s = (k, s\<lparr>registry := StateRef_Set p v (registry s)\<rparr>)"
| "aw_step a (AwUpdate p f k) s =
     (case StateRef_Update p f (registry s) of
        (Returned _, reg') \<Rightarrow> (k, s\<lparr>registry := reg'\<rparr>)
      | (Panicked, reg') \<Rightarrow> (AwPanic, s\<lparr>registry := reg'\<rparr>))"
| "aw_step a (AwRequest subject pl opts k) s =
     (let (r, s') = awareness_Request a subject pl opts s in (k r, s'))"
| "aw_step a p s = (p, s)"

text \<open>
  One step of a dispatcher; \<open>None\<close> is a decoder or extractor that panics, which ends the
  process.
\<close>

fun stage_step ::
  "('a, 'n) env \<Rightarrow> 'a ChannelSpec \<Rightarrow> 'a stage \<Rightarrow> ('a, 'n, 'z) rt_scheme \<Rightarrow>
   ('a stage \<times> ('a, 'n, 'z) rt_scheme) option" where
  "stage_step env ch Waiting s = Some (Waiting, s)"
| "stage_step env ch (Taken m) s =
     (case front ch (message_of m) of
        Panicked \<Rightarrow> None
      | Returned (Inl f) \<Rightarrow> Some (Acting (failure_actions m f), s)
      | Returned (Inr (decoded, entity)) \<Rightarrow>
          Some (Looking m entity (case Awareness (spec env) of None \<Rightarrow> AwPanic | Some f \<Rightarrow> f decoded entity),
                emit (EAwareness entity) s))"
| "stage_step env ch (Looking m entity (AwReturn v)) s =
     Some (Acting (settle_actions m @ verdict_actions entity v), s)"
| "stage_step env ch (Looking m entity AwPanic) s = Some (Acting (panic_actions m), s)"
| "stage_step env ch (Looking m entity p) s =
     (let (p', s') = aw_step (awareness env) p s in Some (Looking m entity p', s'))"
| "stage_step env ch (Acting []) s = Some (Waiting, s)"
| "stage_step env ch (Acting (a # as)) s = (let (extra, s') = act env a s in Some (Acting (extra @ as), s'))"

section \<open>One message alone\<close>

text \<open>What is left of a message's pipeline, taken without interruption.\<close>

fun acts_run :: "('a, 'n) env \<Rightarrow> 'a action list \<Rightarrow> ('a, 'n, 'z) rt_scheme \<Rightarrow> ('a, 'n, 'z) rt_scheme" where
  "acts_run env [] s = s"
| "acts_run env (a # as) s =
     (let (extra, s') = act env a s in acts_run env as (fold (\<lambda>b. snd \<circ> act env b) extra s'))"

fun stage_run ::
  "('a, 'n) env \<Rightarrow> 'a ChannelSpec \<Rightarrow> 'a stage \<Rightarrow> ('a, 'n, 'z) rt_scheme \<Rightarrow> ('a, 'n, 'z) rt_scheme option" where
  "stage_run env ch Waiting s = Some s"
| "stage_run env ch (Acting as) s = Some (acts_run env as s)"
| "stage_run env ch (Looking m entity p) s =
     Some (case aw_run (awareness env) p s of
             (Panicked, s') \<Rightarrow> acts_run env (panic_actions m) s'
           | (Returned v, s') \<Rightarrow> acts_run env (settle_actions m @ verdict_actions entity v) s')"
| "stage_run env ch (Taken m) s =
     (case m of
        FromSubject msg \<Rightarrow> (case dispatch env ch msg s of (Panicked, _) \<Rightarrow> None | (_, s') \<Rightarrow> Some s')
      | FromStream jm \<Rightarrow> (case dispatchStream env ch jm s of (Panicked, _) \<Rightarrow> None | (_, s') \<Rightarrow> Some s'))"

text \<open>The state an action leaves behind, whatever it makes the goroutine do next.\<close>

lemma act_state:
  assumes "act env a s = (extra, s')"
  shows "s' = (case a of
      Count c \<Rightarrow> count_one c s
    | LogLine l m \<Rightarrow> log l m s
    | NakLogged m \<Rightarrow> snd (msg_Nak env m s)
    | NakQuiet m \<Rightarrow> snd (msg_Nak env m s)
    | AckMsg m \<Rightarrow> snd (msg_Ack env m s)
    | CallHook e pl \<Rightarrow>
        (case OnNote (spec env) of
           None \<Rightarrow> s | Some hook \<Rightarrow> emit (ENote e pl) (s\<lparr>net := snd (hook e pl (net s))\<rparr>))
    | AddWG \<Rightarrow> s\<lparr>thinkingWG := thinkingWG s + 1\<rparr>
    | Go why e \<Rightarrow> emit (ELaunch why e) (s\<lparr>tasks := tasks s @ [\<lparr>task_entity = e,
        task_prog = (case Thinking (spec env) of None \<Rightarrow> ThPanic | Some f \<Rightarrow> f why e)\<rparr>]\<rparr>))"
  using assms
  by (cases a) (auto simp: Let_def split: prod.splits option.splits outcome.splits)

text \<open>The follow-up of an action has no follow-up of its own.\<close>

lemma act_more:
  assumes "act env a s = (extra, s')" and "b \<in> set extra"
  shows "(\<exists>l m. b = LogLine l m) \<or> b = Count CAwPanic"
  using assms by (cases a) (auto simp: Let_def split: prod.splits option.splits outcome.splits)

lemma acts_run_simple:
  "(\<And>b. b \<in> set extra \<Longrightarrow> (\<exists>l m. b = LogLine l m) \<or> b = Count CAwPanic) \<Longrightarrow>
   acts_run env (extra @ as) s = acts_run env as (fold (\<lambda>b. snd \<circ> act env b) extra s)"
  by (induction extra arbitrary: s) (fastforce simp: Let_def)+

lemma acts_run_append: "acts_run env (as @ bs) s = acts_run env bs (acts_run env as s)"
  by (induction as arbitrary: s) (simp_all add: Let_def split: prod.split)

lemma aw_step_run: "aw_run a p s = (case aw_step a p s of (p', s') \<Rightarrow> aw_run a p' s')"
  by (cases p) (simp_all add: Let_def split: prod.split outcome.split)

lemma verdict_actions_run: "acts_run env (verdict_actions entity v) s = verdict_switch env entity v s"
  by (simp add: verdict_actions_def verdict_switch_def invokeNote_def launchThinking_def Let_def
      split: option.split prod.split outcome.split)

text \<open>A step leaves what the whole pipeline does unchanged.\<close>

lemma taken_step:
  "stage_run env ch (Taken m) s =
     (case stage_step env ch (Taken m) s of None \<Rightarrow> None | Some (st, s') \<Rightarrow> stage_run env ch st s')"
proof -
  have f: "front ch (message_of m) = Returned (Inl f) \<Longrightarrow> f = dispatchDecodeFail \<or> f = dispatchExtractFail" for f
    by (rule front_failure)
  show ?thesis
    by (cases m)
       (auto simp: dispatch_front dispatchStream_front safeAwareness_def Let_def nakAndLog_def
          verdict_actions_run split: outcome.split sum.split prod.split option.split dest!: f)
qed


lemma looking_step:
  "\<not> (p = AwPanic \<or> (\<exists>v. p = AwReturn v)) \<Longrightarrow>
   stage_step env ch (Looking m e p) s =
     (case aw_step (awareness env) p s of (p', s') \<Rightarrow> Some (Looking m e p', s'))"
  by (cases p) (simp_all add: Let_def split: prod.split)

lemma stage_step_run:
  "stage_run env ch st s =
     (case stage_step env ch st s of None \<Rightarrow> None | Some (st', s') \<Rightarrow> stage_run env ch st' s')"
proof (cases st)
  case (Taken m)
  then show ?thesis by (simp only: taken_step)
next
  case (Looking m e p)
  show ?thesis
  proof (cases "p = AwPanic \<or> (\<exists>v. p = AwReturn v)")
    case False
    obtain p' s' where st: "aw_step (awareness env) p s = (p', s')" by fastforce
    have "aw_run (awareness env) p s = aw_run (awareness env) p' s'"
      using aw_step_run [of "awareness env" p s] by (simp add: st)
    with False st show ?thesis by (simp add: Looking looking_step)
  qed (auto simp: Looking)
next
  case (Acting as)
  show ?thesis
  proof (cases as)
    case (Cons a bs)
    obtain extra s' where a: "act env a s = (extra, s')" by fastforce
    show ?thesis using acts_run_simple [of extra env bs s'] act_more [OF a]
      by (simp add: Acting Cons a)
  qed (simp add: Acting)
qed simp

section \<open>Every message ends\<close>

text \<open>
  The step relation of one dispatcher, whatever the state it finds: other goroutines may have
  changed it since the last step.
\<close>

definition stage_next :: "('a, 'n) env \<Rightarrow> 'a ChannelSpec \<Rightarrow> ('a, 'n, 'z) rt_scheme itself \<Rightarrow> 'a stage \<Rightarrow> 'a stage \<Rightarrow> bool" where
  "stage_next env ch T st' st \<longleftrightarrow> st \<noteq> Waiting \<and> (\<exists>s s' :: ('a, 'n, 'z) rt_scheme. stage_step env ch st s = Some (st', s'))"

text \<open>The follow-ups weigh less than the action they follow.\<close>

definition weight :: "'a action \<Rightarrow> nat" where
  "weight a = (case a of Count _ \<Rightarrow> 1 | LogLine _ _ \<Rightarrow> 1 | AddWG \<Rightarrow> 1 | Go _ _ \<Rightarrow> 1 | _ \<Rightarrow> 3)"

lemma act_weight: "act env a s = (extra, s') \<Longrightarrow> sum_list (map weight extra) < weight a"
  by (cases a) (auto simp: weight_def Let_def split: prod.splits option.splits outcome.splits)

lemma ends_if:
  fixes T :: "('a, 'n, 'z) rt_scheme itself"
  assumes "\<And>st' (s :: ('a, 'n, 'z) rt_scheme) s'. st \<noteq> Waiting \<Longrightarrow> stage_step env ch st s = Some (st', s') \<Longrightarrow>
    Wellfounded.accp (stage_next env ch T) st'"
  shows "Wellfounded.accp (stage_next env ch T) st"
proof (rule accpI)
  fix st' assume "stage_next env ch T st' st"
  then show "Wellfounded.accp (stage_next env ch T) st'" using assms unfolding stage_next_def by blast
qed

lemma waiting_ends: "Wellfounded.accp (stage_next env ch T) Waiting"
  by (rule ends_if) simp

lemma acting_ends: "Wellfounded.accp (stage_next env ch T) (Acting as)"
proof (induction "sum_list (map weight as)" arbitrary: as rule: less_induct)
  case less
  show ?case
  proof (rule ends_if)
    fix st' :: "'a stage" and s s' :: "('a, 'b, 'c) rt_scheme"
    assume step: "stage_step env ch (Acting as) s = Some (st', s')"
    show "Wellfounded.accp (stage_next env ch T) st'"
    proof (cases as)
      case Nil
      then show ?thesis using step waiting_ends by simp
    next
      case (Cons a bs)
      obtain extra s1 where a: "act env a s = (extra, s1)" by (cases "act env a s")
      then have "st' = Acting (extra @ bs)" using step by (simp add: Cons)
      moreover have "sum_list (map weight (extra @ bs)) < sum_list (map weight as)"
        using act_weight [OF a] by (simp add: Cons)
      ultimately show ?thesis using less by blast
    qed
  qed
qed

lemma looking_ends: "Wellfounded.accp (stage_next env ch T) (Looking m e p)"
proof (induction p)
  case (AwReturn v)
  show ?case by (rule ends_if) (use acting_ends in auto)
next
  case AwPanic
  show ?case by (rule ends_if) (use acting_ends in auto)
next
  case (AwState name e' k)
  have "Wellfounded.accp (stage_next env ch T) (Looking m e AwPanic)"
    by (rule ends_if) (use acting_ends in auto)
  note panic = this
  show ?case
    by (rule ends_if) (use AwState panic in \<open>auto split: prod.splits outcome.splits\<close>)
next
  case (AwUpdate q f k)
  have "Wellfounded.accp (stage_next env ch T) (Looking m e AwPanic)"
    by (rule ends_if) (use acting_ends in auto)
  note panic = this
  show ?case
    by (rule ends_if) (use AwUpdate panic in \<open>auto split: prod.splits outcome.splits\<close>)
next
  case (AwGet q k)
  show ?case by (rule ends_if) (use AwGet in auto)
next
  case (AwSet q v k)
  show ?case by (rule ends_if) (use AwSet in auto)
next
  case (AwRequest subject pl opts k)
  show ?case by (rule ends_if) (use AwRequest in \<open>auto split: prod.splits\<close>)
qed

lemma stage_ends: "Wellfounded.accp (stage_next env ch T) st"
proof (cases st)
  case (Taken m)
  have "Wellfounded.accp (stage_next env ch T) (Taken m)"
    by (rule ends_if)
       (auto split: outcome.split_asm sum.split_asm prod.split_asm intro: acting_ends looking_ends)
  then show ?thesis by (simp only: Taken)
qed (simp_all add: waiting_ends acting_ends looking_ends)


section \<open>Properties\<close>

text \<open>So many steps of one dispatcher, with nobody in between.\<close>

fun run_alone ::
  "nat \<Rightarrow> ('a, 'n) env \<Rightarrow> 'a ChannelSpec \<Rightarrow> 'a stage \<Rightarrow> ('a, 'n, 'z) rt_scheme \<Rightarrow>
   ('a stage \<times> ('a, 'n, 'z) rt_scheme) option" where
  "run_alone 0 env ch st s = Some (st, s)"
| "run_alone (Suc k) env ch st s =
     (case stage_step env ch st s of None \<Rightarrow> None | Some (st', s') \<Rightarrow> run_alone k env ch st' s')"

lemma run_alone_waiting: "run_alone k env ch Waiting s = Some (Waiting, s)"
  by (induction k) simp_all

lemma run_alone_finishes:
  fixes s :: "('a, 'n, 'z) rt_scheme"
  shows "\<exists>k. \<forall>j. run_alone (k + j) env ch st s =
    (case stage_run env ch st s of None \<Rightarrow> None | Some s' \<Rightarrow> Some (Waiting, s'))"
  using stage_ends [of env ch "TYPE(('a, 'n, 'z) rt_scheme)" st]
proof (induction st arbitrary: s rule: accp.induct)
  case (accI st)
  show ?case
  proof (cases "st = Waiting")
    case True
    then show ?thesis by (simp add: run_alone_waiting)
  next
    case False
    show ?thesis
    proof (cases "stage_step env ch st s")
      case None
      then have "stage_run env ch st s = None" using stage_step_run [of env ch st s] by simp
      then show ?thesis using None by (intro exI [of _ 1]) simp
    next
      case (Some p)
      obtain st' s' where step: "stage_step env ch st s = Some (st', s')" using Some by (cases p) simp
      then have "stage_next env ch TYPE(('a, 'n, 'z) rt_scheme) st' st"
        using False by (auto simp: stage_next_def)
      then obtain k where "\<forall>j. run_alone (k + j) env ch st' s' =
          (case stage_run env ch st' s' of None \<Rightarrow> None | Some s'' \<Rightarrow> Some (Waiting, s''))"
        using accI.IH by blast
      moreover have "stage_run env ch st s = stage_run env ch st' s'"
        using stage_step_run [of env ch st s] by (simp add: step)
      ultimately show ?thesis using step by (intro exI [of _ "Suc k"]) simp
    qed
  qed
qed



end
