(* ===== verification/Pipeline_Run.thy ===== *)
theory Pipeline_Run
  imports Pipeline Harness
begin

text \<open>
  Dispatchers and thinking goroutines of a started imp, interleaved; and what holds of the
  counters, the acknowledgements and the wait group in between.
\<close>

section \<open>The system\<close>

record 'a dispatcher =
  d_channel :: "'a ChannelSpec"
  d_stage :: "'a stage"

text \<open>
  The last four fields count what happened, for stating properties: messages taken, those of
  them from streams, verdicts of none of the three kinds, and panics of the note hook.
\<close>

record ('a, 'n, 'z) system =
  imp_rt :: "('a, 'n, 'z) rt_scheme"
  dispatchers :: "'a dispatcher list"
  taken :: nat
  streamed :: nat
  dropped :: nat
  hook_panics :: nat

datatype pipe_move = TakeMsg nat incoming | WorkOn nat | StepTask nat

fun from_stream :: "incoming \<Rightarrow> nat" where
  "from_stream (FromSubject _) = 0" | "from_stream (FromStream _) = 1"

definition drops :: "'a stage \<Rightarrow> nat" where
  "drops st = (case st of Looking m e (AwReturn v) \<Rightarrow>
     (if kind v \<in> {verdictIgnore, verdictNote, verdictThink} then 0 else 1) | _ \<Rightarrow> 0)"

definition hook_fails :: "('a, 'n) env \<Rightarrow> 'a stage \<Rightarrow> ('a, 'n, 'z) rt_scheme \<Rightarrow> nat" where
  "hook_fails env st s = (case st of
     Acting (CallHook e pl # as) \<Rightarrow> if fst (act env (CallHook e pl) s) = [] then 0 else 1 | _ \<Rightarrow> 0)"

fun is_waiting :: "'a stage \<Rightarrow> bool" where
  "is_waiting Waiting = True" | "is_waiting _ = False"

lemma is_waiting_iff [simp]: "is_waiting st \<longleftrightarrow> st = Waiting"
  by (cases st) simp_all

text \<open>A dispatcher takes a message only when it is through with the one before.\<close>

fun pipe_step :: "('a, 'n) env \<Rightarrow> pipe_move \<Rightarrow> ('a, 'n, 'z) system \<Rightarrow> ('a, 'n, 'z) system option" where
  "pipe_step env (TakeMsg i m) w =
     (if i < length (dispatchers w) \<and> is_waiting (d_stage (dispatchers w ! i))
      then Some (w\<lparr>dispatchers := (dispatchers w)[i := (dispatchers w ! i)\<lparr>d_stage := Taken m\<rparr>],
                   taken := taken w + 1, streamed := streamed w + from_stream m\<rparr>)
      else Some w)"
| "pipe_step env (WorkOn i) w =
     (if i < length (dispatchers w) then
        (let d = dispatchers w ! i in
         case stage_step env (d_channel d) (d_stage d) (imp_rt w) of
           None \<Rightarrow> None
         | Some (st, s) \<Rightarrow>
             Some (w\<lparr>imp_rt := s, dispatchers := (dispatchers w)[i := d\<lparr>d_stage := st\<rparr>],
                     dropped := dropped w + drops (d_stage d),
                     hook_panics := hook_panics w + hook_fails env (d_stage d) (imp_rt w)\<rparr>))
      else Some w)"
| "pipe_step env (StepTask j) w = Some (w\<lparr>imp_rt := thinking_step env j (imp_rt w)\<rparr>)"

fun pipe_run :: "('a, 'n) env \<Rightarrow> pipe_move list \<Rightarrow> ('a, 'n, 'z) system \<Rightarrow> ('a, 'n, 'z) system option" where
  "pipe_run env [] w = Some w"
| "pipe_run env (mv # mvs) w =
     (case pipe_step env mv w of None \<Rightarrow> None | Some w' \<Rightarrow> pipe_run env mvs w')"

definition idle_system :: "'a ChannelSpec list \<Rightarrow> ('a, 'n, 'z) rt_scheme \<Rightarrow> ('a, 'n, 'z) system" where
  "idle_system chs s =
     \<lparr>imp_rt = s, dispatchers = map (\<lambda>ch. \<lparr>d_channel = ch, d_stage = Waiting\<rparr>) chs,
      taken = 0, streamed = 0, dropped = 0, hook_panics = 0\<rparr>"

section \<open>Tallies\<close>

text \<open>
  What the pending actions of a dispatcher still owe to a counter: a launch not yet counted, or
  counted and not yet made.
\<close>

fun owes_gauge :: "'a action \<Rightarrow> int" where
  "owes_gauge (Count CInflight) = -1" | "owes_gauge (Go _ _) = 1" | "owes_gauge _ = 0"

fun owes_wg :: "'a action \<Rightarrow> int" where
  "owes_wg AddWG = -1" | "owes_wg (Go _ _) = 1" | "owes_wg _ = 0"

fun owes_thinks :: "'a action \<Rightarrow> int" where
  "owes_thinks (Count CThinks) = -1" | "owes_thinks (Go _ _) = 1" | "owes_thinks _ = 0"

fun owes_naks :: "'a action \<Rightarrow> int" where
  "owes_naks (Count CNak) = -1" | "owes_naks (NakLogged _) = 1" | "owes_naks (NakQuiet _) = 1"
| "owes_naks _ = 0"

definition tally :: "('a action \<Rightarrow> int) \<Rightarrow> 'a stage \<Rightarrow> int" where
  "tally f st = (case st of Acting as \<Rightarrow> sum_list (map f as) | _ \<Rightarrow> 0)"

text \<open>Whether a message is still to be counted, or a stream message still to be settled.\<close>

fun outcome_action :: "'a action \<Rightarrow> nat" where
  "outcome_action (Count c) = (if c = CNak \<or> c = CInflight then 0 else 1)" | "outcome_action _ = 0"

fun settling_action :: "'a action \<Rightarrow> nat" where
  "settling_action (NakLogged _) = 1" | "settling_action (NakQuiet _) = 1"
| "settling_action (AckMsg _) = 1" | "settling_action _ = 0"

fun uncounted :: "'a stage \<Rightarrow> nat" where
  "uncounted Waiting = 0" | "uncounted (Taken _) = 1" | "uncounted (Looking _ _ _) = 1"
| "uncounted (Acting as) = sum_list (map outcome_action as)"

fun unsettled :: "'a stage \<Rightarrow> nat" where
  "unsettled Waiting = 0" | "unsettled (Taken m) = from_stream m" | "unsettled (Looking m _ _) = from_stream m"
| "unsettled (Acting as) = sum_list (map settling_action as)"

text \<open>The pending actions add to the wait group before they start the goroutine.\<close>

fun owes_in_order :: "'a action list \<Rightarrow> bool" where
  "owes_in_order [] = True"
| "owes_in_order (a # as) \<longleftrightarrow>
     0 \<le> sum_list (map owes_wg (a # as)) \<and> sum_list (map owes_wg (a # as)) \<le> 1 \<and>
     sum_list (map owes_wg (a # as)) \<le> sum_list (map owes_gauge (a # as)) \<and>
     sum_list (map owes_gauge (a # as)) \<le> 1 \<and> owes_in_order as"

fun stage_in_order :: "'a stage \<Rightarrow> bool" where
  "stage_in_order (Acting as) = owes_in_order as" | "stage_in_order _ = True"

definition outcomes :: "metrics \<Rightarrow> u64" where
  "outcomes m = DecodeFailures m + ExtractionFailures m + AwarenessPanics m + IgnoredVerdicts m +
     NotesDelivered m + ThinksDispatched m"

definition settlements :: "('a, 'n, 'z) io_scheme \<Rightarrow> nat" where
  "settlements s = count_calls is_ack s + count_calls is_nak s"

section \<open>One step\<close>

lemma kinds_distinct:
  "verdictIgnore \<noteq> verdictNote" "verdictIgnore \<noteq> verdictThink" "verdictNote \<noteq> verdictThink"
  by (simp_all add: verdictIgnore_def verdictNote_def verdictThink_def)

lemma aw_step_frame: "aw_frame s (snd (aw_step a p s))"
proof (cases p)
  case (AwState name e k)
  then show ?thesis using ctx_State_frame [of s name e]
    by (cases "ctx_State name e s") (simp split: outcome.split)
next
  case (AwSet q v k)
  then show ?thesis by (auto intro: aw_frame_registry Set_ok)
next
  case (AwUpdate q f k)
  have "aw_frame s (s\<lparr>registry := snd (StateRef_Update q f (registry s))\<rparr>)"
    by (intro aw_frame_registry Update_ok)
  then show ?thesis by (cases "StateRef_Update q f (registry s)") (simp add: AwUpdate split: outcome.split)
next
  case (AwRequest subject pl opts k)
  have "aw_frame s (snd (awareness_Request a subject pl opts s))"
    by (simp add: awareness_Request_def requestSingle_frame)
  then show ?thesis by (auto simp: AwRequest split: prod.split)
qed simp_all

text \<open>What an action does to the things the tallies are about.\<close>

definition moved :: "('a, 'n, 'z) rt_scheme \<Rightarrow> 'a action \<Rightarrow> ('a, 'n, 'z) rt_scheme \<Rightarrow> bool" where
  "moved s a s' \<longleftrightarrow>
     outcomes (mtr s') = outcomes (mtr s) + of_nat (outcome_action a) \<and>
     settlements s' = settlements s + settling_action a \<and>
     thinkingWG s' - int (length (tasks s')) = thinkingWG s - int (length (tasks s)) - owes_wg a \<and>
     InflightThinking (mtr s') - of_nat (length (tasks s')) =
       InflightThinking (mtr s) - of_nat (length (tasks s)) - of_int (owes_gauge a) \<and>
     ThinksDispatched (mtr s') - of_nat (count_calls is_launch s') =
       ThinksDispatched (mtr s) - of_nat (count_calls is_launch s) - of_int (owes_thinks a) \<and>
     NakTotal (mtr s') - of_nat (count_calls is_nak s') =
       NakTotal (mtr s) - of_nat (count_calls is_nak s) - of_int (owes_naks a) \<and>
     registry s' = registry s"

lemma count_moved: "moved s (Count c) (count_one c s)"
  by (cases c) (simp_all add: moved_def outcomes_def settlements_def count_calls_def)

lemma act_moved:
  assumes "act env a s = (extra, s')"
  shows "moved s a s'"
proof (cases a)
  case (Count c)
  then show ?thesis using assms count_moved by auto
qed (use act_state [OF assms] in \<open>auto simp: moved_def settlements_def count_calls_def calls_Cons split: option.splits\<close>)

text \<open>The follow-ups of an action owe nothing; a panic of the hook is one more outcome.\<close>

lemma act_extra:
  assumes "act env a s = (extra, s')"
  shows "sum_list (map owes_gauge extra) = 0" and "sum_list (map owes_wg extra) = 0"
    and "sum_list (map owes_thinks extra) = 0" and "sum_list (map owes_naks extra) = 0"
    and "sum_list (map settling_action extra) = 0"
    and "sum_list (map outcome_action extra) = hook_fails env (Acting (a # as)) s"
    and "owes_in_order (extra @ bs) = (owes_in_order bs \<and> (extra = [] \<or>
      (0 \<le> sum_list (map owes_wg bs) \<and> sum_list (map owes_wg bs) \<le> 1 \<and>
       sum_list (map owes_wg bs) \<le> sum_list (map owes_gauge bs) \<and> sum_list (map owes_gauge bs) \<le> 1)))"
  using assms
  by (cases a; auto simp: hook_fails_def Let_def split: prod.splits option.splits outcome.splits)+

lemma order_tail:
  assumes "owes_in_order as"
  shows "0 \<le> sum_list (map owes_wg as) \<and> sum_list (map owes_wg as) \<le> 1 \<and>
    sum_list (map owes_wg as) \<le> sum_list (map owes_gauge as) \<and> sum_list (map owes_gauge as) \<le> 1"
  using assms by (cases as) auto

text \<open>Where the pipeline's lists of actions come from, everything is in order and nothing owed.\<close>

lemma fresh_actions:
  "owes_in_order (verdict_actions e v)" "owes_in_order (settle_actions m @ verdict_actions e v)"
  "owes_in_order (failure_actions m f)" "owes_in_order (panic_actions m)"
  by (cases m; simp add: verdict_actions_def kinds_distinct kinds_distinct [symmetric])+

lemma fresh_tallies:
  assumes "as = settle_actions m @ verdict_actions e v \<or> as = failure_actions m f \<or> as = panic_actions m"
  shows "sum_list (map owes_gauge as) = 0 \<and> sum_list (map owes_wg as) = 0 \<and>
    sum_list (map owes_thinks as) = 0 \<and> sum_list (map owes_naks as) = 0 \<and>
    sum_list (map settling_action as) = from_stream m"
  using assms by (cases m; auto simp: verdict_actions_def split: if_splits)

lemma fresh_outcomes:
  "sum_list (map outcome_action (settle_actions m @ verdict_actions e v)) + drops (Looking m e (AwReturn v)) = 1"
  "sum_list (map outcome_action (failure_actions m f)) = 1"
  "sum_list (map outcome_action (panic_actions m)) = 1"
  by (cases m; auto simp: verdict_actions_def drops_def)+

text \<open>The balance of one dispatcher and the state, which every step of it keeps.\<close>

definition step_keeps :: "('a, 'n) env \<Rightarrow> 'a stage \<Rightarrow> ('a, 'n, 'z) rt_scheme \<Rightarrow> 'a stage \<Rightarrow> ('a, 'n, 'z) rt_scheme \<Rightarrow> bool" where
  "step_keeps env st s st' s' \<longleftrightarrow>
     outcomes (mtr s') + of_nat (uncounted st') + of_nat (drops st) =
       outcomes (mtr s) + of_nat (uncounted st) + of_nat (hook_fails env st s) \<and>
     settlements s' + unsettled st' = settlements s + unsettled st \<and>
     thinkingWG s' - int (length (tasks s')) - tally owes_wg st' = thinkingWG s - int (length (tasks s)) - tally owes_wg st \<and>
     InflightThinking (mtr s') - of_nat (length (tasks s')) - of_int (tally owes_gauge st') =
       InflightThinking (mtr s) - of_nat (length (tasks s)) - of_int (tally owes_gauge st) \<and>
     ThinksDispatched (mtr s') - of_nat (count_calls is_launch s') - of_int (tally owes_thinks st') =
       ThinksDispatched (mtr s) - of_nat (count_calls is_launch s) - of_int (tally owes_thinks st) \<and>
     NakTotal (mtr s') - of_nat (count_calls is_nak s') - of_int (tally owes_naks st') =
       NakTotal (mtr s) - of_nat (count_calls is_nak s) - of_int (tally owes_naks st) \<and>
     (registry_ok (registry s) \<longrightarrow> registry_ok (registry s')) \<and>
     (stage_in_order st \<longrightarrow> stage_in_order st')"

lemma act_keeps:
  assumes "act env a s = (extra, s')"
  shows "step_keeps env (Acting (a # as)) s (Acting (extra @ as)) s'"
proof -
  note m = act_moved [OF assms, unfolded moved_def] and x = act_extra [OF assms]
  have ord: "stage_in_order (Acting (a # as)) \<longrightarrow> stage_in_order (Acting (extra @ as))"
    using order_tail [of as] by (auto simp: x(7))
  have dr: "drops (Acting (a # as)) = 0" by (simp add: drops_def)
  show ?thesis
    using m ord unfolding step_keeps_def tally_def
    by (simp add: x(1-5) x(6) [of as] dr algebra_simps)
qed

text \<open>A call of awareness touches none of it.\<close>

lemma aw_frame_keeps:
  assumes "aw_frame s s'"
  shows "outcomes (mtr s') = outcomes (mtr s)" and "settlements s' = settlements s"
    and "InflightThinking (mtr s') = InflightThinking (mtr s)"
    and "ThinksDispatched (mtr s') = ThinksDispatched (mtr s)" and "NakTotal (mtr s') = NakTotal (mtr s)"
    and "count_calls is_launch s' = count_calls is_launch s" and "count_calls is_nak s' = count_calls is_nak s"
    and "registry_ok (registry s) \<longrightarrow> registry_ok (registry s')"
proof -
  obtain cs where cs: "calls (effects s') = calls (effects s) @ cs" "list_all is_request cs"
    using assms by (auto simp: aw_frame_def)
  have ack: "filter is_ack cs = []"
    using cs(2) by (induction cs) (auto elim: is_request.elims)
  show "settlements s' = settlements s" "count_calls is_launch s' = count_calls is_launch s"
    "count_calls is_nak s' = count_calls is_nak s"
    using cs(1) ack list_all_request_filters [OF cs(2)] by (simp_all add: settlements_def count_calls_def)
qed (use assms in \<open>simp_all add: aw_frame_def same_but_requests_def outcomes_def\<close>)

lemma stage_step_keeps:
  fixes s :: "('a, 'n, 'z) rt_scheme"
  assumes "stage_step env ch st s = Some (st', s')"
  shows "step_keeps env st s st' s'"
proof (cases st)
  case Waiting
  then show ?thesis using assms by (simp add: step_keeps_def drops_def hook_fails_def)
next
  case (Taken m)
  show ?thesis
  proof (cases "front ch (message_of m)")
    case (Returned r)
    show ?thesis
    proof (cases r)
      case (Inl f)
      define as where "as = (failure_actions m f :: 'a action list)"
      have st': "st' = Acting as" "s' = s" using assms Inl by (simp_all add: Taken Returned as_def)
      have "sum_list (map outcome_action as) = 1" "owes_in_order as"
        by (simp_all only: as_def fresh_outcomes fresh_actions)
      then show ?thesis using fresh_tallies [of as m _ _ f] as_def
        by (simp add: st' Taken step_keeps_def tally_def drops_def hook_fails_def)
    next
      case (Inr de)
      then show ?thesis using assms
        by (cases de) (auto simp: Taken Returned step_keeps_def tally_def drops_def hook_fails_def
            settlements_def count_calls_def calls_Cons)
    qed
  qed (use assms Taken in simp)
next
  case (Looking m e p)
  show ?thesis
  proof (cases "p = AwPanic \<or> (\<exists>v. p = AwReturn v)")
    case False
    obtain p' where st: "aw_step (awareness env) p s = (p', s')" "st' = Looking m e p'"
      using assms by (auto simp: Looking looking_step [OF False] split: prod.splits)
    have fr: "aw_frame s s'" using aw_step_frame [of s "awareness env" p] by (simp add: st)
    have "tasks s' = tasks s" "thinkingWG s' = thinkingWG s"
      using fr rt_core_more [of s' s] by (simp_all add: aw_frame_def)
    moreover have "drops (Looking m e p) = 0" using False by (cases p) (simp_all add: drops_def)
    ultimately show ?thesis using aw_frame_keeps [OF fr]
      by (simp add: Looking st step_keeps_def tally_def hook_fails_def)
  next
    case True
    then show ?thesis
    proof (elim disjE exE)
      assume p: "p = AwPanic"
      define as where "as = (panic_actions m :: 'a action list)"
      have st': "st' = Acting as" "s' = s" using assms by (simp_all add: Looking p as_def)
      have "sum_list (map outcome_action as) = 1" "owes_in_order as"
        by (simp_all only: as_def fresh_outcomes fresh_actions)
      then show ?thesis using fresh_tallies [of as m] as_def
        by (simp add: st' Looking p step_keeps_def tally_def drops_def hook_fails_def)
    next
      fix v assume p: "p = AwReturn v"
      let ?as = "settle_actions m @ verdict_actions e v"
      have st': "st' = Acting ?as" "s' = s" using assms by (simp_all add: Looking p)
      have "of_nat (sum_list (map outcome_action ?as)) + of_nat (drops (Looking m e (AwReturn v))) = (1 :: u64)"
        using arg_cong [OF fresh_outcomes(1) [of m e v], of "of_nat :: nat \<Rightarrow> u64"] by (simp only: of_nat_add of_nat_1)
      then show ?thesis using fresh_tallies [of ?as m e v] fresh_actions(2) [of m e v]
        unfolding st' Looking p step_keeps_def by (simp add: tally_def hook_fails_def add.assoc)
    qed
  qed
next
  case (Acting as)
  show ?thesis
  proof (cases as)
    case Nil
    then show ?thesis using assms by (auto simp: Acting step_keeps_def tally_def drops_def hook_fails_def)
  next
    case (Cons a bs)
    obtain extra s1 where a: "act env a s = (extra, s1)" by (cases "act env a s")
    then show ?thesis using assms act_keeps [OF a, of bs] by (auto simp: Acting Cons)
  qed
qed


section \<open>Thinking goroutines\<close>

text \<open>Their steps settle no message and count no outcome.\<close>

lemma requestMany_quiet:
  assumes "requestMany nc d subject pl ropts s = (Some r, s')"
  shows "settlements s' = settlements s"
proof -
  obtain cs where "calls (effects s') = calls (effects s) @ cs"
    "cs = [] \<or> (\<exists>i n. cs = [ESubscribe i n, EPublishRequest subject i pl, EUnsubscribe n])"
    using requestMany_calls [of nc d subject pl ropts s] assms by (auto simp: Let_def)
  then show ?thesis by (auto simp: settlements_def count_calls_def)
qed

lemma th_step_quiet:
  assumes "th_step r p s = Some (p', s')"
  shows "outcomes (mtr s') = outcomes (mtr s)" and "settlements s' = settlements s"
proof -
  have "same_but_requests (mtr s) (mtr s') \<and> settlements s' = settlements s"
  proof (cases p)
    case (ThRequest subject pl ropts k)
    with assms show ?thesis
      using requestSingle_same_but_requests [of s "th_conn r" "th_defaultRequestTimeout r" subject pl ropts]
        requestSingle_calls [of "th_conn r" "th_defaultRequestTimeout r" subject pl ropts s]
      by (auto simp: thinking_Request_def settlements_def count_calls_def split: prod.splits)
  next
    case (ThRequestMany subject pl ropts k)
    with assms obtain x where
      run: "requestMany (th_conn r) (th_defaultRequestManyWindow r) subject pl ropts s = (Some x, s')"
      by (auto simp: thinking_RequestMany_def split: prod.splits option.splits)
    show ?thesis
      using requestMany_same_but_requests [of s "th_conn r" "th_defaultRequestManyWindow r" subject pl ropts]
        requestMany_quiet [OF run] by (simp add: run)
  qed (use assms in \<open>auto simp: ctx_State_def thinking_Publish_def thinking_Conn_def settlements_def
      count_calls_def calls_Cons split: prod.splits outcome.splits\<close>)
  then show "outcomes (mtr s') = outcomes (mtr s)" and "settlements s' = settlements s"
    by (simp_all add: same_but_requests_def outcomes_def)
qed

lemma thinking_quiet:
  "outcomes (mtr (thinking_step env i s)) = outcomes (mtr s) \<and>
   settlements (thinking_step env i s) = settlements s"
proof (cases "i < length (tasks s)")
  case True
  let ?p = "task_prog (tasks s ! i)"
  have fin: "outcomes (mtr (finishThinking i r s)) = outcomes (mtr s) \<and>
      settlements (finishThinking i r s) = settlements s" for r
    by (auto simp: finishThinking_def Let_def outcomes_def settlements_def count_calls_def
        split: outcome.split option.split)
  have upd: "settlements (s'\<lparr>tasks := ts\<rparr>) = settlements s'" for s' :: "('a, 'b, 'c) rt_scheme" and ts
    by (simp add: settlements_def count_calls_def)
  show ?thesis
    using True fin upd
    by (auto simp: thinking_step_def simp del: th_step.simps split: th_prog.split option.split dest: th_step_quiet)
qed (simp add: thinking_step_def)

section \<open>The invariant\<close>

definition owed :: "('a action \<Rightarrow> int) \<Rightarrow> ('a, 'n, 'z) system \<Rightarrow> int" where
  "owed f w = sum_list (map (tally f \<circ> d_stage) (dispatchers w))"

definition pending_messages :: "('a, 'n, 'z) system \<Rightarrow> nat" where
  "pending_messages w = sum_list (map (uncounted \<circ> d_stage) (dispatchers w))"

definition pending_settlements :: "('a, 'n, 'z) system \<Rightarrow> nat" where
  "pending_settlements w = sum_list (map (unsettled \<circ> d_stage) (dispatchers w))"

definition system_ok :: "('a, 'n, 'z) system \<Rightarrow> bool" where
  "system_ok w \<longleftrightarrow>
     (let s = imp_rt w in
      outcomes (mtr s) + of_nat (pending_messages w) + of_nat (dropped w) =
        of_nat (taken w) + of_nat (hook_panics w) \<and>
      settlements s + pending_settlements w = streamed w \<and>
      thinkingWG s = int (length (tasks s)) + owed owes_wg w \<and>
      InflightThinking (mtr s) = of_nat (length (tasks s)) + of_int (owed owes_gauge w) \<and>
      ThinksDispatched (mtr s) = of_nat (count_calls is_launch s) + of_int (owed owes_thinks w) \<and>
      NakTotal (mtr s) = of_nat (count_calls is_nak s) + of_int (owed owes_naks w) \<and>
      registry_ok (registry s)) \<and>
     (\<forall>d \<in> set (dispatchers w). stage_in_order (d_stage d))"

lemma idle_system_ok: "system_ok (idle_system chs (new_rt ss n))"
proof -
  have zero: "sum_list (map (f \<circ> d_stage) (map (\<lambda>ch. \<lparr>d_channel = ch, d_stage = Waiting\<rparr>) chs)) = 0"
    if "f Waiting = 0" for f :: "'a stage \<Rightarrow> 'm :: comm_monoid_add"
    using that by (induction chs) simp_all
  show ?thesis
    by (simp add: system_ok_def idle_system_def owed_def pending_messages_def pending_settlements_def zero tally_def
        new_rt_def newMetrics_def outcomes_def settlements_def count_calls_def newRegistry_ok del: map_map)
qed

text \<open>Replacing the stage of one dispatcher.\<close>

lemma replace_stage:
  fixes f :: "'a stage \<Rightarrow> 'm :: comm_monoid_add"
  assumes "i < length ds"
  shows "sum_list (map (f \<circ> d_stage) (ds[i := (ds ! i)\<lparr>d_stage := st\<rparr>])) + f (d_stage (ds ! i)) =
    sum_list (map (f \<circ> d_stage) ds) + f st"
  using sum_list_replace [OF assms, of "f \<circ> d_stage" "(ds ! i)\<lparr>d_stage := st\<rparr>"] by simp

lemma in_order_update:
  assumes "\<forall>d \<in> set ds. stage_in_order (d_stage d)" and "stage_in_order st"
  shows "\<forall>d \<in> set (ds[i := x\<lparr>d_stage := st\<rparr>]). stage_in_order (d_stage d)"
  using assms by (auto dest!: subsetD [OF set_update_subset_insert])

lemma take_keeps:
  assumes "system_ok w" and "i < length (dispatchers w)" and "d_stage (dispatchers w ! i) = Waiting"
  shows "system_ok (w\<lparr>dispatchers := (dispatchers w)[i := (dispatchers w ! i)\<lparr>d_stage := Taken m\<rparr>],
                    taken := taken w + 1, streamed := streamed w + from_stream m\<rparr>)"
proof -
  note r = replace_stage [OF assms(2), where st = "Taken m"]
  have owed: "sum_list (map (tally f \<circ> d_stage) ((dispatchers w)[i := (dispatchers w ! i)\<lparr>d_stage := Taken m\<rparr>])) =
      sum_list (map (tally f \<circ> d_stage) (dispatchers w))" for f
    using r [of "tally f"] by (simp add: assms(3) tally_def)
  show ?thesis
    using assms(1) r [of uncounted] r [of unsettled] assms(3) in_order_update [of "dispatchers w" "Taken m" i]
    unfolding system_ok_def owed_def pending_messages_def pending_settlements_def
    by (simp add: owed Let_def algebra_simps)
qed

lemma work_keeps:
  assumes "system_ok w" and "i < length (dispatchers w)"
    and "stage_step env ch (d_stage (dispatchers w ! i)) (imp_rt w) = Some (st, s)"
  shows "system_ok (w\<lparr>imp_rt := s, dispatchers := (dispatchers w)[i := (dispatchers w ! i)\<lparr>d_stage := st\<rparr>],
      dropped := dropped w + drops (d_stage (dispatchers w ! i)),
      hook_panics := hook_panics w + hook_fails env (d_stage (dispatchers w ! i)) (imp_rt w)\<rparr>)"
proof -
  let ?ds = "(dispatchers w)[i := (dispatchers w ! i)\<lparr>d_stage := st\<rparr>]" and ?old = "d_stage (dispatchers w ! i)"
  note keeps = stage_step_keeps [OF assms(3), unfolded step_keeps_def]
  note r = replace_stage [OF assms(2), where st = st]
  have owed: "sum_list (map (tally f \<circ> d_stage) ?ds) =
      sum_list (map (tally f \<circ> d_stage) (dispatchers w)) - tally f ?old + tally f st" for f
    using r [of "tally f"] by simp
  have ord: "stage_in_order ?old" using assms(1,2) by (simp add: system_ok_def)
  have msgs: "of_nat (sum_list (map (uncounted \<circ> d_stage) ?ds)) + of_nat (uncounted ?old) =
      (of_nat (sum_list (map (uncounted \<circ> d_stage) (dispatchers w))) + of_nat (uncounted st) :: u64)"
    using arg_cong [OF r [of uncounted], of "of_nat :: nat \<Rightarrow> u64"] by (simp only: of_nat_add)
  define A where "A = (of_nat (sum_list (map (uncounted \<circ> d_stage) ?ds)) :: u64)"
  define B where "B = (of_nat (sum_list (map (uncounted \<circ> d_stage) (dispatchers w))) :: u64)"
  have AB: "A = B + of_nat (uncounted st) - of_nat (uncounted ?old)"
    using msgs by (simp add: A_def B_def algebra_simps)
  note inv = assms(1) [unfolded system_ok_def owed_def pending_messages_def pending_settlements_def Let_def, folded B_def]
  have c1: "outcomes (mtr s) + A + of_nat (dropped w + drops ?old) =
      of_nat (taken w) + of_nat (hook_panics w + hook_fails env ?old (imp_rt w))"
    using keeps inv unfolding AB by (simp add: algebra_simps)
  have c2: "settlements s + sum_list (map (unsettled \<circ> d_stage) ?ds) = streamed w"
    using keeps inv r [of unsettled] by linarith
  have c3: "thinkingWG s = int (length (tasks s)) + sum_list (map (tally owes_wg \<circ> d_stage) ?ds)"
    using keeps inv unfolding owed by linarith
  have c4: "InflightThinking (mtr s) = of_nat (length (tasks s)) + of_int (sum_list (map (tally owes_gauge \<circ> d_stage) ?ds))"
    using keeps inv unfolding owed by (simp add: algebra_simps)
  have c5: "ThinksDispatched (mtr s) = of_nat (count_calls is_launch s) + of_int (sum_list (map (tally owes_thinks \<circ> d_stage) ?ds))"
    using keeps inv unfolding owed by (simp add: algebra_simps)
  have c6: "NakTotal (mtr s) = of_nat (count_calls is_nak s) + of_int (sum_list (map (tally owes_naks \<circ> d_stage) ?ds))"
    using keeps inv unfolding owed by (simp add: algebra_simps)
  have c7: "registry_ok (registry s)" "\<forall>d \<in> set ?ds. stage_in_order (d_stage d)"
    using keeps inv ord in_order_update [of "dispatchers w" st i] by blast+
  show ?thesis
    using c1 c2 c3 c4 c5 c6 c7
    by (simp add: system_ok_def owed_def pending_messages_def pending_settlements_def A_def)
qed

lemma think_keeps:
  assumes "system_ok w"
  shows "system_ok (w\<lparr>imp_rt := thinking_step env j (imp_rt w)\<rparr>)"
proof -
  let ?s = "imp_rt w" and ?s' = "thinking_step env j (imp_rt w)"
  obtain cs where l: "calls (effects ?s') = calls (effects ?s) @ cs"
    "ThinksDispatched (mtr ?s') = ThinksDispatched (mtr ?s) + of_nat (length (filter is_launch cs))"
    "NakTotal (mtr ?s') = NakTotal (mtr ?s) + of_nat (length (filter is_nak cs))"
    "InflightThinking (mtr ?s') - InflightThinking (mtr ?s) = of_nat (length (tasks ?s')) - of_nat (length (tasks ?s))"
    "thinkingWG ?s' - thinkingWG ?s = int (length (tasks ?s')) - int (length (tasks ?s))"
    "registry_ok (registry ?s) \<longrightarrow> registry_ok (registry ?s')"
    using thinking_step_ledger [of ?s env j] unfolding ledger_step_def by blast
  have "InflightThinking (mtr ?s') = InflightThinking (mtr ?s) + (of_nat (length (tasks ?s')) - of_nat (length (tasks ?s)))"
    using l(4) by (simp add: algebra_simps)
  then show ?thesis
    using assms l thinking_quiet [of env j ?s]
    unfolding system_ok_def owed_def pending_messages_def pending_settlements_def
    by (simp add: Let_def count_calls_def algebra_simps)
qed

lemma pipe_step_ok:
  assumes "system_ok w" and "pipe_step env mv w = Some w'"
  shows "system_ok w'"
proof (cases mv)
  case (TakeMsg i m)
  then show ?thesis using assms take_keeps [OF assms(1)] by (auto split: if_splits)
next
  case (WorkOn i)
  then show ?thesis using assms work_keeps [OF assms(1)] by (auto simp: Let_def split: if_splits option.splits)
next
  case (StepTask j)
  then show ?thesis using assms think_keeps [OF assms(1)] by auto
qed

lemma pipe_run_ok: "system_ok w \<Longrightarrow> pipe_run env mvs w = Some w' \<Longrightarrow> system_ok w'"
  by (induction mvs arbitrary: w) (auto split: option.splits dest: pipe_step_ok)


section \<open>Properties\<close>

lemma stage_order_tallies:
  "stage_in_order st \<Longrightarrow> 0 \<le> tally owes_wg st \<and> tally owes_wg st \<le> tally owes_gauge st \<and> tally owes_gauge st \<le> 1"
  using order_tail by (cases st) (auto simp: tally_def)

lemma owed_bounds:
  assumes "\<forall>d \<in> set ds. stage_in_order (d_stage d)"
  shows "0 \<le> sum_list (map (tally owes_wg \<circ> d_stage) ds) \<and>
    sum_list (map (tally owes_wg \<circ> d_stage) ds) \<le> sum_list (map (tally owes_gauge \<circ> d_stage) ds) \<and>
    sum_list (map (tally owes_gauge \<circ> d_stage) ds) \<le> int (length ds)"
  using assms
proof (induction ds)
  case (Cons d ds)
  then have d: "stage_in_order (d_stage d)" and rest: "\<forall>x \<in> set ds. stage_in_order (d_stage x)" by simp_all
  show ?case using stage_order_tallies [OF d] Cons.IH [OF rest] by simp
qed simp

lemma all_waiting:
  assumes "\<forall>d \<in> set ds. d_stage d = Waiting" and "f Waiting = 0"
  shows "sum_list (map (f \<circ> d_stage) ds) = (0 :: 'm :: comm_monoid_add)"
  using assms by (induction ds) simp_all

text \<open>
  No message is lost or counted twice, at any moment of any interleaving: the messages
  taken are those counted as failed, ignored, noted or thought about, plus those whose outcome
  is still to be counted, plus those whose verdict is none of the three kinds; a panic of the
  note hook is counted on top, as one more awareness panic (the counters wrap at 64 bits). And
  every stream message has been acknowledged or refused exactly once, or is still to be. When
  all dispatchers wait, nothing is pending.
\<close>

theorem messages_conserved:
  assumes "pipe_run env mvs (idle_system chs (new_rt ss n)) = Some w"
  shows "outcomes (mtr (imp_rt w)) + of_nat (pending_messages w) + of_nat (dropped w) =
      of_nat (taken w) + of_nat (hook_panics w) \<and>
    settlements (imp_rt w) + pending_settlements w = streamed w \<and>
    ((\<forall>d \<in> set (dispatchers w). d_stage d = Waiting) \<longrightarrow> pending_messages w = 0 \<and> pending_settlements w = 0)"
proof -
  have "system_ok w" by (rule pipe_run_ok [OF idle_system_ok assms])
  then show ?thesis
    using all_waiting [of "dispatchers w" uncounted] all_waiting [of "dispatchers w" unsettled]
    by (simp add: system_ok_def Let_def pending_messages_def pending_settlements_def)
qed



section \<open>A run\<close>

text \<open>
  Two channels; a stream message that is thought about and a subject message that is noted, with
  their steps interleaved.
\<close>

definition demo_pipes :: "(string, loop, unit) system" where
  "demo_pipes = idle_system [demo_stream_channel, demo_channel ''in'' (SubjectSource ''actions'')] (new_rt [] loop0)"

definition demo_stream_msg :: incoming where
  "demo_stream_msg = FromStream \<lparr>jm_message = demo_message ''think'', jm_handle = 4\<rparr>"

definition demo_moves :: "pipe_move list" where
  "demo_moves =
     [TakeMsg 0 demo_stream_msg, TakeMsg 1 (FromSubject (demo_message ''note'')), WorkOn 1, WorkOn 0, WorkOn 0,
      WorkOn 1, WorkOn 0, WorkOn 1, WorkOn 0, WorkOn 0, WorkOn 0, WorkOn 0]"

fun pending_actions :: "'a stage \<Rightarrow> 'a action list" where
  "pending_actions (Acting as) = as" | "pending_actions _ = []"

lemma demo_pipes_run:
  "map_option (\<lambda>w. (taken w, streamed w, map (length \<circ> pending_actions \<circ> d_stage) (dispatchers w),
       settlements (imp_rt w), thinkingWG (imp_rt w), length (tasks (imp_rt w))))
     (pipe_run demo_env demo_moves demo_pipes) =
   Some (2, 1, [1, 1], 1, 1, 0)"
  by code_simp

lemma demo_pipes_exists: "\<exists>w. pipe_run demo_env demo_moves demo_pipes = Some w \<and> taken w = 2 \<and> streamed w = 1 \<and>
    settlements (imp_rt w) = 1 \<and> thinkingWG (imp_rt w) = 1 \<and> tasks (imp_rt w) = []"
  using demo_pipes_run by (cases "pipe_run demo_env demo_moves demo_pipes") auto

theorem messages_conserved_witness:
  "\<exists>w. pipe_run demo_env demo_moves demo_pipes = Some w \<and> pending_settlements w = 0 \<and>
     outcomes (mtr (imp_rt w)) + of_nat (pending_messages w) + of_nat (dropped w) = 2 + of_nat (hook_panics w)"
proof -
  obtain w where w: "pipe_run demo_env demo_moves demo_pipes = Some w" "taken w = 2" "streamed w = 1"
    "settlements (imp_rt w) = 1" using demo_pipes_exists by blast
  from messages_conserved [OF w(1) [unfolded demo_pipes_def]] w show ?thesis by auto
qed


end
