(* ===== verification/Harness_Pipeline.thy ===== *)
theory Harness_Pipeline
  imports Harness_Properties Pipeline_Run
begin

text \<open>
  The whole harness at the grain of single steps: the blocks of \<open>Run\<close> and \<open>Shutdown\<close>, the
  dispatchers of the channels bound so far and the thinking goroutines interleave. A dispatcher
  comes with its subscription and takes messages while the subscription is open; a message it
  has taken it carries through the pipeline, whatever \<open>Shutdown\<close> does meanwhile.
\<close>

section \<open>The system\<close>

record ('a, 'n) harness =
  h_world :: "('a, 'n) world"
  h_dispatchers :: "'a dispatcher list"
  h_taken :: nat
  h_streamed :: nat
  h_dropped :: nat
  h_hook_panics :: nat

datatype 'a h_move = Lifecycle "'a move" | Pipe pipe_move

text \<open>The part of the harness that its pipelines work on, and the way back.\<close>

definition view :: "('a, 'n) harness \<Rightarrow> ('a, 'n) runtime \<Rightarrow> _" where
  "view h rt =
     \<lparr>imp_rt = rt, dispatchers = h_dispatchers h, taken = h_taken h, streamed = h_streamed h,
      dropped = h_dropped h, hook_panics = h_hook_panics h\<rparr>"

definition put_rt :: "('a, 'n) runtime \<Rightarrow> ('a, 'n) harness \<Rightarrow> ('a, 'n) harness" where
  "put_rt rt h = h\<lparr>h_world := (h_world h)\<lparr>the_imp := (the_imp (h_world h))\<lparr>rtPtr := Some rt\<rparr>\<rparr>\<rparr>"

definition put_view where
  "put_view s h =
     (put_rt (imp_rt s) h)\<lparr>h_dispatchers := dispatchers s, h_taken := taken s, h_streamed := streamed s,
        h_dropped := dropped s, h_hook_panics := hook_panics s\<rparr>"

definition the_rt :: "('a, 'n) harness \<Rightarrow> ('a, 'n) runtime option" where
  "the_rt h = rtPtr (the_imp (h_world h))"

text \<open>
  The client starts a goroutine for every subscription it opens, and hands it messages until
  the subscription is closed.
\<close>

definition new_pipes :: "'a dispatcher list \<Rightarrow> 'a channelState list \<Rightarrow> 'a dispatcher list" where
  "new_pipes ds chs = ds @ map (\<lambda>cs. \<lparr>d_channel = cs_spec cs, d_stage = Waiting\<rparr>) (drop (length ds) chs)"

fun open_for :: "incoming \<Rightarrow> 'a channelState \<Rightarrow> bool" where
  "open_for (FromSubject _) cs \<longleftrightarrow> cs_subscription cs \<noteq> None"
| "open_for (FromStream _) cs \<longleftrightarrow> cs_streamConsume cs \<noteq> None"

fun pipe_enabled :: "pipe_move \<Rightarrow> 'a channelState list \<Rightarrow> bool" where
  "pipe_enabled (TakeMsg i m) chs \<longleftrightarrow> i < length chs \<and> open_for m (chs ! i)"
| "pipe_enabled _ chs \<longleftrightarrow> True"

fun is_event :: "'a move \<Rightarrow> bool" where
  "is_event (Event _) = True" | "is_event _ = False"

fun h_step :: "'a h_move \<Rightarrow> ('a, 'n) harness \<Rightarrow> ('a, 'n) harness outcome option" where
  "h_step (Lifecycle mv) h =
     (if is_event mv then None
      else case move mv (h_world h) of
        None \<Rightarrow> None
      | Some Panicked \<Rightarrow> Some Panicked
      | Some (Returned w) \<Rightarrow>
          Some (Returned (h\<lparr>h_world := w, h_dispatchers :=
            (case rtPtr (the_imp w) of None \<Rightarrow> [] | Some rt \<Rightarrow> new_pipes (h_dispatchers h) (channels rt))\<rparr>)))"
| "h_step (Pipe pm) h =
     (case the_rt h of
        None \<Rightarrow> None
      | Some rt \<Rightarrow>
          (if pipe_enabled pm (channels rt) then
             (case pipe_step (imp_env (the_imp (h_world h))) pm (view h rt) of
                None \<Rightarrow> Some Panicked
              | Some s \<Rightarrow> Some (Returned (put_view s h)))
           else None))"

definition new_harness :: "('a, 'n) Imp \<Rightarrow> 'n \<Rightarrow> ('a, 'n) harness" where
  "new_harness i n =
     \<lparr>h_world = new_world i n, h_dispatchers = [], h_taken = 0, h_streamed = 0, h_dropped = 0, h_hook_panics = 0\<rparr>"

inductive h_reach :: "('a, 'n) harness \<Rightarrow> ('a, 'n) harness \<Rightarrow> bool" for h0 where
  h_start: "h_reach h0 h0"
| h_next: "h_reach h0 h \<Longrightarrow> h_step m h = Some (Returned h') \<Longrightarrow> h_reach h0 h'"

section \<open>What the pipelines leave to the lifecycle\<close>

definition worked :: "('a, 'n, 'z) rt_scheme \<Rightarrow> ('a, 'n, 'z) rt_scheme \<Rightarrow> bool" where
  "worked s s' \<longleftrightarrow> rt.more s' = rt.more s \<and> (\<exists>cs. calls (effects s') = calls (effects s) @ cs \<and> balanced cs)"

lemma worked_refl [simp]: "worked s s"
  by (auto simp: worked_def intro: exI [of _ "[]"])

lemma ledger_worked: "ledger_step s s' \<Longrightarrow> worked s s'"
  by (auto simp: ledger_step_def worked_def)

lemma count_worked: "worked s (count_one c s)"
  by (cases c) (simp_all add: worked_def)

lemma act_worked: "act env a s = (extra, s') \<Longrightarrow> worked s s'"
  using act_state [of env a s extra s'] count_worked
  by (cases a) (auto simp: worked_def calls_Cons split: option.splits)

lemma stage_worked:
  fixes s :: "('a, 'n, 'z) rt_scheme"
  assumes "stage_step env ch st s = Some (st', s')"
  shows "worked s s'"
proof (cases st)
  case (Taken m)
  then show ?thesis using assms
    by (auto simp: worked_def calls_Cons split: outcome.splits sum.splits)
next
  case (Looking m e p)
  show ?thesis
  proof (cases "p = AwPanic \<or> (\<exists>v. p = AwReturn v)")
    case False
    obtain p' where st: "aw_step (awareness env) p s = (p', s')"
      using assms by (auto simp: Looking looking_step [OF False] split: prod.splits)
    have fr: "aw_frame s s'" using aw_step_frame [of s "awareness env" p] by (simp add: st)
    then show ?thesis using rt_core_more(3) [of s' s] balanced_requests by (auto simp: aw_frame_def worked_def)
  qed (use assms Looking in auto)
next
  case (Acting as)
  then show ?thesis using assms act_worked by (cases as) (auto simp: Let_def split: prod.splits)
qed (use assms in simp)

lemma core_ok_worked:
  assumes "worked rt rt'" and "core_ok rt ps"
  shows "core_ok rt' ps"
proof -
  obtain cs where cs: "calls (effects rt') = calls (effects rt) @ cs" "balanced cs"
    using assms(1) by (auto simp: worked_def)
  have "rt.more rt' = rt.more rt" using assms(1) by (simp add: worked_def)
  note f = rt_more_fields [OF this]
  show ?thesis
    using assms(2)
    by (simp add: core_ok_def handles_ok_def released_def f count_calls_def cs(1) balanced_counts [OF cs(2)])
qed

section \<open>What the lifecycle leaves to the pipelines\<close>

definition same_ledger :: "('a, 'n) runtime \<Rightarrow> ('a, 'n) runtime \<Rightarrow> bool" where
  "same_ledger rt rt' \<longleftrightarrow>
     mtr rt' = mtr rt \<and> tasks rt' = tasks rt \<and> thinkingWG rt' = thinkingWG rt \<and> registry rt' = registry rt \<and>
     settlements rt' = settlements rt \<and> count_calls is_launch rt' = count_calls is_launch rt \<and>
     count_calls is_nak rt' = count_calls is_nak rt"

lemma quiet_ack [simp]: "quiet is_ack"
proof -
  have "is_binding e \<Longrightarrow> \<not> is_ack e" for e :: "'a effect" by (cases e) auto
  then show ?thesis by (simp add: quiet_def)
qed

lemma block_same_ledger:
  assumes "run_block i cn f p rt = Some (Returned (q, rt'))"
  shows "same_ledger rt rt'"
proof -
  have "same_ledger rt rt2" if "bound rt rt2" for rt2
    using that by (simp add: same_ledger_def bound_def untouched_def settlements_def)
  moreover have "same_ledger rt rt2" if "same_resources rt rt2" for rt2
    using that by (simp add: same_ledger_def same_resources_def settlements_def count_calls_def)
  ultimately show ?thesis using run_block_resources [OF assms] bind_channel_bound unwind_bound by blast
qed

lemma new_pipes_idle: "\<exists>chs. new_pipes ds cs = ds @ map (\<lambda>ch. \<lparr>d_channel = ch, d_stage = Waiting\<rparr>) chs"
  by (intro exI [of _ "map cs_spec (drop (length ds) cs)"]) (simp add: new_pipes_def comp_def)

lemma idle_sum:
  assumes "f Waiting = 0"
  shows "sum_list (map (f \<circ> d_stage) (new_pipes ds cs)) = (sum_list (map (f \<circ> d_stage) ds) :: 'm :: comm_monoid_add)"
proof -
  obtain chs where n: "new_pipes ds cs = ds @ map (\<lambda>ch. \<lparr>d_channel = ch, d_stage = Waiting\<rparr>) chs"
    using new_pipes_idle by blast
  have "sum_list (map (f \<circ> d_stage) (map (\<lambda>ch. \<lparr>d_channel = ch, d_stage = Waiting\<rparr>) chs)) = 0"
    using assms by (induction chs) simp_all
  then show ?thesis by (simp add: n del: map_map)
qed

lemma new_pipes_set: "d \<in> set (new_pipes ds cs) \<Longrightarrow> d \<in> set ds \<or> d_stage d = Waiting"
  by (auto simp: new_pipes_def)

lemma view_ok_block:
  assumes "system_ok (view h rt)" and "same_ledger rt rt'"
  shows "system_ok (view (h\<lparr>h_world := w, h_dispatchers := new_pipes (h_dispatchers h) cs\<rparr>) rt')"
proof -
  have t: "tally f Waiting = 0" for f :: "'a action \<Rightarrow> int" by (simp add: tally_def)
  have "\<forall>d \<in> set (new_pipes (h_dispatchers h) cs). stage_in_order (d_stage d)"
    using assms(1) new_pipes_set [of _ "h_dispatchers h" cs] by (fastforce simp: system_ok_def view_def)
  then show ?thesis
    using assms
    by (simp add: system_ok_def view_def owed_def pending_messages_def pending_settlements_def same_ledger_def
        idle_sum [where f = "tally _", OF t] idle_sum [where f = uncounted] idle_sum [where f = unsettled])
qed

lemma view_ok_new:
  assumes "h_dispatchers h = []" "h_taken h = 0" "h_streamed h = 0" "h_dropped h = 0" "h_hook_panics h = 0"
  shows "system_ok (view (h\<lparr>h_world := w, h_dispatchers := new_pipes (h_dispatchers h) (channels (new_runtime i n))\<rparr>) (new_runtime i n))"
  using assms
  by (simp add: system_ok_def view_def owed_def pending_messages_def pending_settlements_def new_pipes_def
      new_runtime_def rt.defs new_rt_def newMetrics_def outcomes_def settlements_def count_calls_def newRegistry_ok)

section \<open>The goroutines still to come\<close>

text \<open>How many thinking goroutines a message in the pipeline may still start.\<close>

fun is_go :: "'a action \<Rightarrow> bool" where
  "is_go (Go _ _) = True" | "is_go _ = False"

fun to_launch :: "'a stage \<Rightarrow> nat" where
  "to_launch Waiting = 0" | "to_launch (Taken _) = 1" | "to_launch (Looking _ _ _) = 1"
| "to_launch (Acting as) = length (filter is_go as)"

lemma act_launch:
  assumes "act env a s = (extra, s')"
  shows "length (tasks s') = length (tasks s) + (if is_go a then 1 else 0)" and "filter is_go extra = []"
proof -
  have "tasks (count_one c s) = tasks s" for c by (cases c) simp_all
  then show "length (tasks s') = length (tasks s) + (if is_go a then 1 else 0)"
    using act_state [OF assms] by (cases a) (auto split: option.splits)
  show "filter is_go extra = []" using act_more [OF assms] by (fastforce simp: filter_empty_conv)
qed

lemma go_counts:
  "filter is_go (settle_actions m) = []" "length (filter is_go (verdict_actions e v)) \<le> Suc 0"
  "filter is_go (failure_actions m f) = []" "filter is_go (panic_actions m) = []"
  by (cases m; simp add: verdict_actions_def)+

lemma stage_launch:
  fixes s :: "('a, 'n, 'z) rt_scheme"
  assumes "stage_step env ch st s = Some (st', s')"
  shows "length (tasks s') + to_launch st' \<le> length (tasks s) + to_launch st \<and> to_launch st' \<le> to_launch st"
proof (cases st)
  case (Taken m)
  then show ?thesis using assms by (auto simp: go_counts split: outcome.splits sum.splits)
next
  case (Looking m e p)
  show ?thesis
  proof (cases "p = AwPanic \<or> (\<exists>v. p = AwReturn v)")
    case False
    obtain p' where st: "aw_step (awareness env) p s = (p', s')" "st' = Looking m e p'"
      using assms by (auto simp: Looking looking_step [OF False] split: prod.splits)
    have "aw_frame s s'" using aw_step_frame [of s "awareness env" p] by (simp add: st)
    then show ?thesis using rt_core_more(1) [of s' s] by (simp add: aw_frame_def Looking st)
  qed (use assms Looking in \<open>auto simp: go_counts\<close>)
next
  case (Acting as)
  show ?thesis
  proof (cases as)
    case (Cons a bs)
    obtain extra s1 where a: "act env a s = (extra, s1)" by (cases "act env a s")
    then show ?thesis using assms act_launch [OF a] by (auto simp: Acting Cons)
  qed (use assms Acting in auto)
qed (use assms in simp)

lemma thinking_launch: "length (tasks (thinking_step env j s)) \<le> length (tasks s)"
proof (cases "j < length (tasks s)")
  case True
  let ?p = "task_prog (tasks s ! j)"
  have fin: "length (tasks (finishThinking j r s)) \<le> length (tasks s)" for r
    using True by (auto simp: finishThinking_def Let_def split: outcome.split option.split)
  show ?thesis
  proof (cases "(\<exists>e. ?p = ThReturn e) \<or> ?p = ThPanic")
    case True
    then show ?thesis using fin by (auto simp: thinking_step_def)
  next
    case False
    have step: "thinking_step env j s = (case th_step (thinking env) ?p s of
        None \<Rightarrow> s | Some (p', s') \<Rightarrow> s'\<lparr>tasks := (tasks s')[j := (tasks s' ! j)\<lparr>task_prog := p'\<rparr>]\<rparr>)"
      using True False by (cases ?p) (simp_all add: thinking_step_def del: th_step.simps)
    show ?thesis
    proof (cases "th_step (thinking env) ?p s")
      case (Some x)
      then show ?thesis using th_step_ledger [of "thinking env" ?p s] by (cases x) (simp add: step)
    qed (simp add: step)
  qed
qed (simp add: thinking_step_def)

section \<open>The invariant\<close>

definition h_ok :: "('a, 'n) harness \<Rightarrow> bool" where
  "h_ok h \<longleftrightarrow>
     (case the_rt h of
        None \<Rightarrow> (\<forall>p \<in> set (procs (h_world h)). early p) \<and> h_dispatchers h = [] \<and> h_taken h = 0 \<and>
          h_streamed h = 0 \<and> h_dropped h = 0 \<and> h_hook_panics h = 0
      | Some rt \<Rightarrow> rtOnce (the_imp (h_world h)) \<and> core_ok rt (procs (h_world h)) \<and> system_ok (view h rt)) \<and>
     (\<forall>d \<in> set (h_dispatchers h). to_launch (d_stage d) \<le> 1)"

lemma new_pipes_launch:
  "\<forall>d \<in> set ds. to_launch (d_stage d) \<le> 1 \<Longrightarrow> \<forall>d \<in> set (new_pipes ds cs). to_launch (d_stage d) \<le> 1"
  using new_pipes_set [of _ ds cs] by fastforce

lemma same_ledger_refl [simp]: "same_ledger rt rt"
  by (simp add: same_ledger_def)

lemma h_step_block:
  assumes ok: "h_ok h" and rt: "the_rt h = Some rt" and w: "rtPtr (the_imp w) = Some rt'"
    and once: "rtOnce (the_imp w)" and core: "core_ok rt' (procs w)" and led: "same_ledger rt rt'"
  shows "h_ok (h\<lparr>h_world := w, h_dispatchers := new_pipes (h_dispatchers h) (channels rt')\<rparr>)"
  using ok view_ok_block [OF _ led, where h = h and w = w] new_pipes_launch [of "h_dispatchers h" "channels rt'"]
  by (simp add: h_ok_def rt [unfolded the_rt_def] the_rt_def w once core)

lemma h_lifecycle_ok:
  assumes ok: "h_ok h" and ev: "\<not> is_event mv" and mv: "move mv (h_world h) = Some (Returned w)"
  shows "h_ok (h\<lparr>h_world := w, h_dispatchers :=
    (case rtPtr (the_imp w) of None \<Rightarrow> [] | Some rt \<Rightarrow> new_pipes (h_dispatchers h) (channels rt))\<rparr>)"
proof (cases "the_rt h")
  case None
  then have n: "rtPtr (the_imp (h_world h)) = None" "\<forall>p \<in> set (procs (h_world h)). early p" "h_dispatchers h = []"
    "h_taken h = 0" "h_streamed h = 0" "h_dropped h = 0" "h_hook_panics h = 0"
    using ok by (simp_all add: h_ok_def the_rt_def)
  have idle: "rtPtr (the_imp w) = None \<Longrightarrow> \<forall>p \<in> set (procs w). early p \<Longrightarrow> ?thesis"
    using n by (simp add: h_ok_def the_rt_def)
  show ?thesis
  proof (cases mv)
    case (Step k f)
    obtain q i' where k: "k < length (procs (h_world h))"
      and st: "proc_step (k \<in> set (cancelled_runs (h_world h))) f (boot_net (h_world h)) (procs (h_world h) ! k)
        (the_imp (h_world h)) = Some (Returned (q, i'))"
      and w: "w = (h_world h)\<lparr>the_imp := i', procs := (procs (h_world h))[k := q]\<rparr>"
      using move_stepE [OF mv [unfolded Step]] .
    show ?thesis using st
    proof (cases rule: proc_step_cases)
      case (boot r)
      have q: "early q" using boot by (auto split: option.split)
      have early: "\<forall>p \<in> set ((procs (h_world h))[k := q]). early p" using n(2) q early_update by blast
      show ?thesis using boot(2)
      proof (cases rule: bootRuntime_cases)
        case 3
        then show ?thesis
          using view_ok_new [OF n(3-7)] new_runtime_core [OF early] n(3)
          by (simp add: h_ok_def the_rt_def w new_pipes_def)
      qed (use idle n early w in auto)
    next
      case unbooted
      then show ?thesis using idle n early_update [of "procs (h_world h)" q k] by (simp add: w)
    next
      case (block rt1 rt2)
      then show ?thesis using n(1) by simp
    qed
  qed (use mv n ev idle in \<open>auto simp: move_def\<close>)
next
  case (Some rt)
  then have r: "rtPtr (the_imp (h_world h)) = Some rt" "rtOnce (the_imp (h_world h))" "core_ok rt (procs (h_world h))"
    using ok by (simp_all add: h_ok_def the_rt_def)
  have next_ok: "rtPtr (the_imp w) = Some rt' \<Longrightarrow> rtOnce (the_imp w) \<Longrightarrow> core_ok rt' (procs w) \<Longrightarrow> same_ledger rt rt' \<Longrightarrow> ?thesis" for rt'
    using h_step_block [OF ok Some, of w rt'] by simp
  show ?thesis
  proof (cases mv)
    case (Step k f)
    obtain q i' where k: "k < length (procs (h_world h))"
      and st: "proc_step (k \<in> set (cancelled_runs (h_world h))) f (boot_net (h_world h)) (procs (h_world h) ! k)
        (the_imp (h_world h)) = Some (Returned (q, i'))"
      and w: "w = (h_world h)\<lparr>the_imp := i', procs := (procs (h_world h))[k := q]\<rparr>"
      using move_stepE [OF mv [unfolded Step]] .
    show ?thesis using st
    proof (cases rule: proc_step_cases)
      case (boot r')
      have e: "early (procs (h_world h) ! k)" "early q" using boot by (auto split: option.split)
      have "i' = the_imp (h_world h)" using boot(2) r(2) by (simp add: bootRuntime_def)
      then show ?thesis using next_ok [of rt] r core_ok_replace [OF r(3) k e] by (simp add: w)
    next
      case unbooted
      then show ?thesis using r(1) by simp
    next
      case (block rt1 rt2)
      then have "rt1 = rt" using r(1) by simp
      then show ?thesis
        using next_ok [of rt2] block r run_block_core [OF r(3) k refl block(2) [unfolded \<open>rt1 = rt\<close>]] block_same_ledger [OF block(2)]
        by (simp add: w)
    qed
  qed (use mv r ev next_ok [of rt] core_ok_idle [OF r(3)] in \<open>auto simp: move_def\<close>)
qed

lemma view_dispatchers [simp]: "dispatchers (view h rt) = h_dispatchers h" "imp_rt (view h rt) = rt" "taken (view h rt) = h_taken h"
  by (simp_all add: view_def)

lemma view_put: "view (put_view s h) (imp_rt s) = s"
  by (simp add: view_def put_view_def put_rt_def)

lemma put_view_simps [simp]:
  "the_rt (put_view s h) = Some (imp_rt s)" "procs (h_world (put_view s h)) = procs (h_world h)"
  "rtOnce (the_imp (h_world (put_view s h))) = rtOnce (the_imp (h_world h))"
  "h_dispatchers (put_view s h) = dispatchers s" "h_taken (put_view s h) = taken s"
  by (simp_all add: put_view_def put_rt_def the_rt_def)

text \<open>A step of the pipelines: a message taken, or work on one of those taken.\<close>

lemma pipe_step_worked:
  fixes s s' :: "('a, 'n, 'z) system"
  assumes "pipe_step env pm s = Some s'"
  shows "worked (imp_rt s) (imp_rt s')"
    and "\<forall>d \<in> set (dispatchers s). to_launch (d_stage d) \<le> 1 \<Longrightarrow> \<forall>d \<in> set (dispatchers s'). to_launch (d_stage d) \<le> 1"
    and "(\<forall>i m. pm \<noteq> TakeMsg i m) \<Longrightarrow> taken s' = taken s \<and>
      length (tasks (imp_rt s')) + sum_list (map (to_launch \<circ> d_stage) (dispatchers s')) \<le>
      length (tasks (imp_rt s)) + sum_list (map (to_launch \<circ> d_stage) (dispatchers s))"
proof -
  have "worked (imp_rt s) (imp_rt s') \<and>
    ((\<forall>d \<in> set (dispatchers s). to_launch (d_stage d) \<le> 1) \<longrightarrow> (\<forall>d \<in> set (dispatchers s'). to_launch (d_stage d) \<le> 1)) \<and>
    ((\<forall>i m. pm \<noteq> TakeMsg i m) \<longrightarrow> taken s' = taken s \<and>
      length (tasks (imp_rt s')) + sum_list (map (to_launch \<circ> d_stage) (dispatchers s')) \<le>
      length (tasks (imp_rt s)) + sum_list (map (to_launch \<circ> d_stage) (dispatchers s)))"
  proof (cases pm)
    case (TakeMsg i m)
    then show ?thesis using assms
      by (auto split: if_splits dest!: subsetD [OF set_update_subset_insert])
  next
    case (WorkOn i)
    show ?thesis
    proof (cases "i < length (dispatchers s)")
      case True
      let ?d = "dispatchers s ! i"
      obtain st r where step: "stage_step env (d_channel ?d) (d_stage ?d) (imp_rt s) = Some (st, r)"
        and s': "imp_rt s' = r" "dispatchers s' = (dispatchers s)[i := ?d\<lparr>d_stage := st\<rparr>]" "taken s' = taken s"
        using assms WorkOn True by (auto simp: Let_def split: option.splits)
      note l = stage_launch [OF step] and w = stage_worked [OF step]
      have "to_launch st \<le> 1" if "\<forall>d \<in> set (dispatchers s). to_launch (d_stage d) \<le> 1"
        using that nth_mem [OF True] l by fastforce
      then show ?thesis
        using l w replace_stage [OF True, of to_launch st] WorkOn
        by (auto simp: s' dest!: subsetD [OF set_update_subset_insert])
    next
      case False
      then show ?thesis using assms WorkOn by simp
    qed
  next
    case (StepTask j)
    then show ?thesis using assms thinking_launch [of env j "imp_rt s"] ledger_worked [OF thinking_step_ledger] by auto
  qed
  then show "worked (imp_rt s) (imp_rt s')"
    and "\<forall>d \<in> set (dispatchers s). to_launch (d_stage d) \<le> 1 \<Longrightarrow> \<forall>d \<in> set (dispatchers s'). to_launch (d_stage d) \<le> 1"
    and "(\<forall>i m. pm \<noteq> TakeMsg i m) \<Longrightarrow> taken s' = taken s \<and>
      length (tasks (imp_rt s')) + sum_list (map (to_launch \<circ> d_stage) (dispatchers s')) \<le>
      length (tasks (imp_rt s)) + sum_list (map (to_launch \<circ> d_stage) (dispatchers s))"
    by blast+
qed

lemma h_step_ok:
  assumes "h_ok h" and "h_step m h = Some (Returned h')"
  shows "h_ok h'"
proof (cases m)
  case (Lifecycle mv)
  then show ?thesis using assms h_lifecycle_ok [OF assms(1), of mv]
    by (auto split: if_splits option.splits outcome.splits)
next
  case (Pipe pm)
  obtain rt s where rt: "the_rt h = Some rt" and step: "pipe_step (imp_env (the_imp (h_world h))) pm (view h rt) = Some s"
    and h': "h' = put_view s h"
    using assms(2) by (auto simp: Pipe split: option.splits if_splits)
  note w = pipe_step_worked [OF step]
  have ok: "rtOnce (the_imp (h_world h))" "core_ok rt (procs (h_world h))" "system_ok (view h rt)"
    "\<forall>d \<in> set (h_dispatchers h). to_launch (d_stage d) \<le> 1"
    using assms(1) rt by (simp_all add: h_ok_def)
  show ?thesis
    using ok w(2) pipe_step_ok [OF ok(3) step] core_ok_worked [OF w(1)]
    by (simp add: h_ok_def h' view_put)
qed

lemma h_reach_ok:
  assumes "h_reach (new_harness i n) h" and "fresh i"
  shows "h_ok h"
  using assms
proof (induction rule: h_reach.induct)
  case h_start
  then show ?case by (simp add: h_ok_def the_rt_def new_harness_def new_world_def fresh_def)
qed (blast intro: h_step_ok)

section \<open>After the shutdown\<close>

definition busy :: "('a, 'n) harness \<Rightarrow> nat" where
  "busy h = length (filter (\<lambda>d. \<not> is_waiting (d_stage d)) (h_dispatchers h))"

definition potential :: "('a, 'n) harness \<Rightarrow> ('a, 'n) runtime \<Rightarrow> nat" where
  "potential h rt = length (tasks rt) + sum_list (map (to_launch \<circ> d_stage) (h_dispatchers h))"

lemma busy_bounds:
  assumes "\<forall>d \<in> set ds. to_launch (d_stage d) \<le> 1"
  shows "sum_list (map (to_launch \<circ> d_stage) ds) \<le> length (filter (\<lambda>d. \<not> is_waiting (d_stage d)) ds)"
  using assms
proof (induction ds)
  case (Cons d ds)
  then show ?case by (cases "d_stage d = Waiting") auto
qed simp

lemma busy_nothing_pending:
  assumes "busy h = 0"
  shows "pending_messages (view h rt) = 0 \<and> pending_settlements (view h rt) = 0 \<and> owed owes_wg (view h rt) = 0"
proof -
  have w: "\<forall>d \<in> set (h_dispatchers h). d_stage d = Waiting"
  proof
    fix d assume "d \<in> set (h_dispatchers h)"
    then have "is_waiting (d_stage d)" using assms by (auto simp: busy_def filter_empty_conv)
    then show "d_stage d = Waiting" by (cases "d_stage d") simp_all
  qed
  show ?thesis
    using all_waiting [OF w, of uncounted] all_waiting [OF w, of unsettled] all_waiting [OF w, of "tally owes_wg"]
    by (simp add: pending_messages_def pending_settlements_def owed_def tally_def)
qed

text \<open>A shutdown is over that began while the imp was running.\<close>

definition over :: "('a, 'n) harness \<Rightarrow> ('a, 'n) runtime \<Rightarrow> bool" where
  "over h rt \<longleftrightarrow> h_ok h \<and> the_rt h = Some rt \<and> stopped rt \<and> legal_path StateCreated (history rt)"

lemma over_block:
  assumes c: "control_ok (control_of rt) ps" and p: "p \<in> set ps" and st: "stopped rt"
    and legal: "legal_path StateCreated (history rt)" and run: "run_block i cn f p rt = Some (Returned (q, rt'))"
  shows "same_resources rt rt' \<and> history rt' = history rt \<and> stopped rt'"
proof -
  note su = legal_startup [OF c st legal] and facts = control_facts [OF c]
  have "filter starter ps = []" using c su(1) by (simp add: control_ok_def)
  then have ns: "\<not> starter p" using p by (auto simp: filter_empty_conv)
  have "filter closer ps = []" using facts(8) st by simp
  then have nc: "\<not> closer p" using p by (auto simp: filter_empty_conv)
  have nu: "\<not> unwinder p" using facts(9) [OF p] nc su(1) by (cases p) auto
  have same: "same_resources rt rt'" using run_block_resources [OF run] ns nu by blast
  have ne: "history rt \<noteq> []" using su(2) by auto
  then have "state (machine rt) = last (history rt)" using facts(1) by (simp add: rt_state_def Get_def)
  then have "StateCreated \<noteq> state (machine rt)" using last_in_set [OF ne] facts(5) by metis
  then have "history rt' = history rt"
    using run_block_control [OF run] ns nc nu
    by (auto elim!: control_move.cases simp del: control_of_simps) (auto simp: control_of_def push_def)
  then show ?thesis using same block_final [OF c p st run] by blast
qed

lemma over_lifecycle:
  assumes "over h rt" and ev: "\<not> is_event mv" and mv: "move mv (h_world h) = Some (Returned w)"
  shows "\<exists>rt'. rtPtr (the_imp w) = Some rt' \<and> same_resources rt rt' \<and> stopped rt' \<and> history rt' = history rt"
proof -
  have r: "rtPtr (the_imp (h_world h)) = Some rt" "rtOnce (the_imp (h_world h))" "stopped rt"
    "legal_path StateCreated (history rt)" and c: "control_ok (control_of rt) (procs (h_world h))"
    using assms(1) by (auto simp: over_def h_ok_def the_rt_def core_ok_def)
  show ?thesis
  proof (cases mv)
    case (Step k f)
    obtain q i' where k: "k < length (procs (h_world h))"
      and st: "proc_step (k \<in> set (cancelled_runs (h_world h))) f (boot_net (h_world h)) (procs (h_world h) ! k)
        (the_imp (h_world h)) = Some (Returned (q, i'))"
      and w: "w = (h_world h)\<lparr>the_imp := i', procs := (procs (h_world h))[k := q]\<rparr>"
      using move_stepE [OF mv [unfolded Step]] .
    show ?thesis using st
    proof (cases rule: proc_step_cases)
      case (boot r')
      then show ?thesis using r by (simp add: bootRuntime_def w)
    next
      case unbooted
      then show ?thesis using r(1) by simp
    next
      case (block rt1 rt2)
      then have "rt1 = rt" using r(1) by simp
      then show ?thesis
        using over_block [OF c nth_mem [OF k] r(3,4)] block(2,3) by (simp add: w)
    qed
  qed (use mv r ev in \<open>auto simp: move_def\<close>)
qed

text \<open>No busy dispatcher, no goroutine: nothing is left that could move.\<close>

lemma silent_pipe:
  assumes "pipe_step env pm s = Some s'" and "\<forall>i m. pm \<noteq> TakeMsg i m"
    and "tasks (imp_rt s) = []" and "\<forall>d \<in> set (dispatchers s). d_stage d = Waiting"
  shows "imp_rt s' = imp_rt s \<and> (\<forall>d \<in> set (dispatchers s'). d_stage d = Waiting)"
proof (cases pm)
  case (WorkOn i)
  show ?thesis
  proof (cases "i < length (dispatchers s)")
    case True
    then have "d_stage (dispatchers s ! i) = Waiting" using assms(4) by simp
    then show ?thesis using assms(1,4) WorkOn True
      by (auto simp: Let_def dest!: subsetD [OF set_update_subset_insert])
  qed (use assms WorkOn in simp)
next
  case (StepTask j)
  then show ?thesis using assms by (auto simp: thinking_step_def)
qed (use assms in simp)

definition silent :: "('a, 'n) harness \<Rightarrow> ('a, 'n) runtime \<Rightarrow> bool" where
  "silent h rt \<longleftrightarrow> tasks rt = [] \<and> (\<forall>d \<in> set (h_dispatchers h). d_stage d = Waiting)"

lemma silent_busy: "silent h rt \<longleftrightarrow> tasks rt = [] \<and> busy h = 0"
  by (simp add: silent_def busy_def filter_empty_conv)

lemma over_step:
  assumes o: "over h rt" and step: "h_step m h = Some (Returned h')"
  shows "\<exists>rt'. over h' rt' \<and> h_taken h' = h_taken h \<and> potential h' rt' \<le> potential h rt \<and>
    (silent h rt \<longrightarrow> silent h' rt' \<and> calls (effects rt') = calls (effects rt))"
proof -
  have ok: "h_ok h" "the_rt h = Some rt" "stopped rt" "legal_path StateCreated (history rt)"
    using o by (simp_all add: over_def)
  have ok': "h_ok h'" using h_step_ok [OF ok(1) step] .
  show ?thesis
  proof (cases m)
    case (Lifecycle mv)
    then obtain w where mv: "\<not> is_event mv" "move mv (h_world h) = Some (Returned w)"
      and h': "h' = h\<lparr>h_world := w, h_dispatchers :=
        (case rtPtr (the_imp w) of None \<Rightarrow> [] | Some rt \<Rightarrow> new_pipes (h_dispatchers h) (channels rt))\<rparr>"
      using step by (auto split: if_splits option.splits outcome.splits)
    from over_lifecycle [OF o mv] obtain rt' where rt': "rtPtr (the_imp w) = Some rt'" "same_resources rt rt'"
      "stopped rt'" "history rt' = history rt" by blast
    have "over h' rt'" using ok' rt' ok(4) by (simp add: over_def h' the_rt_def)
    moreover have "potential h' rt' = potential h rt"
      using rt'(1,2) by (simp add: potential_def h' idle_sum same_resources_def)
    moreover have "silent h rt \<longrightarrow> silent h' rt' \<and> calls (effects rt') = calls (effects rt)"
      using rt'(1,2) new_pipes_set [of _ "h_dispatchers h" "channels rt'"] by (auto simp: silent_def h' same_resources_def)
    ultimately show ?thesis by (auto simp: h')
  next
    case (Pipe pm)
    then obtain s where en: "pipe_enabled pm (channels rt)"
      and ps: "pipe_step (imp_env (the_imp (h_world h))) pm (view h rt) = Some s" and h': "h' = put_view s h"
      using step ok(2) by (auto split: option.splits if_splits)
    have "core_ok rt (procs (h_world h))" using ok(1,2) by (simp add: h_ok_def)
    then have "released rt" using core_released ok(3,4) by blast
    then have nt: "\<forall>i m. pm \<noteq> TakeMsg i m"
      using en by (cases pm; cases "case pm of TakeMsg i m \<Rightarrow> m") (auto simp: released_def)
    note w = pipe_step_worked [OF ps]
    have "rt.more (imp_rt s) = rt.more rt" using w(1) by (simp add: worked_def)
    note f = rt_more_fields [OF this]
    have "over h' (imp_rt s)" using ok' ok(3,4) f by (simp add: over_def h')
    moreover have "h_taken h' = h_taken h" "potential h' (imp_rt s) \<le> potential h rt"
      using w(3) [OF nt] by (simp_all add: h' potential_def)
    moreover have "silent h rt \<longrightarrow> silent h' (imp_rt s) \<and> calls (effects (imp_rt s)) = calls (effects rt)"
      using silent_pipe [OF ps nt] by (simp add: silent_def h')
    ultimately show ?thesis by blast
  qed
qed

lemma over_reach:
  assumes "h_reach h h'" and "over h rt"
  shows "\<exists>rt'. over h' rt' \<and> h_taken h' = h_taken h \<and> potential h' rt' \<le> potential h rt \<and>
    (silent h rt \<longrightarrow> silent h' rt' \<and> calls (effects rt') = calls (effects rt))"
  using assms
proof (induction rule: h_reach.induct)
  case (h_next h1 m h2)
  then obtain rt1 where 1: "over h1 rt1" "h_taken h1 = h_taken h" "potential h1 rt1 \<le> potential h rt"
    "silent h rt \<longrightarrow> silent h1 rt1 \<and> calls (effects rt1) = calls (effects rt)" by blast
  from over_step [OF 1(1) h_next.hyps(2)] 1 show ?case by (metis order_trans)
qed blast

section \<open>Properties\<close>

text \<open>
  C2. What a completed shutdown leaves behind, at the grain of single steps. When a shutdown
  that began while Running has closed \<open>stopped\<close>, every subscription and consume loop is released
  and stays so, no message is taken any more, and the thinking goroutines alive at any later
  moment are at most those alive now and one for each dispatcher that was in the middle of a
  message; if there are none of either, then none ever comes, and the imp makes no call again.
\<close>

theorem nothing_after_shutdown:
  assumes "h_reach (new_harness i n) h" and "fresh i" and "the_rt h = Some rt"
    and "stopped rt" and "legal_path StateCreated (history rt)" and "h_reach h h'"
  shows "\<exists>rt'. the_rt h' = Some rt' \<and> released rt' \<and> h_taken h' = h_taken h \<and>
    length (tasks rt') \<le> length (tasks rt) + busy h \<and>
    (tasks rt = [] \<and> busy h = 0 \<longrightarrow>
       tasks rt' = [] \<and> busy h' = 0 \<and> calls (effects rt') = calls (effects rt))"
proof -
  have o: "over h rt" using h_reach_ok [OF assms(1,2)] assms(3-5) by (simp add: over_def)
  from over_reach [OF assms(6) o] obtain rt' where r: "over h' rt'" "h_taken h' = h_taken h"
    "potential h' rt' \<le> potential h rt"
    "silent h rt \<longrightarrow> silent h' rt' \<and> calls (effects rt') = calls (effects rt)" by blast
  have "released rt'" using r(1) core_released by (auto simp: over_def h_ok_def)
  moreover have "potential h rt \<le> length (tasks rt) + busy h"
    using busy_bounds [of "h_dispatchers h"] o by (simp add: potential_def busy_def over_def h_ok_def)
  then have "length (tasks rt') \<le> length (tasks rt) + busy h"
    using r(3) by (simp add: potential_def)
  moreover have "the_rt h' = Some rt'" using r(1) by (simp add: over_def)
  ultimately show ?thesis using r(2,4) unfolding silent_busy by blast
qed


section \<open>A run\<close>

text \<open>
  The imp starts, its subject dispatcher takes a message and calls awareness; then \<open>Shutdown\<close>
  runs through. Afterwards the dispatcher goes on.
\<close>

fun h_play :: "'a h_move list \<Rightarrow> ('a, 'n) harness \<Rightarrow> ('a, 'n) harness option" where
  "h_play [] h = Some h"
| "h_play (m # ms) h = (case h_step m h of Some (Returned h') \<Rightarrow> h_play ms h' | _ \<Rightarrow> None)"

lemma h_play_reach: "h_reach h0 h \<Longrightarrow> h_play ms h = Some h' \<Longrightarrow> h_reach h0 h'"
proof (induction ms arbitrary: h)
  case (Cons m ms)
  then show ?case by (auto split: option.splits outcome.splits intro: h_next)
qed simp

definition late_message :: "string h_move list" where
  "late_message = map Lifecycle ([CallRun] @ replicate 6 (Step 0 True)) @
     [Pipe (TakeMsg 0 (FromSubject (demo_message ''think''))), Pipe (WorkOn 0)] @
     map Lifecycle ([CallShutdown] @ replicate 8 (Step 1 True))"

definition h_result :: "('a, 'n) harness \<Rightarrow> gerr option option list \<times> bool \<times> State list \<times> nat \<times> nat" where
  "h_result h = (map result_of (procs (h_world h)),
     (case the_rt h of None \<Rightarrow> (False, [], 0, 0)
      | Some rt \<Rightarrow> (stopped rt, history rt, length (tasks rt), busy h)))"

text \<open>
  \<open>Unsubscribe\<close> does not wait for a callback that is running: \<open>Shutdown\<close> returns nil with one
  dispatcher in the middle of a message, and the thinking goroutine that this one launches
  comes to life when everything is over.
\<close>

theorem goroutine_after_shutdown:
  "map_option (\<lambda>h. (h_result h, map_option h_result (h_play (replicate 7 (Pipe (WorkOn 0))) h)))
     (h_play late_message (new_harness demo_imp loop0)) =
   Some (([None, Some None], True, [StateStarting, StateRunning, StateDraining, StateStopped], 0, 1),
         Some ([None, Some None], True, [StateStarting, StateRunning, StateDraining, StateStopped], 1, 0))"
  by code_simp

lemma late_message_states:
  "\<exists>h h' rt rt'. h_reach (new_harness demo_imp loop0) h \<and> h_reach h h' \<and> the_rt h = Some rt \<and> the_rt h' = Some rt' \<and>
     stopped rt \<and> history rt = [StateStarting, StateRunning, StateDraining, StateStopped] \<and>
     tasks rt = [] \<and> busy h = 1 \<and> length (tasks rt') = 1"
proof -
  obtain h h' where h: "h_play late_message (new_harness demo_imp loop0) = Some h"
    "h_play (replicate 7 (Pipe (WorkOn 0))) h = Some h'"
    "h_result h = ([None, Some None], True, [StateStarting, StateRunning, StateDraining, StateStopped], 0, 1)"
    "h_result h' = ([None, Some None], True, [StateStarting, StateRunning, StateDraining, StateStopped], 1, 0)"
    using goroutine_after_shutdown by auto
  then show ?thesis
    using h_play_reach [OF h_start h(1)] h_play_reach [OF h_start h(2)]
    by (fastforce simp: h_result_def split: option.splits)
qed

theorem nothing_after_shutdown_witness:
  "\<exists>h h' rt rt'. h_reach (new_harness demo_imp loop0) h \<and> h_reach h h' \<and> the_rt h = Some rt \<and> tasks rt = [] \<and>
     the_rt h' = Some rt' \<and> length (tasks rt') = 1 \<and> released rt' \<and> h_taken h' = h_taken h"
proof -
  obtain h h' rt rt' where r: "h_reach (new_harness demo_imp loop0) h" "h_reach h h'" "the_rt h = Some rt"
    "the_rt h' = Some rt'" "stopped rt" "history rt = [StateStarting, StateRunning, StateDraining, StateStopped]"
    "tasks rt = []" "length (tasks rt') = 1" using late_message_states by blast
  have "legal_path StateCreated (history rt)" by (simp add: r(6) legal_paths)
  from nothing_after_shutdown [OF r(1) demo_fresh r(3,5) this r(2)] r show ?thesis by auto
qed


end
