(* ===== verification/Persist_Sessions.thy ===== *)
theory Persist_Sessions
  imports Persist_Durability
begin

text \<open>
  Sleep and wake: a process with a store ends, gracefully or not, and a later process makes a
  new store over what the backend holds. The cache is lost with the process; the values are
  not.
\<close>

section \<open>Processes over one backend\<close>

text \<open>
  Each process gives its own options to \<open>NewStore\<close> and performs some operations. Where it is
  killed in the middle of an operation, that operation has reached the backend or not, and the
  list of its operations ends with it or before it: the backend is only written by one call
  of each operation. The results are lists, one for each process; \<open>None\<close> is a panic of
  \<open>NewStore\<close>.
\<close>

type_synonym ('t, 'w) process = "'t StoreOption list \<times> ('t, 'w) store_op list"

fun sessions ::
  "string \<Rightarrow> 'w Backend \<Rightarrow> 't Codec \<Rightarrow> envelope_json \<Rightarrow> ('w \<Rightarrow> instant) \<Rightarrow> 't \<Rightarrow> ('t, 'w) process list \<Rightarrow> 'w \<Rightarrow>
   ('t op_result list list \<times> 'w) option" where
  "sessions name b codec json now zero [] w = Some ([], w)"
| "sessions name b codec json now zero ((os, xs) # ps) w =
     (case NewStore name b os codec json now zero of
        Panicked \<Rightarrow> None
      | Returned st \<Rightarrow>
          (case store_run xs st w of
             (rs, st', w1) \<Rightarrow>
               (case sessions name b codec json now zero ps w1 of
                  None \<Rightarrow> None
                | Some (rss, w2) \<Rightarrow> Some (rs # rss, w2))))"

text \<open>Options that leave the codec and the wake hook alone: only bounds.\<close>

fun bound_only :: "'t StoreOption \<Rightarrow> bool" where
  "bound_only (WithBound _) = True" | "bound_only _ = False"

lemma bounds_keep:
  "apply_StoreOptions os c = Returned c' \<Longrightarrow> list_all bound_only os \<Longrightarrow>
   cfg_codec c' = cfg_codec c \<and> cfg_wake c' = cfg_wake c"
proof (induction os arbitrary: c)
  case (Cons x xs)
  then show ?case by (cases x) (auto split: if_splits)
qed simp

lemma NewStore_bounds:
  assumes "NewStore name b os codec json now zero = Returned st" and "list_all bound_only os"
  shows "s_codec st = codec" and "s_wake st = None" and "s_name st = name" and "s_zero st = zero" and "s_json st = json"
proof -
  obtain c where c: "apply_StoreOptions os \<lparr>cfg_bound = DefaultBound, cfg_wake = None, cfg_codec = codec\<rparr> = Returned c"
    "s_codec st = cfg_codec c" "s_wake st = cfg_wake c" "s_name st = name" "s_zero st = zero" "s_json st = json"
    using assms(1) by (auto simp: NewStore_def split: if_splits outcome.splits)
  show "s_codec st = codec" "s_wake st = None" "s_name st = name" "s_zero st = zero" "s_json st = json"
    using bounds_keep [OF c(1) assms(2)] c by simp_all
qed

text \<open>The value of an entity depends on the store's name, codec and zero value only.\<close>

definition durable_value ::
  "string \<Rightarrow> 't Codec \<Rightarrow> envelope_json \<Rightarrow> 't \<Rightarrow> (string \<Rightarrow> bytes option) \<Rightarrow> entity \<Rightarrow> 't option" where
  "durable_value name codec json zero m e =
     (case m (name @ ''.'' @ e) of
        None \<Rightarrow> Some zero
      | Some raw \<Rightarrow>
          (case j_Unmarshal json raw of
             Inl _ \<Rightarrow> None
           | Inr env \<Rightarrow> (case c_Unmarshal codec (env_State env) of (v, None) \<Rightarrow> Some v | _ \<Rightarrow> None)))"

lemma stored_durable:
  assumes "s_name st = name" and "s_codec st = codec" and "s_json st = json" and "s_zero st = zero"
  shows "stored_value st = durable_value name codec json zero"
  by (intro ext) (simp only: stored_value_def durable_value_def store_key_def assms)

lemma spec_run_append:
  "spec_run zero xs rs m m1 \<Longrightarrow> spec_run zero ys ss m1 m2 \<Longrightarrow> spec_run zero (xs @ ys) (rs @ ss) m m2"
proof (induction xs arbitrary: rs m)
  case Nil
  then show ?case by (cases rs) auto
next
  case (Cons x xs)
  then show ?case by (cases rs) auto
qed

section \<open>Properties\<close>


text \<open>Two processes: the second, with a smaller cache, continues the counter of the first.\<close>

definition demo_sessions :: "(nat, mem) process list" where
  "demo_sessions =
     [([], [OpUpdate ''c1'' (\<lambda>n. Returned (n + 7))]),
      ([WithBound 1], [OpUpdate ''c1'' (\<lambda>n. Returned (n + 1))])]"

lemma demo_sessions_results:
  "map_option fst (sessions ''cust'' memBackend counter_codec envelope_wire minute_clock 0 demo_sessions newMemBackend) =
   Some [[Value (Returned (7, None))], [Value (Returned (8, None))]]"
  by code_simp


end
