(* ===== verification/Persist_Concurrent.thy ===== *)
theory Persist_Concurrent
  imports Persist_Durability "HOL-Library.Multiset"
begin

text \<open>
  A \<open>Store\<close> used by many goroutines (\<open>persist/store.go\<close>). A call waits for the mutex, works in
  steps that end at its calls to the backend, and unlocks in its deferred call, whether it
  returns or panics; between any two steps other goroutines run, and the rest of the world may
  move: the clock, other stores over the same backend. (\<open>Resident\<close>, which locks as well, only
  reads a length and is left out.)
\<close>

section \<open>Calls\<close>

datatype 't call = CGet entity | CUpdate entity "'t \<Rightarrow> 't outcome" | CDelete entity

fun call_op :: "'t call \<Rightarrow> ('t, 'w) store_op" where
  "call_op (CGet e) = OpGet e"
| "call_op (CUpdate e fn) = OpUpdate e fn"
| "call_op (CDelete e) = OpDelete e"

text \<open>
  Where a call stands: at \<open>Lock\<close>; holding the mutex, about to read (or to delete); with the
  current value, about to call the caller's function and encode; about to write; with the
  write done, about to reflect it in residency (or with the delete done); in its deferred
  \<open>Unlock\<close>; gone.
\<close>

datatype 't call_at =
    AtLock
  | Entered
  | Modifying 't
  | Writing 't bytes
  | Reflecting 't
  | Forgetting
  | Unlocking "'t op_result"
  | Gone "'t op_result"

text \<open>One step of the call that holds the mutex.\<close>

fun call_block :: "'t call \<Rightarrow> 't call_at \<Rightarrow> ('t, 'w) Store \<Rightarrow> 'w \<Rightarrow> 't call_at \<times> ('t, 'w) Store \<times> 'w" where
  "call_block (CGet e) Entered st w =
     (case getLocked e st w of (r, st', w') \<Rightarrow> (Unlocking (Value r), st', w'))"
| "call_block (CUpdate e fn) Entered st w =
     (case getLocked e st w of
        (Returned (cur, None), st', w') \<Rightarrow> (Modifying cur, st', w')
      | (r, st', w') \<Rightarrow> (Unlocking (Value r), st', w'))"
| "call_block (CUpdate e fn) (Modifying cur) st w =
     (case fn cur of
        Panicked \<Rightarrow> (Unlocking (Value Panicked), st, w)
      | Returned nxt \<Rightarrow>
          (case c_Marshal (s_codec st) nxt of
             Inl err \<Rightarrow> (Unlocking (Value (Returned (nxt, Some (Wrapped (''persist: encode state '' @ e) err)))), st, w)
           | Inr stateRaw \<Rightarrow>
               (case j_Marshal (s_json st) \<lparr>env_State = stateRaw, env_LastActive = s_now st w\<rparr> of
                  Inl err \<Rightarrow> (Unlocking (Value (Returned (nxt, Some (Wrapped (''persist: encode envelope '' @ e) err)))), st, w)
                | Inr envRaw \<Rightarrow> (Writing nxt envRaw, st, w))))"
| "call_block (CUpdate e fn) (Writing nxt envRaw) st w =
     (case b_Put (s_b st) (store_key st e) envRaw w of
        (Some err, w') \<Rightarrow> (Unlocking (Value (Returned (nxt, Some err))), st, w')
      | (None, w') \<Rightarrow> (Reflecting nxt, st, w'))"
| "call_block (CUpdate e fn) (Reflecting nxt) st w =
     (case reflect e nxt st w of (r, st', w') \<Rightarrow> (Unlocking (Value r), st', w'))"
| "call_block (CDelete e) Entered st w =
     (case b_Delete (s_b st) (store_key st e) w of
        (Some err, w') \<Rightarrow> (Unlocking (Removed (Some err)), st, w')
      | (None, w') \<Rightarrow> (Forgetting, st, w'))"
| "call_block (CDelete e) Forgetting st w =
     (Unlocking (Removed None),
      case resident st e of
        Some el \<Rightarrow> st\<lparr>lru := remove1 el (lru st), resident := (resident st)(e := None)\<rparr>
      | None \<Rightarrow> st, w)"
| "call_block c p st w = (p, st, w)"

fun call_blocks :: "nat \<Rightarrow> 't call \<Rightarrow> 't call_at \<Rightarrow> ('t, 'w) Store \<Rightarrow> 'w \<Rightarrow> 't call_at \<times> ('t, 'w) Store \<times> 'w" where
  "call_blocks 0 c p st w = (p, st, w)"
| "call_blocks (Suc n) c p st w = (case call_block c p st w of (p', st', w') \<Rightarrow> call_blocks n c p' st' w')"

text \<open>Undisturbed, the steps of a call are the operation of \<open>Persist_Store\<close>.\<close>

lemma call_alone:
  "call_blocks 4 c Entered st w = (case store_step (call_op c) st w of (r, st', w') \<Rightarrow> (Unlocking r, st', w'))"
  by (cases c)
     (auto simp: numeral_eq_Suc store_Get_def store_Update_def store_Delete_def
       split: prod.split outcome.split option.split sum.split)

section \<open>Many callers\<close>

text \<open>
  \<open>sc_holder\<close> is the goroutine that holds the mutex. \<open>sc_log\<close> lists the calls with their results
  in the order in which they unlocked, for stating properties.
\<close>

record ('t, 'w) shared =
  sc_store :: "('t, 'w) Store"
  sc_world :: 'w
  sc_holder :: "nat option"
  sc_calls :: "('t call \<times> 't call_at) list"
  sc_log :: "('t call \<times> 't op_result) list"

datatype ('t, 'w) sc_move = NewCall "'t call" | StepCall nat | Elsewhere "'w \<Rightarrow> 'w"

definition sc_put :: "nat \<Rightarrow> 't call \<Rightarrow> 't call_at \<Rightarrow> ('t, 'w) shared \<Rightarrow> ('t, 'w) shared" where
  "sc_put k c p s = s\<lparr>sc_calls := (sc_calls s)[k := (c, p)]\<rparr>"

text \<open>A step that is not enabled is \<open>None\<close>: a call waiting for the mutex, or one that is gone.\<close>

fun sc_step :: "('t, 'w) sc_move \<Rightarrow> ('t, 'w) shared \<Rightarrow> ('t, 'w) shared option" where
  "sc_step (NewCall c) s = Some (s\<lparr>sc_calls := sc_calls s @ [(c, AtLock)]\<rparr>)"
| "sc_step (Elsewhere f) s = Some (s\<lparr>sc_world := f (sc_world s)\<rparr>)"
| "sc_step (StepCall k) s =
     (if k < length (sc_calls s) then
        (case sc_calls s ! k of
           (c, AtLock) \<Rightarrow>
             (case sc_holder s of
                None \<Rightarrow> Some (sc_put k c Entered (s\<lparr>sc_holder := Some k\<rparr>))
              | Some _ \<Rightarrow> None)
         | (c, Gone r) \<Rightarrow> None
         | (c, Unlocking r) \<Rightarrow>
             Some (sc_put k c (Gone r) (s\<lparr>sc_holder := None, sc_log := sc_log s @ [(c, r)]\<rparr>))
         | (c, p) \<Rightarrow>
             (case call_block c p (sc_store s) (sc_world s) of
                (p', st', w') \<Rightarrow> Some (sc_put k c p' (s\<lparr>sc_store := st', sc_world := w'\<rparr>))))
      else None)"

text \<open>A schedule; moves that are not enabled are skipped.\<close>

fun sc_run :: "('t, 'w) sc_move list \<Rightarrow> ('t, 'w) shared \<Rightarrow> ('t, 'w) shared" where
  "sc_run [] s = s"
| "sc_run (m # ms) s = sc_run ms (case sc_step m s of None \<Rightarrow> s | Some s' \<Rightarrow> s')"

definition sc_new :: "('t, 'w) Store \<Rightarrow> 'w \<Rightarrow> ('t, 'w) shared" where
  "sc_new st w = \<lparr>sc_store = st, sc_world = w, sc_holder = None, sc_calls = [], sc_log = []\<rparr>"

section \<open>The mutex\<close>

fun outside :: "'t call_at \<Rightarrow> bool" where
  "outside AtLock = True" | "outside (Gone _) = True" | "outside _ = False"

text \<open>The stages that a call can be in, by its kind.\<close>

fun fits :: "'t call \<Rightarrow> 't call_at \<Rightarrow> bool" where
  "fits _ AtLock = True" | "fits _ Entered = True" | "fits _ (Unlocking _) = True" | "fits _ (Gone _) = True"
| "fits (CUpdate _ _) (Modifying _) = True" | "fits (CUpdate _ _) (Writing _ _) = True"
| "fits (CUpdate _ _) (Reflecting _) = True" | "fits (CDelete _) Forgetting = True" | "fits _ _ = False"

fun call_rank :: "'t call_at \<Rightarrow> nat" where
  "call_rank AtLock = 6" | "call_rank Entered = 5" | "call_rank (Modifying _) = 4" | "call_rank (Writing _ _) = 3"
| "call_rank (Reflecting _) = 2" | "call_rank Forgetting = 2" | "call_rank (Unlocking _) = 1" | "call_rank (Gone _) = 0"

definition gone :: "'t call \<times> 't call_at \<Rightarrow> ('t call \<times> 't op_result) multiset" where
  "gone cp = (case snd cp of Gone r \<Rightarrow> {#(fst cp, r)#} | _ \<Rightarrow> {#})"

definition mutex_ok :: "('t, 'w) shared \<Rightarrow> bool" where
  "mutex_ok s \<longleftrightarrow>
     (\<forall>j < length (sc_calls s). fits (fst (sc_calls s ! j)) (snd (sc_calls s ! j)) \<and>
        (outside (snd (sc_calls s ! j)) \<longleftrightarrow> sc_holder s \<noteq> Some j)) \<and>
     (\<forall>j. sc_holder s = Some j \<longrightarrow> j < length (sc_calls s)) \<and>
     mset (sc_log s) = sum_list (map gone (sc_calls s))"

lemma block_fits:
  assumes "fits c p" and "\<not> outside p" and "\<forall>r. p \<noteq> Unlocking r" and "call_block c p st w = (p', st', w')"
  shows "fits c p' \<and> \<not> outside p' \<and> call_rank p' < call_rank p"
  using assms by (cases "(c, p, st, w)" rule: call_block.cases)
    (auto split: prod.splits outcome.splits option.splits sum.splits)

lemma put_calls [simp]:
  "sc_calls (sc_put k c p s) = (sc_calls s)[k := (c, p)]" "sc_holder (sc_put k c p s) = sc_holder s"
  "sc_log (sc_put k c p s) = sc_log s" "sc_store (sc_put k c p s) = sc_store s" "sc_world (sc_put k c p s) = sc_world s"
  by (simp_all add: sc_put_def)

text \<open>The four things a step of a call can be.\<close>

lemma step_callE:
  assumes "sc_step (StepCall k) s = Some s'"
  obtains (lock) c where "k < length (sc_calls s)" "sc_calls s ! k = (c, AtLock)" "sc_holder s = None"
      "s' = sc_put k c Entered (s\<lparr>sc_holder := Some k\<rparr>)"
  | (unlock) c r where "k < length (sc_calls s)" "sc_calls s ! k = (c, Unlocking r)"
      "s' = sc_put k c (Gone r) (s\<lparr>sc_holder := None, sc_log := sc_log s @ [(c, r)]\<rparr>)"
  | (block) c p p' st' w' where "k < length (sc_calls s)" "sc_calls s ! k = (c, p)" "\<not> outside p" "\<forall>r. p \<noteq> Unlocking r"
      "call_block c p (sc_store s) (sc_world s) = (p', st', w')"
      "s' = sc_put k c p' (s\<lparr>sc_store := st', sc_world := w'\<rparr>)"
proof -
  obtain c p where cp: "sc_calls s ! k = (c, p)" by fastforce
  have k: "k < length (sc_calls s)" using assms by (auto split: if_splits)
  obtain p' st' w' where b: "call_block c p (sc_store s) (sc_world s) = (p', st', w')" by (metis prod_cases3)
  show ?thesis
    using assms k cp b lock unlock block by (cases p) (auto split: option.splits)
qed

lemma mutex_holder:
  assumes "mutex_ok s" and "k < length (sc_calls s)" and "sc_calls s ! k = (c, p)" and "\<not> outside p"
  shows "sc_holder s = Some k"
  using assms by (auto simp: mutex_ok_def)

lemma mutex_replace:
  assumes ok: "mutex_ok s" and k: "k < length (sc_calls s)" "sc_calls s ! k = (c, p)" and f: "fits c p'"
    and h: "outside p' \<longleftrightarrow> h \<noteq> Some k" "h = sc_holder s \<or> sc_holder s = None \<or> (sc_holder s = Some k \<and> h = None)"
    and h': "h = sc_holder s \<or> h = Some k \<or> h = None"
    and log: "mset l + gone (c, p) = mset (sc_log s) + gone (c, p')"
  shows "mutex_ok (sc_put k c p' (s\<lparr>sc_holder := h, sc_log := l, sc_store := st, sc_world := w\<rparr>))"
proof -
  have "sum_list (map gone ((sc_calls s)[k := (c, p')])) + gone (c, p) = sum_list (map gone (sc_calls s)) + gone (c, p')"
    using sum_list_replace [OF k(1), of gone "(c, p')"] k(2) by simp
  then have "mset l = sum_list (map gone ((sc_calls s)[k := (c, p')]))"
    using ok log by (simp add: mutex_ok_def) (metis add.commute add_left_cancel)
  moreover have "outside (snd (sc_calls s ! j)) \<longleftrightarrow> h \<noteq> Some j" if "j < length (sc_calls s)" "j \<noteq> k" for j
    using ok that h(2) h' by (auto simp: mutex_ok_def)
  ultimately show ?thesis
    using ok k(1) f h(1) h' by (auto simp: mutex_ok_def nth_list_update)
qed

lemma mutex_step:
  assumes "mutex_ok s" and "sc_step m s = Some s'"
  shows "mutex_ok s'"
proof (cases m)
  case (NewCall c)
  then show ?thesis using assms by (fastforce simp: mutex_ok_def gone_def nth_append less_Suc_eq)
next
  case (Elsewhere f)
  then show ?thesis using assms by (auto simp: mutex_ok_def)
next
  case (StepCall k)
  show ?thesis using assms(2) [unfolded StepCall]
  proof (cases rule: step_callE)
    case (lock c)
    then show ?thesis
      using mutex_replace [OF assms(1) lock(1,2), where p' = Entered and h = "Some k" and l = "sc_log s"
        and st = "sc_store s" and w = "sc_world s"] lock(3)
      by (simp add: lock(4) gone_def)
  next
    case (unlock c r)
    have "sc_holder s = Some k" using mutex_holder [OF assms(1) unlock(1,2)] by simp
    then show ?thesis
      using mutex_replace [OF assms(1) unlock(1,2), where p' = "Gone r" and h = None and l = "sc_log s @ [(c, r)]"
        and st = "sc_store s" and w = "sc_world s"]
      by (simp add: unlock(3) gone_def)
  next
    case (block c p p' st' w')
    have "fits c p" using assms(1) block(1,2) by (auto simp: mutex_ok_def)
    note f = block_fits [OF this block(3,4,5)]
    have hold: "sc_holder s = Some k" using mutex_holder [OF assms(1) block(1,2,3)] .
    have "gone (c, p) = {#}" using block(3) by (cases p) (simp_all add: gone_def)
    moreover have "gone (c, p') = {#}" using f by (cases p') (simp_all add: gone_def)
    ultimately have log: "mset (sc_log s) + gone (c, p) = mset (sc_log s) + gone (c, p')"
      and h: "outside p' \<longleftrightarrow> sc_holder s \<noteq> Some k" using f hold by simp_all
    have "s\<lparr>sc_store := st', sc_world := w'\<rparr> =
        s\<lparr>sc_holder := sc_holder s, sc_log := sc_log s, sc_store := st', sc_world := w'\<rparr>"
      by simp
    then show ?thesis
      using mutex_replace [OF assms(1) block(1,2) _ h _ _ log] f unfolding block(6) by metis
  qed
qed

lemma mutex_run: "mutex_ok s \<Longrightarrow> mutex_ok (sc_run ms s)"
proof (induction ms arbitrary: s)
  case (Cons m ms)
  then show ?case using mutex_step by (cases "sc_step m s") auto
qed simp

lemma mutex_new: "mutex_ok (sc_new st w)"
  by (simp add: mutex_ok_def sc_new_def)

section \<open>Every call ends\<close>

definition work_left :: "('t, 'w) shared \<Rightarrow> nat" where
  "work_left s = sum_list (map (call_rank \<circ> snd) (sc_calls s))"

fun is_gone :: "'t call_at \<Rightarrow> bool" where
  "is_gone (Gone _) = True" | "is_gone _ = False"

text \<open>How many steps of calls a schedule performs.\<close>

fun sc_steps :: "('t, 'w) sc_move list \<Rightarrow> ('t, 'w) shared \<Rightarrow> nat" where
  "sc_steps [] s = 0"
| "sc_steps (m # ms) s =
     (case sc_step m s of
        None \<Rightarrow> sc_steps ms s
      | Some s' \<Rightarrow> (case m of StepCall _ \<Rightarrow> 1 | _ \<Rightarrow> 0) + sc_steps ms s')"

lemma step_work:
  assumes "mutex_ok s" and "sc_step (StepCall k) s = Some s'"
  shows "work_left s' < work_left s \<and> length (sc_calls s') = length (sc_calls s)"
proof -
  have less: "work_left (s2 :: ('a, 'b) shared) < work_left s"
    if "k < length (sc_calls s)" "sc_calls s ! k = (c, p)" "sc_calls s2 = (sc_calls s)[k := (c, p')]" "call_rank p' < call_rank p" for s2 c p p'
    using sum_list_replace [OF that(1), of "call_rank \<circ> snd" "(c, p')"] that(2,4) by (simp add: work_left_def that(3))
  show ?thesis using assms(2)
  proof (cases rule: step_callE)
    case (lock c)
    then show ?thesis using less [OF lock(1,2), of s' Entered] by simp
  next
    case (unlock c r)
    then show ?thesis using less [OF unlock(1,2), of s' "Gone r"] by simp
  next
    case (block c p p' st' w')
    have "fits c p" using assms(1) block(1,2) by (auto simp: mutex_ok_def)
    from block_fits [OF this block(3,4,5)] show ?thesis using less [OF block(1,2), of s' p'] block(6) by simp
  qed
qed

lemma steps_bound:
  assumes "mutex_ok s"
  shows "sc_steps ms s + work_left (sc_run ms s) + 6 * length (sc_calls s) \<le>
    work_left s + 6 * length (sc_calls (sc_run ms s))"
  using assms
proof (induction ms arbitrary: s)
  case (Cons m ms)
  show ?case
  proof (cases "sc_step m s")
    case None
    then show ?thesis using Cons by simp
  next
    case (Some s')
    have ok: "mutex_ok s'" using mutex_step [OF Cons.prems Some] .
    note IH = Cons.IH [OF ok]
    show ?thesis
    proof (cases m)
      case (NewCall c)
      then show ?thesis using IH Some by (auto simp: work_left_def)
    next
      case (Elsewhere f)
      then show ?thesis using IH Some by (auto simp: work_left_def)
    next
      case (StepCall k)
      then show ?thesis using IH Some step_work [OF Cons.prems, of k s'] by simp
    qed
  qed
qed simp

text \<open>Whoever holds the mutex can go on; when nobody does, anyone waiting can take it.\<close>

lemma somebody_moves:
  assumes "mutex_ok s"
  shows "list_all (is_gone \<circ> snd) (sc_calls s) \<or> (\<exists>k s'. sc_step (StepCall k) s = Some s')"
proof (cases "sc_holder s")
  case (Some k)
  then have k: "k < length (sc_calls s)" "\<not> outside (snd (sc_calls s ! k))" using assms by (auto simp: mutex_ok_def)
  obtain c p where cp: "sc_calls s ! k = (c, p)" by fastforce
  then have "\<exists>s'. sc_step (StepCall k) s = Some s'" using k by (cases p) (auto split: prod.split)
  then show ?thesis by blast
next
  case None
  show ?thesis
  proof (cases "\<exists>k < length (sc_calls s). snd (sc_calls s ! k) = AtLock")
    case True
    then obtain k c where "k < length (sc_calls s)" "sc_calls s ! k = (c, AtLock)" by (metis prod.collapse)
    then have "\<exists>s'. sc_step (StepCall k) s = Some s'" using None by simp
    then show ?thesis by blast
  next
    case False
    have "is_gone (snd (sc_calls s ! k))" if "k < length (sc_calls s)" for k
    proof -
      have "outside (snd (sc_calls s ! k))" using assms None that by (auto simp: mutex_ok_def)
      moreover have "snd (sc_calls s ! k) \<noteq> AtLock" using False that by blast
      ultimately show ?thesis by (cases "snd (sc_calls s ! k)") simp_all
    qed
    then show ?thesis by (auto simp: list_all_length)
  qed
qed

section \<open>Linearization\<close>

context plain_store begin

definition others_fresh :: "entity \<Rightarrow> ('t, 'w) Store \<Rightarrow> 'w \<Rightarrow> bool" where
  "others_fresh e st w \<longleftrightarrow> (\<forall>(e', v) \<in> set (view st). e' \<noteq> e \<longrightarrow> stored_value st (content w) e' = Some v)"

definition at_rest :: "('t, 'w) Store \<Rightarrow> 'w \<Rightarrow> (entity \<Rightarrow> 't option) \<Rightarrow> bool" where
  "at_rest st w m \<longleftrightarrow> fresh st w \<and> stored_value st (content w) = m"

definition computed :: "('t \<Rightarrow> 't outcome) \<Rightarrow> entity \<Rightarrow> 't \<Rightarrow> ('t, 'w) Store \<Rightarrow> (entity \<Rightarrow> 't option) \<Rightarrow> bool" where
  "computed fn e nxt st m \<longleftrightarrow> (\<exists>cur. m e = Some cur \<and> fn cur = Returned nxt) \<and> resident st e \<noteq> None"

text \<open>What holds at each stage of the call that has the mutex, \<open>m\<close> being the map so far.\<close>

fun call_rel :: "'t call \<Rightarrow> 't call_at \<Rightarrow> ('t, 'w) Store \<Rightarrow> 'w \<Rightarrow> (entity \<Rightarrow> 't option) \<Rightarrow> bool" where
  "call_rel (CUpdate e fn) (Modifying cur) st w m \<longleftrightarrow> at_rest st w m \<and> m e = Some cur \<and> resident st e \<noteq> None"
| "call_rel (CUpdate e fn) (Writing nxt raw) st w m \<longleftrightarrow>
     at_rest st w m \<and> computed fn e nxt st m \<and>
     (\<forall>m'. stored_value st (m'(store_key st e \<mapsto> raw)) e = Some nxt)"
| "call_rel (CUpdate e fn) (Reflecting nxt) st w m \<longleftrightarrow>
     computed fn e nxt st m \<and> others_fresh e st w \<and> stored_value st (content w) = m(e \<mapsto> nxt)"
| "call_rel (CDelete e) Forgetting st w m \<longleftrightarrow>
     others_fresh e st w \<and> stored_value st (content w) = m(e \<mapsto> s_zero st)"
| "call_rel c (Unlocking r) st w m \<longleftrightarrow>
     fresh st w \<and> spec_step (s_zero st) (call_op c :: ('t, 'w) store_op) r m (stored_value st (content w))"
| "call_rel c p st w m \<longleftrightarrow> at_rest st w m"

lemma plain_keeps: "plain st \<Longrightarrow> store_ok st' \<Longrightarrow> config_of st' = config_of st \<Longrightarrow> plain st'"
  using config_of_fields [of st' st] by (simp add: plain_def)

lemma getLocked_rel:
  assumes "plain st" and "at_rest st w m" and "getLocked e st w = (r, st', w')"
  shows "at_rest st' w' m \<and> plain st' \<and> config_of st' = config_of st \<and>
    (\<forall>v. r = Returned (v, None) \<longrightarrow> m e = Some v \<and> resident st' e \<noteq> None)"
proof -
  have ok: "store_ok st" and b: "s_b st = b" using assms(1) by (auto simp: plain_def)
  have fr: "fresh st w" and m: "stored_value st (content w) = m" using assms(2) by (simp_all add: at_rest_def)
  have same: "content w' = content w" by (rule getLocked_content [OF b assms(3)])
  have st': "store_ok st'" "config_of st' = config_of st"
    using getLocked_is_ref(1) [OF ok, of e w] by (simp_all add: assms(3))
  have "m e = Some v \<and> resident st' e \<noteq> None" if "r = Returned (v, None)" for v
    using Get_plain [OF assms(1) fr] assms(3) that m getLocked_success(3) [OF ok, of e w v st' w']
      map_of_view [OF st'(1), of e] by auto
  then show ?thesis
    using getLocked_fresh [OF assms(1) fr assms(3)] plain_keeps [OF assms(1) st'] st' same m
    by (simp add: at_rest_def stored_value_cong [OF st'(2)])
qed

lemma fresh_others: "fresh st w \<Longrightarrow> others_fresh e st w"
  by (auto simp: fresh_def others_fresh_def)

lemma encoded_value:
  assumes "plain st" and "c_Marshal (s_codec st) v = Inr raw"
    and "j_Marshal (s_json st) \<lparr>env_State = raw, env_LastActive = t\<rparr> = Inr out"
  shows "stored_value st (m(store_key st e \<mapsto> out)) e = Some v"
  using assms codec_reads [of v raw] json_reads by (auto simp: plain_def stored_value_def)

lemma value_update:
  "stored_value st (m(store_key st e := x)) = (stored_value st m)(e := stored_value st (m(store_key st e := x)) e)"
  by (rule ext) (simp add: stored_value_elsewhere)

lemma write_rel:
  assumes p: "plain st" and rel: "call_rel (CUpdate e fn) (Writing nxt raw) st w m"
    and put: "b_Put (s_b st) (store_key st e) raw w = (r, w')"
  shows "case r of
      None \<Rightarrow> call_rel (CUpdate e fn) (Reflecting nxt) st w' m
    | Some err \<Rightarrow> call_rel (CUpdate e fn) (Unlocking (Value (Returned (nxt, Some err)))) st w' m"
proof (cases r)
  case None
  then have c: "content w' = (content w)(store_key st e \<mapsto> raw)" using put p put_done by (simp add: plain_def)
  have sv: "stored_value st (content w') = m(e \<mapsto> nxt)"
    using rel value_update [of st "content w" e "Some raw"] by (simp add: c at_rest_def)
  have "others_fresh e st w'"
    using rel by (auto simp: others_fresh_def at_rest_def fresh_def sv)
  then show ?thesis using rel sv None by simp
next
  case (Some err)
  then have "content w' = content w" using put p put_atomic by (simp add: plain_def)
  then show ?thesis using rel Some by (auto simp: at_rest_def fresh_def)
qed

lemma reflect_rel:
  assumes p: "plain st" and rel: "call_rel (CUpdate e fn) (Reflecting nxt) st w m"
    and ref: "reflect e nxt st w = (r, st', w')"
  shows "call_rel (CUpdate e fn) (Unlocking (Value r)) st' w' m \<and> plain st' \<and> config_of st' = config_of st"
proof -
  have ok: "store_ok st" using p by (simp add: plain_def)
  obtain el where el: "resident st e = Some el" using rel by (auto simp: computed_def)
  have r: "r = Returned (nxt, None)" "view st' = (e, nxt) # without e (view st)" "w' = w"
    and st': "store_ok st'" "config_of st' = config_of st"
    using reflect_is_ref [OF ok el, of nxt w] by (simp_all add: ref)
  have "fresh st' w"
    using rel by (auto simp: fresh_def others_fresh_def r(2) stored_value_cong [OF st'(2)])
  then show ?thesis
    using rel r st' plain_keeps [OF p st']
    by (auto simp: computed_def stored_value_cong [OF st'(2)])
qed

lemma forget_rel:
  assumes p: "plain st" and rel: "call_rel (CDelete e) Forgetting st w m"
    and st': "st' = (case resident st e of
        Some el \<Rightarrow> st\<lparr>lru := remove1 el (lru st), resident := (resident st)(e := None)\<rparr> | None \<Rightarrow> st)"
  shows "call_rel (CDelete e) (Unlocking (Removed None)) st' w m \<and> plain st' \<and> config_of st' = config_of st"
proof -
  have ok: "store_ok st" using p by (simp add: plain_def)
  have "store_ok st' \<and> config_of st' = config_of st \<and> set (view st') \<subseteq> {x \<in> set (view st). fst x \<noteq> e}"
  proof (cases "resident st e")
    case None
    then have "map_of (view st) e = None" by (simp add: map_of_view [OF ok])
    then show ?thesis using ok None by (auto simp: st' map_of_eq_None_iff)
  next
    case (Some el)
    have "view st' = map (\<lambda>el. cell_pair (cells st ! el)) (remove1 el (lru st))"
      by (simp add: st' Some view_def)
    then have "view st' = without e (view st)" by (simp only: view_without [OF ok Some])
    then show ?thesis using drop_ok [OF ok Some] by (auto simp: st' Some frame_simps)
  qed
  then have k: "store_ok st'" "config_of st' = config_of st" "set (view st') \<subseteq> {x \<in> set (view st). fst x \<noteq> e}" by blast+
  have "fresh st' w"
    using rel k(3) by (fastforce simp: fresh_def others_fresh_def stored_value_cong [OF k(2)])
  then show ?thesis
    using rel plain_keeps [OF p k(1,2)] k(2) config_of_fields [OF k(2)] by (simp add: stored_value_cong [OF k(2)])
qed

lemma delete_rel:
  assumes p: "plain st" and rel: "at_rest st w m" and del: "b_Delete (s_b st) (store_key st e) w = (r, w')"
  shows "case r of
      None \<Rightarrow> call_rel (CDelete e) Forgetting st w' m
    | Some err \<Rightarrow> call_rel (CDelete e) (Unlocking (Removed (Some err))) st w' m"
proof (cases r)
  case None
  then have c: "content w' = (content w)(store_key st e := None)" using del p delete_done by (simp add: plain_def)
  have zero: "stored_value st ((content w)(store_key st e := None)) e = Some (s_zero st)" by (simp add: stored_value_def)
  have sv: "stored_value st (content w') = m(e \<mapsto> s_zero st)"
    using rel value_update [of st "content w" e None] zero by (simp add: c at_rest_def)
  have "others_fresh e st w'" using rel by (auto simp: others_fresh_def at_rest_def fresh_def sv)
  then show ?thesis using sv None by simp
next
  case (Some err)
  then have "content w' = content w" using del p delete_atomic by (simp add: plain_def)
  then show ?thesis using rel Some by (auto simp: at_rest_def fresh_def)
qed

text \<open>Every step of the call that holds the mutex keeps the relation to the map.\<close>

lemma block_rel:
  assumes p: "plain st" and rel: "call_rel c q st w m" and f: "fits c q" "\<not> outside q" "\<forall>r. q \<noteq> Unlocking r"
    and step: "call_block c q st w = (q', st', w')"
  shows "call_rel c q' st' w' m \<and> plain st' \<and> config_of st' = config_of st"
  using step
proof (cases "(c, q, st, w)" rule: call_block.cases)
  case (1 e st0 w0)
  then show ?thesis using step rel p getLocked_rel [OF p, where e = e and w = w and m = m]
    by (cases "getLocked e st w") (auto simp: at_rest_def)
next
  case (2 e fn st0 w0)
  obtain r st1 w1 where g: "getLocked e st w = (r, st1, w1)" by (metis prod_cases3)
  have "at_rest st w m" using 2 rel by simp
  note l = getLocked_rel [OF p this g]
  show ?thesis
  proof (cases "\<exists>v. r = Returned (v, None)")
    case True
    then show ?thesis using 2 step g l by auto
  next
    case False
    then have "q' = Unlocking (Value r)" "st' = st1" "w' = w1"
      using 2 step g by (auto split: outcome.splits option.splits prod.splits)
    then show ?thesis using 2 False l by (auto simp: at_rest_def split: outcome.split option.split)
  qed
next
  case (3 e fn cur st0 w0)
  then have same: "st' = st" "w' = w"
    using step by (auto split: outcome.splits sum.splits)
  show ?thesis
    using 3 step rel p encoded_value [OF p, where e = e]
    by (auto simp: same at_rest_def computed_def split: outcome.splits sum.splits)
next
  case (4 e fn nxt raw st0 w0)
  then show ?thesis using write_rel [OF p, where e = e and fn = fn and nxt = nxt and raw = raw and w = w and m = m] rel step p by (auto split: prod.splits option.splits)
next
  case (5 e fn nxt st0 w0)
  then show ?thesis using reflect_rel [OF p, where e = e and fn = fn and nxt = nxt and w = w and m = m] rel step by (auto simp del: call_rel.simps split: prod.splits)
next
  case (6 e st0 w0)
  then have "at_rest st w m" using rel by simp
  then show ?thesis using 6 delete_rel [OF p, where e = e and w = w and m = m] step p
    by (auto simp del: call_rel.simps split: prod.splits option.splits)
next
  case (7 e st0 w0)
  then show ?thesis using forget_rel [OF p, where e = e and w = w and m = m] rel step by (auto simp del: call_rel.simps)
qed (use f in auto)

text \<open>What others do to the world leaves the store's own entries alone.\<close>

lemma elsewhere_rel:
  assumes "call_rel c q st w m" and "\<And>e. content w' (store_key st e) = content w (store_key st e)"
  shows "call_rel c q st w' m"
proof -
  have sv: "stored_value st (content w') = stored_value st (content w)"
    by (intro ext) (simp add: stored_value_def assms(2))
  show ?thesis using assms(1)
    by (cases c; cases q) (simp_all add: at_rest_def fresh_def others_fresh_def sv)
qed

definition linear :: "('t, 'w) Store \<Rightarrow> (entity \<Rightarrow> 't option) \<Rightarrow> ('t, 'w) shared \<Rightarrow> bool" where
  "linear st0 m0 s \<longleftrightarrow>
     mutex_ok s \<and> plain (sc_store s) \<and> config_of (sc_store s) = config_of st0 \<and>
     (\<exists>m. spec_run (s_zero st0) (map (\<lambda>(c, r). call_op c :: ('t, 'w) store_op) (sc_log s)) (map snd (sc_log s)) m0 m \<and>
       (case sc_holder s of
          None \<Rightarrow> at_rest (sc_store s) (sc_world s) m
        | Some k \<Rightarrow> call_rel (fst (sc_calls s ! k)) (snd (sc_calls s ! k)) (sc_store s) (sc_world s) m))"

lemma linear_new:
  assumes "plain st" and "fresh st w"
  shows "linear st (stored_value st (content w)) (sc_new st w)"
  using assms mutex_new [of st w] by (simp add: linear_def sc_new_def at_rest_def)

lemma spec_run_snoc:
  "spec_run zero xs rs m m1 \<Longrightarrow> spec_step zero x r m1 m2 \<Longrightarrow> spec_run zero (xs @ [x]) (rs @ [r]) m m2"
proof (induction xs arbitrary: rs m)
  case Nil
  then show ?case by (cases rs) auto
next
  case (Cons y ys)
  then show ?case by (cases rs) auto
qed

lemma linear_step:
  assumes lin: "linear st0 m0 s" and step: "sc_step mv s = Some s'"
    and env: "\<And>f w e. mv = Elsewhere f \<Longrightarrow> content (f w) (store_key st0 e) = content w (store_key st0 e)"
  shows "linear st0 m0 s'"
proof -
  have mok: "mutex_ok s" and mok': "mutex_ok s'" and p: "plain (sc_store s)" and cfg: "config_of (sc_store s) = config_of st0"
    using lin mutex_step [OF _ step] by (simp_all add: linear_def)
  obtain m where m: "spec_run (s_zero st0) (map (\<lambda>(c, r). call_op c :: ('t, 'w) store_op) (sc_log s)) (map snd (sc_log s)) m0 m"
    and at: "case sc_holder s of
          None \<Rightarrow> at_rest (sc_store s) (sc_world s) m
        | Some k \<Rightarrow> call_rel (fst (sc_calls s ! k)) (snd (sc_calls s ! k)) (sc_store s) (sc_world s) m"
    using lin by (auto simp: linear_def)
  show ?thesis
  proof (cases mv)
    case (NewCall c)
    have "j < length (sc_calls s)" if "sc_holder s = Some j" for j using mok that by (simp add: mutex_ok_def)
    then show ?thesis using step NewCall mok' p cfg m at
      by (auto simp: linear_def nth_append split: option.split)
  next
    case (Elsewhere f)
    have key: "store_key (sc_store s) e = store_key st0 e" for e by (simp add: store_key_def config_of_fields [OF cfg])
    have el: "call_rel c q (sc_store s) (f (sc_world s)) m" if "call_rel c q (sc_store s) (sc_world s) m" for c q
      using elsewhere_rel [OF that] env Elsewhere by (simp add: key)
    have "at_rest (sc_store s) (f (sc_world s)) m" if "at_rest (sc_store s) (sc_world s) m"
      using el [of "CGet []" AtLock] that by simp
    then show ?thesis using step Elsewhere mok' p cfg m at el
      by (auto simp: linear_def split: option.splits)
  next
    case (StepCall k)
    show ?thesis using step [unfolded StepCall]
    proof (cases rule: step_callE)
      case (lock c)
      then have "call_rel c Entered (sc_store s) (sc_world s) m" using at by (cases c) simp_all
      then show ?thesis using lock mok' p cfg m by (auto simp: linear_def)
    next
      case (unlock c r)
      have "sc_holder s = Some k" using mutex_holder [OF mok unlock(1,2)] by simp
      then have rel: "fresh (sc_store s) (sc_world s)"
        "spec_step (s_zero st0) (call_op c :: ('t, 'w) store_op) r m (stored_value (sc_store s) (content (sc_world s)))"
        using at unlock(2) by (cases c; simp add: config_of_fields [OF cfg])+
      then show ?thesis using unlock mok' p cfg spec_run_snoc [OF m rel(2)]
        by (auto simp: linear_def at_rest_def)
    next
      case (block c q q' st' w')
      have h: "sc_holder s = Some k" and f: "fits c q" using mutex_holder [OF mok block(1,2,3)] mok block(1,2)
        by (auto simp: mutex_ok_def)
      then have "call_rel c q (sc_store s) (sc_world s) m" using at block(2) by simp
      from block_rel [OF p this f block(3,4,5)] show ?thesis
        using block(1,6) h mok' cfg m by (auto simp: linear_def)
    qed
  qed
qed

lemma linear_run:
  assumes "linear st0 m0 s"
    and "\<And>f w e. Elsewhere f \<in> set ms \<Longrightarrow> content (f w) (store_key st0 e) = content w (store_key st0 e)"
  shows "linear st0 m0 (sc_run ms s)"
  using assms
proof (induction ms arbitrary: s)
  case (Cons mv ms)
  show ?case
  proof (cases "sc_step mv s")
    case None
    then show ?thesis using Cons by simp
  next
    case (Some s')
    have "linear st0 m0 s'" using linear_step [OF Cons.prems(1) Some] Cons.prems(2) by simp
    then show ?thesis using Cons.IH [of s'] Cons.prems(2) Some by simp
  qed
qed simp

lemma linear_final:
  assumes "linear st0 m0 s"
  shows "\<exists>m. spec_run (s_zero st0) (map (\<lambda>(c, r). call_op c :: ('t, 'w) store_op) (sc_log s)) (map snd (sc_log s)) m0 m \<and>
    (sc_holder s = None \<longrightarrow> stored_value st0 (content (sc_world s)) = m) \<and>
    mset (sc_log s) = sum_list (map gone (sc_calls s))"
proof -
  have "config_of (sc_store s) = config_of st0" using assms by (simp add: linear_def)
  from stored_value_cong [OF this] show ?thesis
    using assms by (fastforce simp: linear_def at_rest_def mutex_ok_def split: option.splits)
qed

end

section \<open>Properties\<close>



section \<open>A run\<close>

text \<open>
  A counter that an earlier process left at seven: one goroutine deletes it, one reads it, one
  panics in its function; all three wait for the mutex, and another store's entry moves in the
  middle of the delete.
\<close>

definition demo_calls :: "(nat, mem) sc_move list" where
  "demo_calls =
     [NewCall (CDelete ''c1''), NewCall (CGet ''c1''), NewCall (CUpdate ''c1'' (\<lambda>n. Panicked)),
      StepCall 1, StepCall 0, StepCall 2, StepCall 1, StepCall 1,
      StepCall 0, StepCall 2, Elsewhere (\<lambda>w. w\<lparr>stored := (stored w)(''other.c1'' \<mapsto> ''x'')\<rparr>),
      StepCall 0, StepCall 0, StepCall 0, StepCall 2, StepCall 2, StepCall 2, StepCall 2]"

lemma demo_calls_results:
  "map snd (sc_log (sc_run demo_calls (sc_new demo_store after_seven))) =
     [Value (Returned (7, None)), Removed None, Value Panicked]"
  by code_simp


end
