(* ===== verification/Logger.thy ===== *)
theory Logger
  imports Metrics
begin

text \<open>
  The harness's logger (\<open>logger.go\<close>) over \<open>log/slog\<close>. A handler is what the host gives: whether
  it takes a level, and what handling a record does to its own state. A record is the level, the
  message and the attributes that \<open>slog\<close> makes of the arguments. Everywhere else a log line is
  an \<open>ELog\<close> effect; here those effects reach the handler.
\<close>

section \<open>Records and attributes\<close>

text \<open>An argument of a log call: a string, a ready attribute, or any other value.\<close>

datatype 'v log_arg = ArgString string | ArgAttr string 'v | ArgOther 'v

type_synonym 'v attr = "string \<times> (string + 'v)"

text \<open>
  \<open>Record.Add\<close>: a string is the key of the argument after it; a last string without one, and
  a value where a key should be, get the key \<open>!BADKEY\<close>.
\<close>

fun arg_value :: "'v log_arg \<Rightarrow> string + 'v" where
  "arg_value (ArgString s) = Inl s"
| "arg_value (ArgAttr k v) = Inr v"
| "arg_value (ArgOther v) = Inr v"

fun argsToAttrs :: "'v log_arg list \<Rightarrow> 'v attr list" where
  "argsToAttrs [] = []"
| "argsToAttrs [ArgString s] = [(''!BADKEY'', Inl s)]"
| "argsToAttrs (ArgString k # a # as) = (k, arg_value a) # argsToAttrs as"
| "argsToAttrs (ArgAttr k v # as) = (k, Inr v) # argsToAttrs as"
| "argsToAttrs (ArgOther v # as) = (''!BADKEY'', Inr v) # argsToAttrs as"

text \<open>What the harness's calls pass: keys that are strings, each with its value.\<close>

definition keyed :: "(string \<times> 'v log_arg) list \<Rightarrow> 'v log_arg list" where
  "keyed kvs = concat (map (\<lambda>(k, a). [ArgString k, a]) kvs)"

lemma keyed_attrs: "argsToAttrs (keyed kvs) = map (\<lambda>(k, a). (k, arg_value a)) kvs"
  by (induction kvs) (auto simp: keyed_def)

section \<open>The logger\<close>

record ('v, 'w) Handler =
  hd_Enabled :: "level \<Rightarrow> bool"
  hd_Handle :: "level \<Rightarrow> string \<Rightarrow> 'v attr list \<Rightarrow> 'w \<Rightarrow> gerr option \<times> 'w"

record ('v, 'w) logger =
  lg_l :: "('v, 'w) Handler"

text \<open>\<open>slog.New\<close> panics when the handler is nil.\<close>

definition newLogger :: "('v, 'w) Handler option \<Rightarrow> ('v, 'w) logger outcome" where
  "newLogger h = (case h of None \<Rightarrow> Panicked | Some hdl \<Rightarrow> Returned \<lparr>lg_l = hdl\<rparr>)"

text \<open>\<open>slog.Logger.log\<close>: nothing when the level is off; the handler's error is ignored.\<close>

definition slog_log :: "('v, 'w) Handler \<Rightarrow> level \<Rightarrow> string \<Rightarrow> 'v log_arg list \<Rightarrow> 'w \<Rightarrow> 'w" where
  "slog_log hdl l msg kv w =
     (if hd_Enabled hdl l then snd (hd_Handle hdl l msg (argsToAttrs kv) w) else w)"

definition logger_debug :: "('v, 'w) logger \<Rightarrow> string \<Rightarrow> 'v log_arg list \<Rightarrow> 'w \<Rightarrow> 'w" where
  "logger_debug lg msg kv = slog_log (lg_l lg) Debug msg kv"

definition logger_info :: "('v, 'w) logger \<Rightarrow> string \<Rightarrow> 'v log_arg list \<Rightarrow> 'w \<Rightarrow> 'w" where
  "logger_info lg msg kv = slog_log (lg_l lg) Info msg kv"

definition logger_warn :: "('v, 'w) logger \<Rightarrow> string \<Rightarrow> 'v log_arg list \<Rightarrow> 'w \<Rightarrow> 'w" where
  "logger_warn lg msg kv = slog_log (lg_l lg) Warn msg kv"

definition logger_error :: "('v, 'w) logger \<Rightarrow> string \<Rightarrow> 'v log_arg list \<Rightarrow> 'w \<Rightarrow> 'w" where
  "logger_error lg msg kv = slog_log (lg_l lg) Error msg kv"

fun logger_at :: "level \<Rightarrow> ('v, 'w) logger \<Rightarrow> string \<Rightarrow> 'v log_arg list \<Rightarrow> 'w \<Rightarrow> 'w" where
  "logger_at Debug = logger_debug"
| "logger_at Info = logger_info"
| "logger_at Warn = logger_warn"
| "logger_at Error = logger_error"

section \<open>The lines of a run\<close>

text \<open>
  The log effects of a run, handed to the logger one after the other; \<open>kvs\<close> says which keyed
  arguments a line comes with.
\<close>

primrec deliver ::
  "('v, 'w) logger \<Rightarrow> (level \<Rightarrow> string \<Rightarrow> (string \<times> 'v log_arg) list) \<Rightarrow> 'a effect list \<Rightarrow> 'w \<Rightarrow> 'w" where
  "deliver lg kvs [] w = w"
| "deliver lg kvs (e # es) w =
     deliver lg kvs es (case e of ELog l m \<Rightarrow> logger_at l lg m (keyed (kvs l m)) w | _ \<Rightarrow> w)"

definition log_lines :: "'a effect list \<Rightarrow> (level \<times> string) list" where
  "log_lines es = concat (map (\<lambda>e. case e of ELog l m \<Rightarrow> [(l, m)] | _ \<Rightarrow> []) es)"

text \<open>A handler that keeps what it handles, and fails after having kept it.\<close>

definition keeping :: "(level \<Rightarrow> bool) \<Rightarrow> ('v, (level \<times> string \<times> 'v attr list) list) Handler" where
  "keeping on = \<lparr>hd_Enabled = on, hd_Handle = (\<lambda>l m as w. (Some (Opaque ''write failed''), w @ [(l, m, as)]))\<rparr>"

text \<open>
  Every line of a run reaches the handler once, in order, if its level is on, with each of its
  values under its own key; no line is lost to a handler that fails.
\<close>

theorem lines_delivered:
  assumes "newLogger (Some (keeping on)) = Returned lg"
  shows "deliver lg kvs es w =
    w @ map (\<lambda>(l, m). (l, m, map (\<lambda>(k, a). (k, arg_value a)) (kvs l m))) (filter (on \<circ> fst) (log_lines es))"
proof -
  have at: "logger_at l lg m as w = (if on l then w @ [(l, m, argsToAttrs as)] else w)" for l m as w
    using assms by (cases l) (auto simp: newLogger_def keeping_def slog_log_def logger_debug_def logger_info_def
        logger_warn_def logger_error_def)
  show ?thesis
  proof (induction es arbitrary: w)
    case (Cons e es)
    then show ?case by (cases e) (auto simp: at log_lines_def keyed_attrs)
  qed (simp add: log_lines_def)
qed

end
