(* ===== verification/Spec2Isabelle.thy ===== *)
theory Spec2Isabelle
  imports Harness_Properties Registry_Concurrent Stream_Config Persist_Properties
    Persist_Durability Persist_Beacon Schedule_Register Schedule_Channel Soulstream_Participant Echo_Main
    Natstest Harness_Pipeline Persist_Sessions Persist_Concurrent Logger
begin

text \<open>
  A verification library for the imp harness (Go module \<open>github.com/impire-io/imps\<close>; paths
  below are relative to \<open>src/\<close>).

  \<^bold>\<open>The program.\<close> An imp is declared by an \<open>ImpSpec\<close>: channels that say where messages come from
  and how to decode them, an awareness function that looks at every message and answers with a
  verdict (ignore, note, think), a thinking function that runs in its own goroutine, per-entity
  state shapes, and a note hook. \<open>NewImp\<close> validates it; \<open>Run\<close> boots the runtime, binds every
  channel to a NATS subject or a JetStream consumer, and waits; each message goes through a
  pipeline (decode, extract the entity, awareness, act on the verdict); \<open>Shutdown\<close> releases the
  substrate handles, cancels thinking and waits for it. Three packages build on the harness:
  \<open>persist\<close> keeps per-entity state in a durable backend behind a bounded cache, \<open>schedule\<close>
  registers recurring messages and consumes their ticks, \<open>soulstream\<close> reads and writes topics of
  the soulstream library.

  \<^bold>\<open>Theories and code.\<close>

  \<^item> \<open>Prelude\<close>: names for Go types, the outcome of code that may panic, 64-bit integers, shared
    lemmas and the collections \<open>config_simps\<close> (options and configurations) and \<open>frame_simps\<close>
    (fields an operation leaves alone). \<open>Go_Std\<close>, \<open>Go_Time\<close>: the standard library as far as the
    program uses it (decimals, \<open>Duration.String\<close>, the saturating \<open>Time.Sub\<close>, joining, quoting,
    RFC 3339 with its round trip). \<open>Substrate\<close>: the NATS and JetStream calls as a record of
    parameters over a network state \<open>'n\<close>; \<open>Loopback\<close>: one concrete instance, for evaluation.
  \<^item> \<open>Lifecycle\<close>: \<open>internal/lifecycle/state.go\<close>, with the documented transitions as a relation and
    the states as a linear order. \<open>Imp_Errors\<close>: \<open>errors.go\<close> and \<open>state.go\<close>; \<open>errors_Is\<close> follows
    \<open>Unwrap\<close>. \<open>Imp_Spec\<close>: \<open>spec.go\<close>, \<open>channel.go\<close>, \<open>validate.go\<close>, \<open>options.go\<close>. \<open>Metrics\<close>:
    \<open>metrics_internal.go\<close>, 64-bit counters, and the record \<open>io\<close> (counters, effects performed,
    network) that all pipelines thread. \<open>Logger\<close>: \<open>logger.go\<close> over a handler, and how the log lines
    of a run reach it.
  \<^item> \<open>Registry\<close>: \<open>registry.go\<close> with each operation atomic. \<open>Registry_Concurrent\<close>: \<open>registry.ref\<close>
    as the atomic steps (load, compare-and-swap, factory, store, give back) of any number of
    goroutines, with \<open>sys_step\<close> as the step relation.
  \<^item> \<open>Request\<close>: \<open>request.go\<close>. \<open>Contexts\<close>: \<open>verdict.go\<close>, \<open>context.go\<close>, \<open>context_awareness.go\<close>,
    \<open>context_thinking.go\<close>; a user function is a program over exactly the methods its context
    has (\<open>aw_prog\<close>, \<open>th_prog\<close>), so what the interface does not offer cannot be written.
  \<^item> \<open>Dispatch\<close>: \<open>dispatch.go\<close>, \<open>note.go\<close>, \<open>thinking.go\<close> and the delivery half of \<open>stream.go\<close>.
    \<open>Dispatch_Run\<close>: any sequence of deliveries and steps of thinking goroutines. \<open>Pipeline\<close>: the
    same code in the single steps at which the dispatchers of different channels and thinking
    goroutines interleave; \<open>Pipeline_Run\<close>: systems of them. \<open>Stream_Config\<close>: the
    configuration half of \<open>stream.go\<close>.
  \<^item> \<open>Harness\<close>: \<open>imp.go\<close>, \<open>start.go\<close> and the binding and teardown of \<open>stream.go\<close>, the bodies of
    \<open>Run\<close> and \<open>Shutdown\<close> cut into blocks at the points where other goroutines can interfere.
    \<open>Harness_Facts\<close>: what each piece does to the handles. \<open>Harness_Run\<close>: worlds in which calls of
    \<open>Run\<close> and \<open>Shutdown\<close>, deliveries and thinking interleave, and the invariant of every reachable
    world. \<open>Harness_Properties\<close>: what follows for callers. \<open>Harness_Pipeline\<close>: the same blocks
    interleaved with the single steps of \<open>Pipeline\<close>, a dispatcher for every channel bound.
  \<^item> \<open>Persist_Backend\<close>: \<open>persist/backend.go\<close> and the in-memory backend of its tests.
    \<open>Persist_Store\<close>: \<open>persist/store.go\<close> and \<open>persist/codec.go\<close>; list elements are indices into a
    heap of cells, as the map and the list share them. \<open>Persist_Cache\<close>: the invariant and the
    reference cache. \<open>Persist_Wire\<close>: the stored envelope. \<open>Persist_Runs\<close>: sequences of operations.
    \<open>Persist_Properties\<close>, \<open>Persist_Durability\<close>: the properties, on the store of \<open>Persist_Demo\<close>.
    \<open>Persist_Sessions\<close>: processes that come and go over one backend. \<open>Persist_Concurrent\<close>: the
    mutex of the store under any number of goroutines, with other users of the backend moving
    between their steps. \<open>Persist_Beacon\<close>: \<open>persist/beacon.go\<close>.
  \<^item> \<open>Values\<close>: the types that travel as \<open>any\<close>. \<open>Options\<close>: the functional-option pattern.
    \<open>Schedule_Register\<close>: \<open>schedule/register.go\<close> and the header names of \<open>schedule/tick.go\<close>.
    \<open>Schedule_Channel\<close>: \<open>schedule/channel.go\<close>, \<open>schedule/tick.go\<close>. \<open>Soulstream_Channel\<close>:
    \<open>soulstream/channel.go\<close>, \<open>soulstream/op.go\<close>. \<open>Soulstream_Participant\<close>:
    \<open>soulstream/participant.go\<close>, \<open>soulstream/notebridge.go\<close>. \<open>Echo\<close>: the imp of
    \<open>examples/echo/main.go\<close>; \<open>Echo_Main\<close>: its \<open>main\<close>, over the worlds of \<open>Harness_Run\<close>. \<open>Natstest\<close>: \<open>testutil/natstest/server.go\<close>.

  \<^bold>\<open>What the lemmas show.\<close>

  \<^item> The harness: every reachable world keeps one invariant (lifecycle history, one closer, every
    handle either recorded or released, counters equal to the calls performed). From it: a
    shutdown that began while Running releases everything, a failed start rolls back, the
    histories are the documented ones except for the races named below, the final error is
    one and the same for all callers, the shutdown body ends.
  \<^item> Dispatch: all branches of both pipelines, the order of acknowledgement and verdict, the
    ledger of counters against effects, what user code can break, and what it cannot reach.
  \<^item> Pipelines: the single steps of one message alone are \<open>dispatch\<close> and \<open>dispatchStream\<close>; with
    any interference they end; in every interleaving messages are conserved, stream messages
    settled once, and the wait group covers the goroutines alive, each pending action owing its
    share to the counters. In the whole harness at this grain, nothing is taken after a
    shutdown and at most one goroutine per busy dispatcher still appears: a running callback
    is not waited for. The books of the whole harness balance at every step: messages,
    settlements, handles, wait group.
  \<^item> Registry: cap, sharing and termination of the compare-and-swap loop under every interleaving;
    five steps of one goroutine alone are the atomic \<open>ref\<close>.
  \<^item> Requests: exact classification, and the fan-out loop against its declarative reference.
  \<^item> Store: the store is a reference LRU cache, and over an atomic backend it refines a map from
    entities to values, so that eviction and restarts cannot be seen; calls of many goroutines are linearizable, in the order
    in which they unlock, and none waits forever; bounds, failures, isolation by name.
  \<^item> Schedules, topics, notes, echo: from options to the channel or message that results, and from
    a delivered message through the harness to the effect of the user code; the ways \<open>main\<close> of
    the example can end.
  \<^item> Test support: everything acquired is given back by the cleanup functions.

  \<^bold>\<open>Interfaces.\<close> Contracts between parts are locales, interpreted on the model's definitions:
  \<open>header_api\<close> (\<open>nats.Header\<close>), \<open>slot_store\<close> (the registry), \<open>durable_backend\<close> with
  \<open>atomic_backend\<close> (the \<open>Backend\<close> interface), \<open>kv_bucket\<close>, a sublocale of \<open>durable_backend\<close>
  through \<open>KVBackend\<close>, \<open>store_codec\<close> (codec and envelope) and \<open>plain_store\<close> (both together),
  \<open>option_field\<close> (one field of a configuration under its options), \<open>schedule_server\<close> and
  \<open>topic_library\<close> (what the two external services document). Their hypotheses state documented
  behaviour of code outside the repository, and each has an instance that computes.

  \<^bold>\<open>Parameters.\<close> The NATS client, JetStream, the key-value bucket, \<open>encoding/json\<close>, the clock, the
  soulstream library and the embedded server are arguments of the definitions. Functions of the
  declaration (decode, extract, factories, wake hooks, update functions) are arbitrary and may
  panic.

  \<^bold>\<open>Bounds.\<close> No definition needs fuel: loops recurse on lists or numbers, and concurrent parts are
  sequences of steps of any length. The bounds that are proved: \<open>n\<close> concurrent calls of
  \<open>ref\<close> take at most \<open>2 n (2 n + 1) + 7 n\<close> steps in all, the shutdown body takes at most seven of its own
  steps, an echo goroutine two, a call on a store six (lock,
  read, compute, write, reflect, unlock). Integers are 64-bit where the code's range matters (counters,
  \<open>itoa\<close>, durations).

  \<^bold>\<open>Grain.\<close> In \<open>Dispatch\<close> and \<open>Harness_Run\<close> a message is dispatched in one step, so the drain and
  shutdown properties there speak of messages whose dispatch is over; \<open>Pipeline_Run\<close> and
  \<open>Harness_Pipeline\<close> are the finer account. There an atomic counter, a client call, one call of awareness on its context
  and the deferred calls at the end of a thinking goroutine are single steps; the steps inside
  \<open>registry.ref\<close> are those of \<open>Registry_Concurrent\<close>. In the sequential theories of the
  store an operation is one step, as its mutex is held throughout; \<open>Persist_Concurrent\<close> splits it
  after its calls to the backend and to the caller's function.

  \<^bold>\<open>Not modelled.\<close> In the harness a log line is an effect \<open>ELog\<close> with its level and message; which values its
  attributes hold is a parameter of \<open>Logger\<close>. The package documentation files and \<open>internal/hqlint\<close>
  hold comments and tests; \<open>integration/compiletest\<close> holds programs that must not compile. Of the
  echo example, a signal that arrives before its handler is installed is left out. Values
  are immutable, so aliasing between a resident entry and a reference-typed value the caller
  mutates in place does not appear; the concrete envelope format of \<open>Persist_Wire\<close> reads
  what it writes, not every JSON text; time has one clock, not a monotonic one beside it;
  time-zone strings are passed on as the code does, without being looked up.
\<close>

end
